(* ===== verification/Prelude.thy ===== *)
theory Prelude
  imports Complex_Main "HOL-Library.Log_Nat" "HOL-Library.Multiset" "HOL-Library.Word"
begin

text \<open>
  What every component shares: the type of computations that may panic, the fact collections
  the component proofs are run with, and generic lemmas on powers of two, lists and words.

  A Rust panic (an \<open>unwrap\<close> on \<open>None\<close> or \<open>Err\<close>, a slice out of range, a failed \<open>assert\<close>)
  is a value of the left summand of \<open>'a run\<close>, so it is a branch of every model.
\<close>

section \<open>Computations that may panic\<close>

datatype panic =
    UnwrapFailed          \<comment> \<open>\<open>Option::unwrap\<close> on \<open>None\<close>, \<open>Result::unwrap\<close> on \<open>Err\<close>\<close>
  | SliceOutOfRange       \<comment> \<open>\<open>&s[a..b]\<close> past the end\<close>
  | NotCharBoundary       \<comment> \<open>\<open>&s[a..b]\<close> on a string, inside an encoded character\<close>
  | AssertFailed          \<comment> \<open>\<open>debug_assert_eq!\<close> in a debug build\<close>
  | DateTimeOverflow      \<comment> \<open>arithmetic on \<open>chrono\<close> values out of its range\<close>

type_synonym 'a run = "panic + 'a"

abbreviation ok :: "'a \<Rightarrow> 'a run" where
  "ok x \<equiv> Inr x"

fun bind_run :: "'a run \<Rightarrow> ('a \<Rightarrow> 'b run) \<Rightarrow> 'b run" where
  "bind_run (Inl p) f = Inl p"
| "bind_run (Inr x) f = f x"

fun map_run :: "('a \<Rightarrow> 'b) \<Rightarrow> 'a run \<Rightarrow> 'b run" where
  "map_run f (Inl p) = Inl p"
| "map_run f (Inr x) = Inr (f x)"

lemma bind_run_Inr [simp]: "bind_run r f = Inr y \<longleftrightarrow> (\<exists>x. r = Inr x \<and> f x = Inr y)"
  by (cases r) auto

lemma map_run_Inr [simp]: "map_run f r = Inr y \<longleftrightarrow> (\<exists>x. r = Inr x \<and> y = f x)"
  by (cases r) auto

lemma map_run_Inl [simp]: "map_run f r = Inl p \<longleftrightarrow> r = Inl p"
  by (cases r) auto

section \<open>Fact collections\<close>

text \<open>
  \<open>fp_eval\<close> holds the definitions a closed floating-point term is evaluated with, \<open>range\<close> the
  introduction rules that bound the result of an operation by bounds on its arguments.
\<close>

named_theorems fp_eval
named_theorems range

section \<open>Powers of two with an integer exponent\<close>

lemma powi_le_iff: "(2::real) powi a \<le> 2 powi b \<longleftrightarrow> a \<le> b"
  using power_int_increasing [of a b "2::real"] power_int_strict_increasing [of b a "2::real"]
  by (cases "a \<le> b") auto

lemma powi_less_iff: "(2::real) powi a < 2 powi b \<longleftrightarrow> a < b"
  using powi_le_iff [of b a] by linarith

lemma powi_pos [simp]: "0 < (2::real) powi a"
  by (rule zero_less_power_int) simp

lemma powi_Suc: "(2::real) powi (a + 1) = 2 * 2 powi a"
  by (simp add: power_int_add)

lemma powi_nat: "0 \<le> a \<Longrightarrow> (2::real) powi a = real_of_int (2 ^ nat a)"
  by (simp add: power_int_nonneg_exp)

lemma powi_quot_int: "b \<le> a \<Longrightarrow> \<exists>n::int. (2::real) powi a / 2 powi b = of_int n"
proof -
  assume "b \<le> a"
  then have "(2::real) powi a / 2 powi b = of_int (2 ^ nat (a - b))"
    by (simp add: power_int_diff [symmetric] powi_nat)
  then show ?thesis by blast
qed


section \<open>Lists\<close>

lemma length_filter_mono: "(\<And>x. x \<in> set xs \<Longrightarrow> P x \<Longrightarrow> Q x) \<Longrightarrow> length (filter P xs) \<le> length (filter Q xs)"
  by (induction xs) auto

section \<open>Words\<close>

lemma uint_of_nat_32: "n < 2 ^ 32 \<Longrightarrow> uint (of_nat n :: 32 word) = int n"
  by (simp add: unsigned_of_nat take_bit_nat_eq_self)

end
