(* ===== verification/Rounding.thy ===== *)
theory Rounding
  imports Prelude
begin

text \<open>
  Rounding to a binary floating-point format, and the contract the rest of the development
  uses of it. \<open>rnd F x\<close> is the value the format \<open>F\<close> gives the real number \<open>x\<close> (round to
  nearest, ties to even, gradual underflow) and \<open>overflows F r\<close> tells when such a value
  is past the largest finite one. \<open>F32\<close> and \<open>F64\<close> are Rust's \<open>f32\<close> and \<open>f64\<close>; \<open>Exact\<close> is
  arithmetic without rounding, in which the algorithm behind a floating-point routine can
  be compared with its textbook definition.
\<close>

definition floor_log2 :: "real \<Rightarrow> int" where
  "floor_log2 x = (if 1 \<le> x then bitlen \<lfloor>x\<rfloor> - 1 else - bitlen (\<lceil>1 / x\<rceil> - 1))"

lemma bitlen_numeral [simp]:
  "bitlen 1 = 1"
  "bitlen (numeral (num.Bit0 n)) = bitlen (numeral n) + 1"
  "bitlen (numeral (num.Bit1 n)) = bitlen (numeral n) + 1"
  by (subst compute_bitlen; simp)+

lemma floor_log2_bounds:
  assumes "0 < x"
  shows "2 powi floor_log2 x \<le> x" and "x < 2 powi (floor_log2 x + 1)"
proof -
  have "2 powi floor_log2 x \<le> x \<and> x < 2 powi (floor_log2 x + 1)"
  proof (cases "1 \<le> x")
    case True
    then have n: "0 < \<lfloor>x\<rfloor>" by linarith
    then have L: "1 \<le> bitlen \<lfloor>x\<rfloor>"
      by (metis bitlen_eq_zero_iff bitlen_nonneg int_one_le_iff_zero_less order_le_less not_le)
    note b = bitlen_bounds [OF n]
    have lo: "(2::real) powi (bitlen \<lfloor>x\<rfloor> - 1) \<le> of_int \<lfloor>x\<rfloor>"
      using b L by (simp add: powi_nat del: of_int_power of_int_numeral)
    have "of_int (\<lfloor>x\<rfloor> + 1) \<le> (2::real) powi (bitlen \<lfloor>x\<rfloor>)"
      using b L by (subst powi_nat) (auto simp del: of_int_power of_int_numeral of_int_add)
    with lo True show ?thesis
      by (simp add: floor_log2_def) linarith
  next
    case False
    define m where "m = \<lceil>1 / x\<rceil> - 1"
    define L where "L = bitlen m"
    have y: "1 < 1 / x" using False assms by simp
    then have m: "0 < m" unfolding m_def by linarith
    then have L1: "1 \<le> L" unfolding L_def
      by (metis bitlen_eq_zero_iff bitlen_nonneg int_one_le_iff_zero_less order_le_less not_le)
    have b: "2 ^ nat (L - 1) \<le> m" "m < 2 ^ nat L"
      using bitlen_bounds [OF m] by (simp_all add: L_def)
    have "(2::real) powi (L - 1) \<le> of_int m"
      using b L1 by (simp add: powi_nat del: of_int_power of_int_numeral)
    moreover have "of_int m < 1 / x" unfolding m_def by linarith
    ultimately have lo: "2 powi (L - 1) < 1 / x" by linarith
    have "of_int (m + 1) \<le> (2::real) powi L"
      using b L1 by (subst powi_nat) (auto simp del: of_int_power of_int_numeral of_int_add)
    moreover have "1 / x \<le> of_int (m + 1)" unfolding m_def by linarith
    ultimately have hi: "1 / x \<le> 2 powi L" by linarith
    have "2 powi (- L) \<le> x"
      using hi assms by (simp add: power_int_minus field_simps)
    moreover have "x < 2 powi (- L + 1)"
    proof -
      have "x < 1 / 2 powi (L - 1)"
        using lo assms by (simp add: field_simps)
      also have "1 / 2 powi (L - 1) = (2::real) powi (- L + 1)"
        by (simp add: power_int_minus_divide [symmetric])
      finally show ?thesis .
    qed
    ultimately show ?thesis using False
      by (simp add: floor_log2_def L_def m_def)
  qed
  then show "2 powi floor_log2 x \<le> x" and "x < 2 powi (floor_log2 x + 1)" by simp_all
qed

lemma floor_log2_mono: "0 < x \<Longrightarrow> x \<le> y \<Longrightarrow> floor_log2 x \<le> floor_log2 y"
proof -
  assume "0 < x" "x \<le> y"
  then have "2 powi floor_log2 x < (2::real) powi (floor_log2 y + 1)"
    using floor_log2_bounds(1) [of x] floor_log2_bounds(2) [of y] by linarith
  then show ?thesis by (simp add: powi_less_iff)
qed

lemma floor_log2_eqI: "2 powi e \<le> x \<Longrightarrow> x < 2 powi (e + 1) \<Longrightarrow> floor_log2 x = e"
proof -
  assume a: "2 powi e \<le> x" "x < 2 powi (e + 1)"
  then have "0 < x" using powi_pos [of e] by linarith
  then have "(2::real) powi floor_log2 x < 2 powi (e + 1)" "(2::real) powi e < 2 powi (floor_log2 x + 1)"
    using floor_log2_bounds [of x] a by linarith+
  then show ?thesis by (simp add: powi_less_iff)
qed

definition rne :: "real \<Rightarrow> int" where
  "rne y = (let f = \<lfloor>y\<rfloor>; d = y - of_int f
            in if d < 1 / 2 then f
               else if 1 / 2 < d then f + 1
               else if even f then f else f + 1)"

lemma rne_of_int [simp]: "rne (of_int n) = n"
  by (simp add: rne_def)

lemma rne_error: "\<bar>of_int (rne y) - y\<bar> \<le> 1 / 2"
proof -
  have "of_int \<lfloor>y\<rfloor> \<le> y" "y < of_int \<lfloor>y\<rfloor> + 1" by linarith+
  then show ?thesis unfolding rne_def Let_def by (auto simp: abs_le_iff)
qed

lemma rne_mono: "x \<le> y \<Longrightarrow> rne x \<le> rne y"
proof -
  assume xy: "x \<le> y"
  show ?thesis
  proof (cases "\<lfloor>x\<rfloor> = \<lfloor>y\<rfloor>")
    case True
    with xy show ?thesis unfolding rne_def Let_def by auto
  next
    case False
    then have "\<lfloor>x\<rfloor> + 1 \<le> \<lfloor>y\<rfloor>" using floor_mono [OF xy] by linarith
    then show ?thesis unfolding rne_def Let_def by auto
  qed
qed

lemma rne_uminus: "rne (- y) = - rne y"
proof (cases "of_int \<lfloor>y\<rfloor> = y")
  case True
  then show ?thesis by (metis of_int_minus rne_of_int)
next
  case False
  then have f: "\<lfloor>- y\<rfloor> = - \<lfloor>y\<rfloor> - 1" by linarith
  then have e: "even \<lfloor>- y\<rfloor> \<longleftrightarrow> odd \<lfloor>y\<rfloor>" by simp
  have r: "- y - of_int \<lfloor>- y\<rfloor> = 1 - (y - of_int \<lfloor>y\<rfloor>)" using f by simp
  show ?thesis unfolding rne_def Let_def r e using f by auto
qed


datatype arith = Exact | Binary nat int real

definition quantum :: "nat \<Rightarrow> int \<Rightarrow> real \<Rightarrow> int" where
  "quantum p emin x = max (floor_log2 \<bar>x\<bar> - int p + 1) emin"

fun rnd :: "arith \<Rightarrow> real \<Rightarrow> real" where
  "rnd Exact x = x"
| "rnd (Binary p emin big) x =
     (if x = 0 then 0
      else let q = 2 powi quantum p emin x in of_int (rne (x / q)) * q)"

fun overflows :: "arith \<Rightarrow> real \<Rightarrow> bool" where
  "overflows Exact r = False"
| "overflows (Binary p emin big) r \<longleftrightarrow> big < \<bar>r\<bar>"

definition F32 :: arith where
  "F32 = Binary 24 (- 149) ((2 ^ 24 - 1) * 2 ^ 104)"

definition F64 :: arith where
  "F64 = Binary 53 (- 1074) ((2 ^ 53 - 1) * 2 ^ 971)"

lemma quantum_uminus [simp]: "quantum p emin (- x) = quantum p emin x"
  by (simp add: quantum_def)

lemma rnd_0 [simp]: "rnd F 0 = 0"
  by (cases F) simp_all

lemma rnd_uminus: "rnd F (- x) = - rnd F x"
  by (cases F) (simp_all add: Let_def rne_uminus)

lemma rnd_Binary_nonneg: "0 \<le> x \<Longrightarrow> 0 \<le> rnd (Binary p emin big) x"
proof -
  assume "0 \<le> x"
  then have "0 \<le> rne (x / 2 powi quantum p emin x)"
    using rne_mono [of 0 "x / 2 powi quantum p emin x"] rne_of_int [of 0] by simp
  then show ?thesis by (simp add: Let_def)
qed

lemma rnd_le_grid:
  assumes x: "0 < x" "x \<le> 2 powi k" and k: "quantum p emin x \<le> k"
  shows "rnd (Binary p emin big) x \<le> 2 powi k"
proof -
  let ?q = "2 powi quantum p emin x :: real"
  obtain n where n: "2 powi k / ?q = of_int n"
    using powi_quot_int [OF k] by blast
  have "x / ?q \<le> of_int n"
    using x by (simp add: n [symmetric] divide_right_mono)
  then have "rne (x / ?q) \<le> n"
    using rne_mono [of "x / ?q" "of_int n"] by simp
  then have "of_int (rne (x / ?q)) * ?q \<le> of_int n * ?q"
    by simp
  also have "\<dots> = 2 powi k" by (simp add: n [symmetric])
  finally show ?thesis using x by (simp add: Let_def)
qed

lemma rnd_ge_grid:
  assumes x: "2 powi k \<le> x" and k: "quantum p emin x \<le> k"
  shows "2 powi k \<le> rnd (Binary p emin big) x"
proof -
  let ?q = "2 powi quantum p emin x :: real"
  have "0 < x" using x powi_pos [of k] by linarith
  obtain n where n: "2 powi k / ?q = of_int n"
    using powi_quot_int [OF k] by blast
  have "of_int n \<le> x / ?q"
    using x by (simp add: n [symmetric] divide_right_mono)
  then have "n \<le> rne (x / ?q)"
    using rne_mono [of "of_int n" "x / ?q"] by simp
  then have "of_int n * ?q \<le> of_int (rne (x / ?q)) * ?q" by simp
  moreover have "of_int n * ?q = 2 powi k" by (simp add: n [symmetric])
  ultimately show ?thesis using \<open>0 < x\<close> by (simp add: Let_def)
qed

lemma rnd_Binary_mono_pos:
  assumes p: "1 \<le> p" and xy: "0 < x" "x \<le> y"
  shows "rnd (Binary p emin big) x \<le> rnd (Binary p emin big) y"
proof -
  let ?qx = "quantum p emin x" and ?qy = "quantum p emin y"
  have e: "floor_log2 x \<le> floor_log2 y" using xy by (rule floor_log2_mono)
  then have le: "?qx \<le> ?qy" using xy by (simp add: quantum_def)
  show ?thesis
  proof (cases "?qx = ?qy")
    case True
    have "rne (x / 2 powi ?qx) \<le> rne (y / 2 powi ?qx)"
      using xy by (intro rne_mono divide_right_mono) auto
    with True xy show ?thesis by (simp add: Let_def)
  next
    case False
    with le have lt: "?qx < ?qy" by simp
    let ?k = "floor_log2 y"
    have qy: "?qy = ?k - int p + 1" and ex: "floor_log2 x < ?k"
      using lt e xy by (auto simp: quantum_def split: if_splits)
    have "x \<le> 2 powi ?k"
      using floor_log2_bounds(2) [of x] powi_le_iff [of "floor_log2 x + 1" ?k] ex xy by auto
    moreover have "?qx \<le> ?k" using lt qy p by simp
    ultimately have "rnd (Binary p emin big) x \<le> 2 powi ?k"
      using xy by (intro rnd_le_grid) auto
    moreover have "2 powi ?k \<le> rnd (Binary p emin big) y"
      using xy qy p by (intro rnd_ge_grid floor_log2_bounds(1)) auto
    ultimately show ?thesis by linarith
  qed
qed

lemma rnd_Binary_mono:
  assumes p: "1 \<le> p" and xy: "x \<le> y"
  shows "rnd (Binary p emin big) x \<le> rnd (Binary p emin big) y"
proof -
  let ?r = "rnd (Binary p emin big)"
  consider "0 < x" | "x \<le> 0" "0 \<le> y" | "y < 0" using xy by linarith
  then show ?thesis
  proof cases
    case 1
    then show ?thesis using p xy by (intro rnd_Binary_mono_pos)
  next
    case 2
    then have "0 \<le> ?r (- x)" "0 \<le> ?r y" by (simp_all add: rnd_Binary_nonneg del: rnd.simps)
    then show ?thesis by (simp add: rnd_uminus del: rnd.simps)
  next
    case 3
    then have "?r (- y) \<le> ?r (- x)" using p xy by (intro rnd_Binary_mono_pos) auto
    then show ?thesis by (simp add: rnd_uminus del: rnd.simps)
  qed
qed

lemma rnd_dyadic_pos:
  assumes m: "0 < m" "m < 2 ^ p" and k: "emin \<le> k"
  shows "rnd (Binary p emin big) (of_int m * 2 powi k) = of_int m * 2 powi k"
proof -
  let ?x = "of_int m * 2 powi k :: real"
  have x: "0 < ?x" using m by simp
  have "?x < 2 powi (int p + k)"
  proof -
    have "of_int m < (2::real) ^ p" using m by (metis of_int_less_numeral_power_cancel_iff)
    then show ?thesis by (simp add: power_int_add)
  qed
  then have "floor_log2 ?x < int p + k"
    using floor_log2_bounds(1) [OF x] powi_less_iff [of "floor_log2 ?x" "int p + k"] by linarith
  then have "quantum p emin ?x \<le> k" using x k by (simp add: quantum_def)
  then obtain n where "(2::real) powi k / 2 powi quantum p emin ?x = of_int n"
    using powi_quot_int by blast
  then have q: "?x / 2 powi quantum p emin ?x = of_int (m * n)"
    by (metis of_int_mult times_divide_eq_right)
  then have "of_int (rne (?x / 2 powi quantum p emin ?x)) * 2 powi quantum p emin ?x = ?x"
    using powi_pos [of "quantum p emin ?x"] by (metis rne_of_int nonzero_divide_eq_eq less_irrefl)
  then show ?thesis using x by (simp only: rnd.simps Let_def) simp
qed

lemma rnd_dyadic:
  assumes m: "\<bar>m\<bar> < 2 ^ p" and k: "emin \<le> k"
  shows "rnd (Binary p emin big) (of_int m * 2 powi k) = of_int m * 2 powi k"
proof -
  consider "m = 0" | "0 < m" | "m < 0" by linarith
  then show ?thesis
  proof cases
    case 2
    then show ?thesis using m k by (intro rnd_dyadic_pos) auto
  next
    case 3
    then have "rnd (Binary p emin big) (of_int (- m) * 2 powi k) = of_int (- m) * 2 powi k"
      using m k by (intro rnd_dyadic_pos) auto
    then show ?thesis
      by (metis mult_minus_left of_int_minus rnd_uminus minus_equation_iff)
  qed simp
qed

lemma rnd_Binary_grid:
  assumes p: "1 \<le> p"
  obtains m k where "rnd (Binary p emin big) x = of_int m * 2 powi k" "\<bar>m\<bar> < 2 ^ p" "emin \<le> k"
proof -
  have pos: "\<exists>m k. rnd (Binary p emin big) x = of_int m * 2 powi k \<and> \<bar>m\<bar> < 2 ^ p \<and> emin \<le> k"
    if x: "0 < x" for x
  proof -
    let ?k = "quantum p emin x"
    let ?m = "rne (x / 2 powi ?k)"
    have r: "rnd (Binary p emin big) x = of_int ?m * 2 powi ?k" using x by (simp add: Let_def)
    have k: "emin \<le> ?k" by (simp add: quantum_def)
    have "0 \<le> ?m" using rne_mono [of 0 "x / 2 powi ?k"] rne_of_int [of 0] x by simp
    have "x < 2 powi (floor_log2 x + 1)" using x by (rule floor_log2_bounds)
    also have "\<dots> \<le> 2 powi (int p + ?k)" using x by (simp add: powi_le_iff quantum_def)
    finally have "x / 2 powi ?k \<le> of_int (2 ^ p)"
      by (simp add: power_int_add field_simps)
    then have "?m \<le> 2 ^ p" using rne_mono rne_of_int by metis
    show ?thesis
    proof (cases "?m = 2 ^ p")
      case False
      with \<open>0 \<le> ?m\<close> \<open>?m \<le> 2 ^ p\<close> r k show ?thesis by (intro exI [of _ ?m] exI [of _ ?k]) auto
    next
      case True
      then have "rnd (Binary p emin big) x = of_int 1 * 2 powi (int p + ?k)"
        using r by (simp add: power_int_add)
      moreover have "\<bar>1::int\<bar> < 2 ^ p" using p by simp
      ultimately show ?thesis using k by (intro exI [of _ 1] exI [of _ "int p + ?k"]) auto
    qed
  qed
  consider "x = 0" | "0 < x" | "0 < - x" by linarith
  then show ?thesis
  proof cases
    case 1
    then show ?thesis using that [of 0 emin] by simp
  next
    case 2
    then show ?thesis using pos that by blast
  next
    case 3
    then obtain m k where "rnd (Binary p emin big) (- x) = of_int m * 2 powi k"
      "\<bar>m\<bar> < 2 ^ p" "emin \<le> k" using pos by blast
    then show ?thesis using that [of "- m" k] by (simp add: rnd_uminus del: rnd.simps)
  qed
qed

lemma rnd_Binary_idem:
  "1 \<le> p \<Longrightarrow> rnd (Binary p emin big) (rnd (Binary p emin big) x) = rnd (Binary p emin big) x"
  by (metis rnd_Binary_grid rnd_dyadic)


text \<open>Accuracy: half a quantum, which is a relative error of 2 to the minus p in the normal range.\<close>

lemma rnd_error: "\<bar>rnd (Binary p emin big) x - x\<bar> \<le> 2 powi quantum p emin x / 2"
proof (cases "x = 0")
  case False
  let ?q = "2 powi quantum p emin x :: real"
  have "rnd (Binary p emin big) x - x = (of_int (rne (x / ?q)) - x / ?q) * ?q"
    using False by (simp add: Let_def algebra_simps)
  then have "\<bar>rnd (Binary p emin big) x - x\<bar> = \<bar>of_int (rne (x / ?q)) - x / ?q\<bar> * ?q"
    by (simp add: abs_mult)
  also have "\<dots> \<le> 1 / 2 * ?q" by (intro mult_right_mono rne_error) simp
  finally show ?thesis by simp
qed simp

lemma rnd_rel_error:
  assumes "2 powi (emin + int p - 1) \<le> \<bar>x\<bar>"
  shows "\<bar>rnd (Binary p emin big) x - x\<bar> \<le> \<bar>x\<bar> * 2 powi (- int p)"
proof -
  let ?e = "floor_log2 \<bar>x\<bar>"
  have x: "0 < \<bar>x\<bar>" using assms powi_pos [of "emin + int p - 1"] by linarith
  have "(2::real) powi (emin + int p - 1) < 2 powi (?e + 1)"
    using floor_log2_bounds(2) [OF x] assms by linarith
  then have "emin \<le> ?e - int p + 1" by (simp add: powi_less_iff)
  then have q: "quantum p emin x = ?e - int p + 1" by (simp add: quantum_def)
  have "(2::real) powi quantum p emin x / 2 = 2 powi ?e * 2 powi (- int p)"
    unfolding q by (simp add: power_int_add [symmetric] power_int_diff [symmetric] flip: power_int_add_1)
  also have "\<dots> \<le> \<bar>x\<bar> * 2 powi (- int p)"
    using floor_log2_bounds(1) [OF x] by (intro mult_right_mono) auto
  finally show ?thesis using rnd_error [of p emin big x] by linarith
qed

lemma rnd_le_double: "2 powi emin \<le> x \<Longrightarrow> rnd (Binary p emin big) x \<le> 2 * x"
proof -
  assume a: "2 powi emin \<le> x"
  then have x: "0 < x" using powi_pos [of emin] by linarith
  let ?e = "floor_log2 x"
  have "(2::real) powi emin < 2 powi (?e + 1)" using a floor_log2_bounds(2) [OF x] by linarith
  then have "quantum p emin x \<le> ?e + 1" using x by (simp add: quantum_def powi_less_iff)
  then have "rnd (Binary p emin big) x \<le> 2 powi (?e + 1)"
    using x floor_log2_bounds(2) [OF x] by (intro rnd_le_grid) auto
  also have "\<dots> \<le> 2 * x" using floor_log2_bounds(1) [OF x] by (simp add: powi_Suc)
  finally show ?thesis .
qed

lemma rep_multiple:
  assumes "1 \<le> p" "rnd (Binary p emin big) x = x"
  obtains n where "x = of_int n * 2 powi emin"
proof -
  obtain m k where x: "x = of_int m * 2 powi k" "emin \<le> k"
    using rnd_Binary_grid [OF assms(1), of emin big x] assms(2) by metis
  obtain j :: int where "(2::real) powi k / 2 powi emin = of_int j" using powi_quot_int [OF x(2)] by blast
  then have "(2::real) powi k = of_int j * 2 powi emin" by (simp add: field_simps)
  then have "x = of_int (m * j) * 2 powi emin" using x(1) by simp
  then show ?thesis by (rule that)
qed

lemma rep_gap:
  assumes "1 \<le> p" "rnd (Binary p emin big) x = x" "rnd (Binary p emin big) y = y" "x < y"
  shows "2 powi emin \<le> y - x"
proof -
  obtain m n :: int where "x = of_int m * 2 powi emin" "y = of_int n * 2 powi emin"
    using rep_multiple [OF assms(1,2)] rep_multiple [OF assms(1,3)] by metis
  then have d: "y - x = of_int (n - m) * 2 powi emin" by (simp add: algebra_simps)
  then have "0 < of_int (n - m) * (2::real) powi emin" using assms(4) by simp
  then have "0 < n - m" by (metis of_int_0_less_iff powi_pos zero_less_mult_pos2)
  then have "1 * (2::real) powi emin \<le> of_int (n - m) * 2 powi emin"
    by (intro mult_right_mono) (simp_all add: of_int_le_iff [of 1, simplified])
  with d show ?thesis by simp
qed

text \<open>The contract every arithmetic of the model keeps.\<close>

locale rounding =
  fixes F :: arith
  assumes rnd_mono: "x \<le> y \<Longrightarrow> rnd F x \<le> rnd F y"
    and rnd_idem: "rnd F (rnd F x) = rnd F x"
    and rnd_exact: "\<bar>m\<bar> < 2 ^ 24 \<Longrightarrow> - 149 \<le> k \<Longrightarrow> rnd F (of_int m * 2 powi k) = of_int m * 2 powi k"
    and no_overflow: "\<bar>r\<bar> \<le> 2 ^ 100 \<Longrightarrow> \<not> overflows F r"
    and overflow_mono: "overflows F r \<Longrightarrow> \<bar>r\<bar> \<le> \<bar>s\<bar> \<Longrightarrow> overflows F s"
begin

lemma rnd_int: "\<bar>m\<bar> < 2 ^ 24 \<Longrightarrow> rnd F (of_int m) = of_int m"
  using rnd_exact [of m 0] by simp

lemma rnd_pow2: "- 149 \<le> k \<Longrightarrow> rnd F (2 powi k) = 2 powi k"
  using rnd_exact [of 1 k] by simp

lemma rnd_1 [simp]: "rnd F 1 = 1"
  using rnd_int [of 1] by simp

lemma rnd_half [simp]: "rnd F (1 / 2) = 1 / 2"
  using rnd_pow2 [of "- 1"] by simp

lemma rnd_ge_0 [simp]: "0 \<le> x \<Longrightarrow> 0 \<le> rnd F x"
  using rnd_mono [of 0 x] by simp

lemma rnd_le_0: "x \<le> 0 \<Longrightarrow> rnd F x \<le> 0"
  using rnd_mono [of x 0] by simp

lemma rnd_le_1: "x \<le> 1 \<Longrightarrow> rnd F x \<le> 1"
  using rnd_mono [of x 1] by simp

lemma rnd_ge_1: "1 \<le> x \<Longrightarrow> 1 \<le> rnd F x"
  using rnd_mono [of 1 x] by simp

lemma rnd_abs: "\<bar>rnd F x\<bar> = rnd F \<bar>x\<bar>"
  by (cases "0 \<le> x") (simp_all add: rnd_uminus rnd_le_0)

lemma rnd_bound_pow2:
  assumes "\<bar>x\<bar> \<le> 2 ^ k" shows "\<bar>rnd F x\<bar> \<le> 2 ^ k"
proof -
  have "rnd F \<bar>x\<bar> \<le> rnd F (2 ^ k)" using assms by (rule rnd_mono)
  also have "rnd F (2 ^ k) = 2 ^ k" using rnd_pow2 [of "int k"] by simp
  finally show ?thesis by (simp add: rnd_abs)
qed

end

lemma rounding_Binary:
  assumes "24 \<le> p" "emin \<le> - 149" "2 ^ 100 < big"
  shows "rounding (Binary p emin big)"
proof
  show "x \<le> y \<Longrightarrow> rnd (Binary p emin big) x \<le> rnd (Binary p emin big) y" for x y
    using assms by (intro rnd_Binary_mono) auto
  show "rnd (Binary p emin big) (rnd (Binary p emin big) x) = rnd (Binary p emin big) x" for x
    using assms by (intro rnd_Binary_idem) auto
  show "rnd (Binary p emin big) (of_int m * 2 powi k) = of_int m * 2 powi k"
    if "\<bar>m\<bar> < 2 ^ 24" "- 149 \<le> k" for m k
  proof (rule rnd_dyadic)
    have "(2::int) ^ 24 \<le> 2 ^ p" using assms by (intro power_increasing) auto
    then show "\<bar>m\<bar> < 2 ^ p" using that by linarith
    show "emin \<le> k" using that assms by linarith
  qed
qed (use assms in auto)

interpretation f32: rounding F32
  unfolding F32_def by (rule rounding_Binary) simp_all

interpretation f64: rounding F64
  unfolding F64_def by (rule rounding_Binary) simp_all

interpretation exact: rounding Exact
  by unfold_locales simp_all

end
