(* ===== verification/Floats.thy ===== *)
theory Floats
  imports Rounding
begin

text \<open>
  Rust's \<open>f32\<close> and \<open>f64\<close> values and the operations of the standard library the engine uses.
  A value is NaN, an infinity, the negative zero, or a real number (\<open>Num 0\<close> is the positive
  zero); the arithmetic (\<open>F32\<close>, \<open>F64\<close>) is an argument of every operation that rounds.
  Comparisons are false on NaN, \<open>clamp\<close> returns NaN on NaN, \<open>max\<close> ignores it, and casts to
  integers saturate, as the language defines them.
\<close>

datatype fp = NaN | PInf | NInf | NZero | Num real

fun fval :: "fp \<Rightarrow> real" where
  "fval (Num x) = x"
| "fval _ = 0"

fun is_fin :: "fp \<Rightarrow> bool" where
  "is_fin (Num x) = True"
| "is_fin NZero = True"
| "is_fin _ = False"

fun is_neg :: "fp \<Rightarrow> bool" where
  "is_neg (Num x) = (x < 0)"
| "is_neg NInf = True"
| "is_neg NZero = True"
| "is_neg _ = False"

fun is_inf :: "fp \<Rightarrow> bool" where
  "is_inf PInf = True"
| "is_inf NInf = True"
| "is_inf _ = False"

definition inf_sign :: "bool \<Rightarrow> fp" where
  "inf_sign s = (if s then NInf else PInf)"

definition zero_sign :: "bool \<Rightarrow> fp" where
  "zero_sign s = (if s then NZero else Num 0)"

definition pack :: "arith \<Rightarrow> bool \<Rightarrow> real \<Rightarrow> fp" where
  "pack F s r = (if overflows F r then inf_sign (r < 0) else if r = 0 then zero_sign s else Num r)"

definition fround :: "arith \<Rightarrow> bool \<Rightarrow> real \<Rightarrow> fp" where
  "fround F s x = pack F s (rnd F x)"

fun fneg :: "fp \<Rightarrow> fp" where
  "fneg NaN = NaN"
| "fneg PInf = NInf"
| "fneg NInf = PInf"
| "fneg NZero = Num 0"
| "fneg (Num x) = (if x = 0 then NZero else Num (- x))"

fun fabs :: "fp \<Rightarrow> fp" where
  "fabs NaN = NaN"
| "fabs PInf = PInf"
| "fabs NInf = PInf"
| "fabs NZero = Num 0"
| "fabs (Num x) = Num \<bar>x\<bar>"

definition fadd :: "arith \<Rightarrow> fp \<Rightarrow> fp \<Rightarrow> fp" where
  "fadd F a b =
     (if a = NaN \<or> b = NaN then NaN
      else if is_inf a then (if is_inf b \<and> a \<noteq> b then NaN else a)
      else if is_inf b then b
      else fround F (a = NZero \<and> b = NZero) (fval a + fval b))"

definition fsub :: "arith \<Rightarrow> fp \<Rightarrow> fp \<Rightarrow> fp" where
  "fsub F a b = fadd F a (fneg b)"

definition fmul :: "arith \<Rightarrow> fp \<Rightarrow> fp \<Rightarrow> fp" where
  "fmul F a b =
     (let s = (is_neg a \<noteq> is_neg b)
      in if a = NaN \<or> b = NaN then NaN
         else if is_inf a then (if is_fin b \<and> fval b = 0 then NaN else inf_sign s)
         else if is_inf b then (if fval a = 0 then NaN else inf_sign s)
         else fround F s (fval a * fval b))"

definition fdiv :: "arith \<Rightarrow> fp \<Rightarrow> fp \<Rightarrow> fp" where
  "fdiv F a b =
     (let s = (is_neg a \<noteq> is_neg b)
      in if a = NaN \<or> b = NaN then NaN
         else if is_inf a then (if is_inf b then NaN else inf_sign s)
         else if is_inf b then zero_sign s
         else if fval b = 0 then (if fval a = 0 then NaN else inf_sign s)
         else fround F s (fval a / fval b))"

definition fle :: "fp \<Rightarrow> fp \<Rightarrow> bool" where
  "fle a b \<longleftrightarrow> a \<noteq> NaN \<and> b \<noteq> NaN \<and>
     (a = NInf \<or> b = PInf \<or> (is_fin a \<and> is_fin b \<and> fval a \<le> fval b))"

definition flt :: "fp \<Rightarrow> fp \<Rightarrow> bool" where
  "flt a b \<longleftrightarrow> a \<noteq> NaN \<and> b \<noteq> NaN \<and> \<not> fle b a"

definition feq :: "fp \<Rightarrow> fp \<Rightarrow> bool" where
  "feq a b \<longleftrightarrow> fle a b \<and> fle b a"

definition fmax :: "fp \<Rightarrow> fp \<Rightarrow> fp" where
  "fmax a b = (if a = NaN then b else if flt a b then b else a)"

definition fclamp :: "fp \<Rightarrow> fp \<Rightarrow> fp \<Rightarrow> fp" where
  "fclamp x lo hi = (if flt x lo then lo else if flt hi x then hi else x)"

definition fsum :: "arith \<Rightarrow> fp list \<Rightarrow> fp" where
  "fsum F xs = foldl (fadd F) (Num 0) xs"

fun fcast :: "arith \<Rightarrow> fp \<Rightarrow> fp" where
  "fcast F (Num x) = fround F (x < 0) x"
| "fcast F a = a"

definition fof_int :: "arith \<Rightarrow> int \<Rightarrow> fp" where
  "fof_int F n = fround F False (of_int n)"

definition flit :: "arith \<Rightarrow> real \<Rightarrow> fp" where
  "flit F x = fround F False x"

definition trunc :: "real \<Rightarrow> int" where
  "trunc x = (if x < 0 then \<lceil>x\<rceil> else \<lfloor>x\<rfloor>)"

fun fto_int :: "int \<Rightarrow> int \<Rightarrow> fp \<Rightarrow> int" where
  "fto_int lo hi NaN = 0"
| "fto_int lo hi PInf = hi"
| "fto_int lo hi NInf = lo"
| "fto_int lo hi NZero = 0"
| "fto_int lo hi (Num x) = max lo (min hi (trunc x))"

fun fceil :: "fp \<Rightarrow> fp" where
  "fceil (Num x) = (if \<lceil>x\<rceil> = 0 \<and> x < 0 then NZero else Num (of_int \<lceil>x\<rceil>))"
| "fceil a = a"

fun fround_away :: "fp \<Rightarrow> fp" where
  "fround_away (Num x) =
     (let n = \<lfloor>\<bar>x\<bar> + 1 / 2\<rfloor>
      in if x < 0 then (if n = 0 then NZero else Num (- of_int n)) else Num (of_int n))"
| "fround_away a = a"

fun isqrt :: "nat \<Rightarrow> nat" where
  "isqrt n =
     (if n = 0 then 0
      else let r = 2 * isqrt (n div 4) in if (r + 1) * (r + 1) \<le> n then r + 1 else r)"

declare isqrt.simps [simp del]

definition rne_sqrt :: "real \<Rightarrow> int" where
  "rne_sqrt y =
     (let f = int (isqrt (nat \<lfloor>y\<rfloor>)); h = (of_int f + 1 / 2)\<^sup>2
      in if y < h then f else if h < y then f + 1 else if even f then f else f + 1)"

fun rnd_sqrt :: "arith \<Rightarrow> real \<Rightarrow> real" where
  "rnd_sqrt Exact x = sqrt x"
| "rnd_sqrt (Binary p emin big) x =
     (if x \<le> 0 then 0
      else let k = max (floor_log2 x div 2 - int p + 1) emin
           in of_int (rne_sqrt (x / 2 powi (2 * k))) * 2 powi k)"

fun fsqrt :: "arith \<Rightarrow> fp \<Rightarrow> fp" where
  "fsqrt F (Num x) = (if x < 0 then NaN else pack F False (rnd_sqrt F x))"
| "fsqrt F NInf = NaN"
| "fsqrt F a = a"

lemma isqrt_bounds: "isqrt n * isqrt n \<le> n \<and> n < Suc (isqrt n) * Suc (isqrt n)"
proof (induction n rule: isqrt.induct)
  case (1 n)
  show ?case
  proof (cases "n = 0")
    case False
    define s where "s = isqrt (n div 4)"
    have s: "s * s \<le> n div 4" "n div 4 < Suc s * Suc s"
      using "1.IH" False by (simp_all add: s_def)
    have "4 * (s * s) \<le> n" "n < 4 * (Suc s * Suc s)" using s by linarith+
    then have "(2 * s) * (2 * s) \<le> n" "n < (2 * s + 2) * (2 * s + 2)"
      by (simp_all add: algebra_simps)
    then show ?thesis using False
      by (auto simp: isqrt.simps [of n] Let_def s_def [symmetric])
  qed (simp add: isqrt.simps)
qed

lemma isqrt_floor: "0 \<le> y \<Longrightarrow> int (isqrt (nat \<lfloor>y\<rfloor>)) = \<lfloor>sqrt y\<rfloor>"
proof -
  assume y: "0 \<le> y"
  let ?n = "nat \<lfloor>y\<rfloor>" let ?s = "isqrt ?n"
  have n: "real ?n \<le> y" "y < real ?n + 1" using y by linarith+
  have "real (?s * ?s) \<le> real ?n" using isqrt_bounds [of ?n] by (simp only: of_nat_le_iff)
  then have "(real ?s)\<^sup>2 \<le> y" using n by (simp add: power2_eq_square)
  then have lo: "real ?s \<le> sqrt y" by (rule real_le_rsqrt)
  have "real (Suc ?n) \<le> real (Suc ?s * Suc ?s)"
    using isqrt_bounds [of ?n] by (metis Suc_leI of_nat_le_iff)
  then have "y < (real ?s + 1)\<^sup>2" using n by (simp add: power2_eq_square algebra_simps)
  then have "sqrt y < real ?s + 1" by (metis real_sqrt_less_iff real_sqrt_unique of_nat_0_le_iff add_nonneg_nonneg zero_le_one)
  with lo show ?thesis by (intro floor_unique [symmetric]) auto
qed

lemma floor_log2_sqrt: "0 < x \<Longrightarrow> floor_log2 (sqrt x) = floor_log2 x div 2"
proof -
  assume x: "0 < x"
  let ?e = "floor_log2 x" let ?h = "?e div 2"
  have h: "2 * ?h \<le> ?e" "?e + 1 \<le> 2 * (?h + 1)" by presburger+
  have sq: "sqrt (2 powi (2 * k)) = 2 powi k" for k :: int
    by (rule real_sqrt_unique) (simp_all add: power_int_power' mult.commute)
  have "2 powi (2 * ?h) \<le> x"
    using floor_log2_bounds(1) [OF x] powi_le_iff [of "2 * ?h" ?e] h by linarith
  moreover have "x < 2 powi (2 * (?h + 1))"
    using floor_log2_bounds(2) [OF x] powi_le_iff [of "?e + 1" "2 * (?h + 1)"] h by linarith
  ultimately show ?thesis
    by (intro floor_log2_eqI) (metis sq real_sqrt_le_iff, metis sq real_sqrt_less_iff)
qed

lemma rne_sqrt_correct: "0 \<le> y \<Longrightarrow> rne_sqrt y = rne (sqrt y)"
proof -
  assume y: "0 \<le> y"
  let ?f = "of_int \<lfloor>sqrt y\<rfloor> :: real"
  have "sqrt ((?f + 1 / 2)\<^sup>2) = ?f + 1 / 2" using y by simp
  then have "y < (?f + 1 / 2)\<^sup>2 \<longleftrightarrow> sqrt y - ?f < 1 / 2"
    "(?f + 1 / 2)\<^sup>2 < y \<longleftrightarrow> 1 / 2 < sqrt y - ?f"
    using real_sqrt_less_iff [of y "(?f + 1 / 2)\<^sup>2"] real_sqrt_less_iff [of "(?f + 1 / 2)\<^sup>2" y] by linarith+
  then show ?thesis
    unfolding rne_sqrt_def rne_def Let_def isqrt_floor [OF y] by presburger
qed

lemma rnd_sqrt_correct: "0 \<le> x \<Longrightarrow> rnd_sqrt F x = rnd F (sqrt x)"
proof (cases F)
  case (Binary p emin big)
  assume "0 \<le> x"
  show ?thesis
  proof (cases "x = 0")
    case False
    with \<open>0 \<le> x\<close> have x: "0 < x" by simp
    let ?k = "max (floor_log2 x div 2 - int p + 1) emin"
    have k: "quantum p emin (sqrt x) = ?k"
      using x by (simp add: quantum_def floor_log2_sqrt)
    have "sqrt (2 powi (2 * ?k)) = 2 powi ?k"
      by (rule real_sqrt_unique) (simp_all add: power_int_power' mult.commute)
    then have s: "sqrt x / 2 powi ?k = sqrt (x / 2 powi (2 * ?k))"
      by (simp add: real_sqrt_divide)
    have "rne_sqrt (x / 2 powi (2 * ?k)) = rne (sqrt x / 2 powi ?k)"
      unfolding s using x by (intro rne_sqrt_correct) (simp add: less_imp_le)
    then show ?thesis
      using x by (simp add: Binary Let_def k)
  qed (simp add: Binary)
qed simp



section \<open>Order\<close>

lemma fle_fin: "is_fin a \<Longrightarrow> is_fin b \<Longrightarrow> fle a b \<longleftrightarrow> fval a \<le> fval b"
  by (cases a; cases b) (auto simp: fle_def)

lemma flt_fin: "is_fin a \<Longrightarrow> is_fin b \<Longrightarrow> flt a b \<longleftrightarrow> fval a < fval b"
  by (cases a; cases b) (auto simp: flt_def fle_def)

lemma is_fin_not_NaN: "is_fin a \<Longrightarrow> a \<noteq> NaN"
  by auto

lemma fle_refl [simp]: "fle a a \<longleftrightarrow> a \<noteq> NaN"
  by (cases a) (auto simp: fle_def)

lemma fle_trans: "fle a b \<Longrightarrow> fle b c \<Longrightarrow> fle a c"
  by (cases a; cases b; cases c) (auto simp: fle_def)

lemma fle_total: "a \<noteq> NaN \<Longrightarrow> b \<noteq> NaN \<Longrightarrow> fle a b \<or> fle b a"
  by (cases a; cases b) (auto simp: fle_def)

lemma fle_NaN [simp]: "\<not> fle NaN b" "\<not> fle a NaN"
  by (simp_all add: fle_def)

lemma flt_NaN [simp]: "\<not> flt NaN b" "\<not> flt a NaN"
  by (simp_all add: flt_def)

lemma flt_irrefl [simp]: "\<not> flt a a"
  by (simp add: flt_def)

lemma flt_imp_fle: "flt a b \<Longrightarrow> fle a b"
  using fle_total by (auto simp: flt_def)

lemma flt_fle_trans: "flt a b \<Longrightarrow> fle b c \<Longrightarrow> flt a c"
  using fle_trans by (fastforce simp: flt_def fle_def)

lemma fle_flt_trans: "fle a b \<Longrightarrow> flt b c \<Longrightarrow> flt a c"
  using fle_trans by (fastforce simp: flt_def fle_def)

lemma not_flt: "a \<noteq> NaN \<Longrightarrow> b \<noteq> NaN \<Longrightarrow> \<not> flt a b \<longleftrightarrow> fle b a"
  by (auto simp: flt_def)

lemma fle_not_NaN: "fle a b \<Longrightarrow> a \<noteq> NaN" "fle a b \<Longrightarrow> b \<noteq> NaN"
  by (auto simp: fle_def)

section \<open>Ranges\<close>

definition frange :: "real \<Rightarrow> real \<Rightarrow> fp \<Rightarrow> bool" where
  "frange l u a \<longleftrightarrow> is_fin a \<and> l \<le> fval a \<and> fval a \<le> u"

lemma frange_Num [simp]: "frange l u (Num x) \<longleftrightarrow> l \<le> x \<and> x \<le> u"
  by (simp add: frange_def)

lemma frange_NZero [simp]: "frange l u NZero \<longleftrightarrow> l \<le> 0 \<and> 0 \<le> u"
  by (simp add: frange_def)

lemma frange_special [simp]: "\<not> frange l u NaN" "\<not> frange l u PInf" "\<not> frange l u NInf"
  by (simp_all add: frange_def)

lemma frange_not_NaN: "frange l u a \<Longrightarrow> a \<noteq> NaN"
  by auto

lemma frange_mono: "frange l u a \<Longrightarrow> l' \<le> l \<Longrightarrow> u \<le> u' \<Longrightarrow> frange l' u' a"
  by (auto simp: frange_def)

lemma frange_fle: "frange l u a \<longleftrightarrow> fle (Num l) a \<and> fle a (Num u)"
  by (cases a) (auto simp: frange_def fle_def)

lemma frange_fneg [range]: "frange l u a \<Longrightarrow> frange (- u) (- l) (fneg a)"
  by (cases a) auto

lemma fval_fneg [simp]: "fval (fneg a) = - fval a"
  by (cases a) auto

lemma is_fin_fneg [simp]: "is_fin (fneg a) \<longleftrightarrow> is_fin a"
  by (cases a) auto

lemma fval_fabs [simp]: "fval (fabs a) = \<bar>fval a\<bar>"
  by (cases a) auto

lemma is_fin_fabs [simp]: "is_fin (fabs a) \<longleftrightarrow> is_fin a"
  by (cases a) auto

lemma fneg_eq_NaN [simp]: "fneg a = NaN \<longleftrightarrow> a = NaN"
  by (cases a) auto

lemma fabs_eq_NaN [simp]: "fabs a = NaN \<longleftrightarrow> a = NaN"
  by (cases a) auto

lemma fle_0_fabs: "a \<noteq> NaN \<Longrightarrow> fle (Num 0) (fabs a)"
  by (cases a) (auto simp: fle_def)

section \<open>Clamping and maximum\<close>

lemma fclamp_NaN [simp]: "fclamp NaN lo hi = NaN"
  by (simp add: fclamp_def)

lemma fclamp_eq_NaN: "lo \<noteq> NaN \<Longrightarrow> hi \<noteq> NaN \<Longrightarrow> fclamp x lo hi = NaN \<longleftrightarrow> x = NaN"
  by (auto simp: fclamp_def)

lemma frange_fclamp [range]:
  "x \<noteq> NaN \<Longrightarrow> l \<le> u \<Longrightarrow> frange l u (fclamp x (Num l) (Num u))"
  by (cases x) (auto simp: fclamp_def flt_def fle_def)

lemma fclamp_id: "frange l u x \<Longrightarrow> fclamp x (Num l) (Num u) = x"
  by (cases x) (auto simp: fclamp_def flt_def fle_def)

lemma fclamp_low: "flt x (Num l) \<Longrightarrow> fclamp x (Num l) (Num u) = Num l"
  by (simp add: fclamp_def)

lemma fclamp_high: "fle (Num u) x \<Longrightarrow> l \<le> u \<Longrightarrow> fval (fclamp x (Num l) (Num u)) = u"
  by (cases x) (auto simp: fclamp_def flt_def fle_def)

lemma fclamp_mono:
  "fle x y \<Longrightarrow> l \<le> u \<Longrightarrow> fle (fclamp x (Num l) (Num u)) (fclamp y (Num l) (Num u))"
  by (cases x; cases y) (auto simp: fclamp_def flt_def fle_def)

lemma fmax_fin: "is_fin a \<Longrightarrow> is_fin b \<Longrightarrow> is_fin (fmax a b) \<and> fval (fmax a b) = max (fval a) (fval b)"
  by (cases a; cases b) (auto simp: fmax_def flt_def fle_def)

lemma fmax_ge: "b \<noteq> NaN \<Longrightarrow> fle b (fmax a b)"
  by (cases a; cases b) (auto simp: fmax_def flt_def fle_def)

lemma fmax_not_NaN: "b \<noteq> NaN \<Longrightarrow> fmax a b \<noteq> NaN"
  by (auto simp: fmax_def)

lemma fmax_NaN [simp]: "fmax NaN b = b"
  by (simp add: fmax_def)

section \<open>Arithmetic\<close>

lemma fadd_comm: "fadd F a b = fadd F b a"
  by (cases a; cases b) (auto simp: fadd_def add.commute)

lemma fmul_comm: "fmul F a b = fmul F b a"
proof -
  have s: "(is_neg a \<noteq> is_neg b) = (is_neg b \<noteq> is_neg a)" by blast
  show ?thesis
    unfolding fmul_def Let_def s mult.commute [of "fval a"] by (cases a; cases b) simp_all
qed

lemma fadd_NaN [simp]: "fadd F NaN b = NaN" "fadd F a NaN = NaN"
  by (simp_all add: fadd_def)

lemma fmul_NaN [simp]: "fmul F NaN b = NaN" "fmul F a NaN = NaN"
  by (simp_all add: fmul_def)

lemma fdiv_NaN [simp]: "fdiv F NaN b = NaN" "fdiv F a NaN = NaN"
  by (simp_all add: fdiv_def)

lemma fsub_NaN [simp]: "fsub F NaN b = NaN" "fsub F a NaN = NaN"
  by (simp_all add: fsub_def)

lemma pack_not_NaN [simp]: "pack F s r \<noteq> NaN"
  by (simp add: pack_def inf_sign_def zero_sign_def)

lemma zero_sign_not_NaN [simp]: "zero_sign s \<noteq> NaN"
  by (simp add: zero_sign_def)

lemma fround_not_NaN [simp]: "fround F s x \<noteq> NaN"
  by (simp add: fround_def)

lemma fadd_fin: "is_fin a \<Longrightarrow> is_fin b \<Longrightarrow> fadd F a b = fround F (a = NZero \<and> b = NZero) (fval a + fval b)"
  by (cases a; cases b) (auto simp: fadd_def)

lemma fmul_fin: "is_fin a \<Longrightarrow> is_fin b \<Longrightarrow> fmul F a b = fround F (is_neg a \<noteq> is_neg b) (fval a * fval b)"
  by (cases a; cases b) (auto simp: fmul_def)

lemma fsub_fin: "is_fin a \<Longrightarrow> is_fin b \<Longrightarrow> fsub F a b = fround F (a = NZero \<and> b = Num 0) (fval a - fval b)"
  by (cases a; cases b) (auto simp: fsub_def fadd_def)

lemma fdiv_fin: "is_fin a \<Longrightarrow> is_fin b \<Longrightarrow> fval b \<noteq> 0 \<Longrightarrow>
  fdiv F a b = fround F (is_neg a \<noteq> is_neg b) (fval a / fval b)"
  by (cases a; cases b) (auto simp: fdiv_def)

context rounding
begin

lemma fround_small:
  assumes "\<bar>x\<bar> \<le> 2 ^ 100"
  shows "is_fin (fround F s x)" and "fval (fround F s x) = rnd F x"
  using no_overflow [OF rnd_bound_pow2 [OF assms]]
  by (simp_all add: fround_def pack_def zero_sign_def)

lemma fround_mono: "x \<le> y \<Longrightarrow> fle (fround F s x) (fround F t y)"
proof -
  assume "x \<le> y"
  then have r: "rnd F x \<le> rnd F y" by (rule rnd_mono)
  show ?thesis
    using r overflow_mono [of "rnd F x" "rnd F y"] overflow_mono [of "rnd F y" "rnd F x"]
    by (auto simp: fround_def pack_def fle_def inf_sign_def zero_sign_def)
qed

lemma frange_fround:
  "l \<le> x \<Longrightarrow> x \<le> u \<Longrightarrow> \<bar>l\<bar> \<le> 2 ^ 100 \<Longrightarrow> \<bar>u\<bar> \<le> 2 ^ 100 \<Longrightarrow> frange (rnd F l) (rnd F u) (fround F s x)"
  using fround_small [of x s] by (auto simp: frange_def intro: rnd_mono)

lemma frange_fadd [range]:
  assumes "frange l u a" "frange l' u' b"
    and "\<bar>l + l'\<bar> \<le> 2 ^ 100" "\<bar>u + u'\<bar> \<le> 2 ^ 100"
  shows "frange (rnd F (l + l')) (rnd F (u + u')) (fadd F a b)"
proof -
  have "is_fin a" "is_fin b" using assms by (auto simp: frange_def)
  moreover have "l + l' \<le> fval a + fval b" "fval a + fval b \<le> u + u'"
    using assms by (auto simp: frange_def intro: add_mono)
  ultimately show ?thesis using assms by (simp add: fadd_fin frange_fround)
qed

lemma frange_fsub [range]:
  assumes "frange l u a" "frange l' u' b"
    and "\<bar>l - u'\<bar> \<le> 2 ^ 100" "\<bar>u - l'\<bar> \<le> 2 ^ 100"
  shows "frange (rnd F (l - u')) (rnd F (u - l')) (fsub F a b)"
  using frange_fadd [of l u a "- u'" "- l'" "fneg b"] frange_fneg [OF assms(2)] assms
  by (simp add: fsub_def)

lemma frange_fmul_nonneg [range]:
  assumes "frange l u a" "frange l' u' b" "0 \<le> l" "0 \<le> l'" "u * u' \<le> 2 ^ 100"
  shows "frange (rnd F (l * l')) (rnd F (u * u')) (fmul F a b)"
proof -
  have fin: "is_fin a" "is_fin b" using assms by (auto simp: frange_def)
  have le: "l * l' \<le> fval a * fval b" "fval a * fval b \<le> u * u'"
    using assms by (auto simp: frange_def intro!: mult_mono)
  moreover have "0 \<le> l * l'" using assms by simp
  ultimately have "\<bar>l * l'\<bar> \<le> 2 ^ 100" "\<bar>u * u'\<bar> \<le> 2 ^ 100" using assms by linarith+
  with le show ?thesis using fin by (simp add: fmul_fin frange_fround)
qed

lemma fadd_mono:
  assumes "fle a b" "fle c d" "fadd F a c \<noteq> NaN" "fadd F b d \<noteq> NaN"
  shows "fle (fadd F a c) (fadd F b d)"
proof (cases "is_fin a \<and> is_fin b \<and> is_fin c \<and> is_fin d")
  case True
  then show ?thesis using assms by (simp add: fadd_fin fle_fin fround_mono)
next
  case False
  then show ?thesis using assms
    by (cases a; cases b; cases c; cases d) (auto simp: fadd_def fle_def)
qed

lemma fmul_mono:
  assumes "frange 0 u w" "is_fin a" "is_fin b" "fle a b"
  shows "fle (fmul F w a) (fmul F w b)"
  using assms by (auto simp: frange_def fmul_fin fle_fin intro!: fround_mono mult_left_mono)

end

section \<open>Values of a format\<close>

text \<open>
  A datum belongs to a format when its real value is one the format represents. Every
  operation returns such data; the hypothesis matters only for values that come from outside.
\<close>

definition fp_valid :: "arith \<Rightarrow> fp \<Rightarrow> bool" where
  "fp_valid F a \<longleftrightarrow> rnd F (fval a) = fval a \<and> \<not> overflows F (fval a)"

lemma fadd_fin_not_NaN: "a \<noteq> NaN \<Longrightarrow> is_fin b \<Longrightarrow> fadd F a b \<noteq> NaN"
  by (cases a; cases b) (auto simp: fadd_def)

context rounding
begin

lemma fp_valid_pack: "rnd F r = r \<Longrightarrow> fp_valid F (pack F s r)"
  using no_overflow [of 0] by (auto simp: fp_valid_def pack_def inf_sign_def zero_sign_def)

lemma fp_valid_fround: "fp_valid F (fround F s x)"
  unfolding fround_def by (rule fp_valid_pack) (rule rnd_idem)

lemma fmul_unit_fin:
  assumes "fp_valid F w" "is_fin w" "is_fin x" "\<bar>fval x\<bar> \<le> 1"
  shows "is_fin (fmul F w x)"
proof -
  have "\<bar>rnd F (fval w * fval x)\<bar> \<le> rnd F \<bar>fval w\<bar>"
    using assms(4) mult_left_le [of "\<bar>fval x\<bar>" "\<bar>fval w\<bar>"]
    unfolding rnd_abs by (intro rnd_mono) (simp add: abs_mult)
  also have "\<dots> = \<bar>fval w\<bar>" using assms(1) rnd_abs by (metis fp_valid_def)
  finally have "\<not> overflows F (rnd F (fval w * fval x))"
    using assms(1) overflow_mono by (auto simp: fp_valid_def)
  then show ?thesis using assms by (simp add: fmul_fin fround_def pack_def zero_sign_def)
qed

end

section \<open>Exact results\<close>

context rounding
begin

lemma fround_0 [simp]: "fround F s 0 = zero_sign s"
  using no_overflow [of 0] by (simp add: fround_def pack_def)

lemma fround_1 [simp]: "fround F s 1 = Num 1"
  using no_overflow [of 1] by (simp add: fround_def pack_def)

lemma fround_Num: "rnd F x = x \<Longrightarrow> x \<noteq> 0 \<Longrightarrow> \<bar>x\<bar> \<le> 2 ^ 100 \<Longrightarrow> fround F s x = Num x"
  using no_overflow [of x] by (simp add: fround_def pack_def)

lemma fround_int: "\<bar>n\<bar> < 2 ^ 24 \<Longrightarrow> fround F False (of_int n) = Num (of_int n)"
proof (cases "n = 0")
  case False
  assume n: "\<bar>n\<bar> < 2 ^ 24"
  have "\<bar>real_of_int n\<bar> = of_int \<bar>n\<bar>" by simp
  also have "\<dots> \<le> of_int (2 ^ 24)" using n by (simp only: of_int_le_iff)
  also have "\<dots> \<le> (2::real) ^ 100" by simp
  finally show ?thesis using n False by (intro fround_Num rnd_int) auto
qed (simp add: zero_sign_def)

lemma fof_int_exact: "\<bar>n\<bar> < 2 ^ 24 \<Longrightarrow> fof_int F n = Num (of_int n)"
  by (simp add: fof_int_def fround_int)

end

section \<open>Sums of non-negative values\<close>

lemma fsum_Nil [simp]: "fsum F [] = Num 0"
  by (simp add: fsum_def)

lemma fsum_snoc [simp]: "fsum F (xs @ [x]) = fadd F (fsum F xs) x"
  by (simp add: fsum_def)

context rounding
begin

lemma fround_nonneg: "0 \<le> x \<Longrightarrow> fle (Num 0) (fround F s x)"
  using fround_mono [of 0 x False s] by (simp add: zero_sign_def)

lemma fadd_nonneg: "fle (Num 0) a \<Longrightarrow> fle (Num 0) b \<Longrightarrow> fle (Num 0) (fadd F a b)"
proof -
  assume ab: "fle (Num 0) a" "fle (Num 0) b"
  show ?thesis
  proof (cases "is_fin a \<and> is_fin b")
    case True
    with ab show ?thesis by (simp add: fadd_fin fle_fin fround_nonneg)
  next
    case False
    with ab show ?thesis by (cases a; cases b) (auto simp: fadd_def fle_def)
  qed
qed

lemma fsum_nonneg: "\<forall>x \<in> set xs. fle (Num 0) x \<Longrightarrow> fle (Num 0) (fsum F xs)"
  by (induction xs rule: rev_induct) (auto simp: fadd_nonneg)

lemma fsum_mono:
  assumes "list_all2 fle xs ys" "\<forall>x \<in> set xs. fle (Num 0) x"
  shows "fle (fsum F xs) (fsum F ys)"
  using assms
proof (induction xs arbitrary: ys rule: rev_induct)
  case (snoc x xs)
  then obtain y zs where ys: "ys = zs @ [y]" "list_all2 fle xs zs" "fle x y"
    by (auto simp: list_all2_append1 list_all2_Cons1)
  have nn: "fle (Num 0) (fsum F xs)" "fle (Num 0) x" using snoc.prems by (auto intro: fsum_nonneg)
  moreover have le: "fle (fsum F xs) (fsum F zs)" using snoc ys by simp
  ultimately have "fle (Num 0) (fsum F zs)" "fle (Num 0) y" using ys fle_trans by blast+
  then have "fadd F (fsum F xs) x \<noteq> NaN" "fadd F (fsum F zs) y \<noteq> NaN"
    using nn fadd_nonneg fle_not_NaN by blast+
  with le ys show ?case by (simp add: fadd_mono)
qed simp

lemma fdiv_nonneg:
  assumes "fle (Num 0) a" "is_fin b" "0 < fval b"
  shows "fle (Num 0) (fdiv F a b)"
proof (cases "is_fin a")
  case True
  with assms show ?thesis by (simp add: fdiv_fin fle_fin fround_nonneg)
next
  case False
  with assms show ?thesis
    by (cases a; cases b) (auto simp: fdiv_def fle_def Let_def inf_sign_def)
qed

lemma fdiv_mono:
  assumes "fle a b" "fle (Num 0) a" "is_fin c" "0 < fval c"
  shows "fle (fdiv F a c) (fdiv F b c)"
proof (cases "is_fin b")
  case True
  then have "is_fin a" using assms by (cases a; cases b) (auto simp: fle_def)
  with True assms show ?thesis
    by (simp add: fdiv_fin fle_fin fround_mono divide_right_mono)
next
  case False
  then have "b = PInf" using assms by (cases a; cases b) (auto simp: fle_def)
  moreover have "fdiv F a c \<noteq> NaN" using fdiv_nonneg [OF assms(2-4)] fle_not_NaN by blast
  ultimately show ?thesis using assms by (cases c) (auto simp: fdiv_def Let_def inf_sign_def fle_def)
qed

end

section \<open>Evaluation\<close>

text \<open>
  Closed terms are evaluated by \<open>simp add: fp_eval\<close>: the formats are unfolded for rounding
  only, and a result far from the overflow threshold is recognised by its size.
\<close>

lemma rnd_F32 [fp_eval]:
  "rnd F32 x = (if x = 0 then 0 else let q = 2 powi quantum 24 (- 149) x in of_int (rne (x / q)) * q)"
  by (simp add: F32_def)

lemma rnd_F64 [fp_eval]:
  "rnd F64 x = (if x = 0 then 0 else let q = 2 powi quantum 53 (- 1074) x in of_int (rne (x / q)) * q)"
  by (simp add: F64_def)

lemma rnd_sqrt_F32 [fp_eval]:
  "rnd_sqrt F32 x =
     (if x \<le> 0 then 0
      else let k = max (floor_log2 x div 2 - int 24 + 1) (- 149)
           in of_int (rne_sqrt (x / 2 powi (2 * k))) * 2 powi k)"
  by (simp only: F32_def rnd_sqrt.simps)

lemma rnd_sqrt_F64 [fp_eval]:
  "rnd_sqrt F64 x =
     (if x \<le> 0 then 0
      else let k = max (floor_log2 x div 2 - int 53 + 1) (- 1074)
           in of_int (rne_sqrt (x / 2 powi (2 * k))) * 2 powi k)"
  by (simp only: F64_def rnd_sqrt.simps)

declare f32.no_overflow [fp_eval] f64.no_overflow [fp_eval]
declare fround_def [fp_eval] pack_def [fp_eval] quantum_def [fp_eval] floor_log2_def [fp_eval]
  rne_def [fp_eval] inf_sign_def [fp_eval] zero_sign_def [fp_eval] flit_def [fp_eval]
  fadd_def [fp_eval] fsub_def [fp_eval] fmul_def [fp_eval] fdiv_def [fp_eval]
  fle_def [fp_eval] flt_def [fp_eval] fmax_def [fp_eval] fclamp_def [fp_eval]
  fof_int_def [fp_eval] trunc_def [fp_eval] rne_sqrt_def [fp_eval] isqrt.simps [fp_eval]

end
