(* ===== verification/Text.thy ===== *)
theory Text
  imports Floats
begin

text \<open>
  Rust strings, and the part of \<open>std::str\<close>, \<open>std::fmt\<close> and \<open>str::parse\<close> the engine uses.
  A Rust \<open>String\<close> is a sequence of UTF-8 bytes, and so is its model (\<open>char\<close> is a byte):
  lengths, slices and positions are byte counts, as in the source. \<open>chars\<close> cuts a string
  into its encoded characters. White space is the fixed Unicode set; the alphabetic,
  upper-case and lower-casing tables, which Rust takes from the Unicode database, are
  the record \<open>unicode\<close>, an argument of every function that reads them, with the facts used
  of them in the locale \<open>unicode_tables\<close>.
\<close>

section \<open>Encoded characters\<close>

definition byte :: "char \<Rightarrow> nat" where
  "byte c = of_char c"

lemma char_of_byte: "char_of (byte c) = c"
  by (simp add: byte_def)

lemma byte_char_of: "n < 256 \<Longrightarrow> byte (char_of n) = n"
  by (simp add: byte_def)

lemma byte_less: "byte c < 256"
  by (simp add: byte_def)

definition char_width :: "char \<Rightarrow> nat" where
  "char_width c = (let n = byte c in if n < 128 then 1 else if n < 224 then 2 else if n < 240 then 3 else 4)"

lemma char_width_pos [simp]: "0 < char_width c"
  by (simp add: char_width_def Let_def)

fun chars :: "string \<Rightarrow> string list" where
  "chars [] = []"
| "chars (c # cs) = (c # take (char_width c - 1) cs) # chars (drop (char_width c - 1) cs)"

definition whole_chars :: "string \<Rightarrow> bool" where
  "whole_chars s \<longleftrightarrow> (\<forall>c \<in> set (chars s). length c = char_width (hd c))"

definition is_char_boundary :: "string \<Rightarrow> nat \<Rightarrow> bool" where
  "is_char_boundary s i \<longleftrightarrow>
     i = 0 \<or> i = length s \<or> (i < length s \<and> \<not> (128 \<le> byte (s ! i) \<and> byte (s ! i) < 192))"

definition slice_to :: "string \<Rightarrow> nat \<Rightarrow> string run" where
  "slice_to s n =
     (if length s < n then Inl SliceOutOfRange
      else if is_char_boundary s n then Inr (take n s) else Inl NotCharBoundary)"

lemma concat_chars [simp]: "concat (chars s) = s"
  by (induction s rule: chars.induct) simp_all

lemma chars_eq_Nil [simp]: "chars s = [] \<longleftrightarrow> s = []"
  by (cases s) simp_all

lemma chars_nonempty: "c \<in> set (chars s) \<Longrightarrow> c \<noteq> []"
  by (induction s rule: chars.induct) auto

lemma whole_chars_Nil [simp]: "whole_chars []"
  by (simp add: whole_chars_def)

lemma whole_chars_Cons:
  "whole_chars (c # cs) \<longleftrightarrow>
     char_width c - 1 \<le> length cs \<and> whole_chars (drop (char_width c - 1) cs)"
proof -
  have "length (c # take (char_width c - 1) cs) = char_width c \<longleftrightarrow> char_width c - 1 \<le> length cs"
    using char_width_pos [of c] unfolding length_Cons length_take by linarith
  then show ?thesis by (simp add: whole_chars_def del: length_take)
qed

lemma chars_append: "whole_chars s \<Longrightarrow> chars (s @ t) = chars s @ chars t"
proof (induction s rule: chars.induct)
  case (2 c cs)
  then have w: "char_width c - 1 \<le> length cs" "whole_chars (drop (char_width c - 1) cs)"
    by (simp_all only: whole_chars_Cons)
  then have "char_width c - Suc (length cs) = 0" by simp
  with w 2 show ?case by simp
qed simp

lemma whole_chars_append: "whole_chars s \<Longrightarrow> whole_chars (s @ t) \<longleftrightarrow> whole_chars t"
  by (auto simp: whole_chars_def chars_append)

lemma whole_char: "whole_chars s \<Longrightarrow> c \<in> set (chars s) \<Longrightarrow> chars c = [c]"
proof -
  assume a: "whole_chars s" "c \<in> set (chars s)"
  then have l: "length c = char_width (hd c)" "c \<noteq> []"
    by (auto simp: whole_chars_def dest: chars_nonempty)
  then show ?thesis by (cases c) auto
qed

lemma chars_concat:
  "(\<And>c. c \<in> set cs \<Longrightarrow> chars c = [c] \<and> whole_chars c) \<Longrightarrow> chars (concat cs) = cs \<and> whole_chars (concat cs)"
  by (induction cs) (simp_all add: chars_append whole_chars_append)

definition ascii :: "string \<Rightarrow> bool" where
  "ascii s \<longleftrightarrow> (\<forall>c \<in> set s. byte c < 128)"

lemma ascii_simps [simp]:
  "ascii []" "ascii (c # s) \<longleftrightarrow> byte c < 128 \<and> ascii s" "ascii (s @ t) \<longleftrightarrow> ascii s \<and> ascii t"
  by (auto simp: ascii_def)

lemma chars_ascii: "ascii s \<Longrightarrow> chars s = map (\<lambda>c. [c]) s"
  by (induction s) (simp_all add: char_width_def Let_def)

lemma whole_chars_ascii: "ascii s \<Longrightarrow> whole_chars s"
  by (auto simp: whole_chars_def chars_ascii ascii_def char_width_def Let_def)

lemma is_char_boundary_ascii: "ascii s \<Longrightarrow> i \<le> length s \<Longrightarrow> is_char_boundary s i"
  by (auto simp: is_char_boundary_def ascii_def not_le dest: nth_mem)

section \<open>Character classes\<close>

definition white_encodings :: "nat list list" where
  "white_encodings =
     [[9], [10], [11], [12], [13], [32], [194, 133], [194, 160], [225, 154, 128],
      [226, 128, 128], [226, 128, 129], [226, 128, 130], [226, 128, 131], [226, 128, 132],
      [226, 128, 133], [226, 128, 134], [226, 128, 135], [226, 128, 136], [226, 128, 137],
      [226, 128, 138], [226, 128, 168], [226, 128, 169], [226, 128, 175], [226, 129, 159],
      [227, 128, 128]]"

definition is_white :: "string \<Rightarrow> bool" where
  "is_white c = List.member white_encodings (map byte c)"

record unicode =
  is_alphabetic :: "string \<Rightarrow> bool"
  is_uppercase :: "string \<Rightarrow> bool"
  to_lowercase :: "string \<Rightarrow> string"

definition ascii_alpha :: "char \<Rightarrow> bool" where
  "ascii_alpha c = (let n = byte c in (65 \<le> n \<and> n \<le> 90) \<or> (97 \<le> n \<and> n \<le> 122))"

definition ascii_upper :: "char \<Rightarrow> bool" where
  "ascii_upper c = (let n = byte c in 65 \<le> n \<and> n \<le> 90)"

definition to_ascii_lower :: "char \<Rightarrow> char" where
  "to_ascii_lower c = (if ascii_upper c then char_of (byte c + 32) else c)"

definition to_ascii_upper :: "char \<Rightarrow> char" where
  "to_ascii_upper c = (let n = byte c in if 97 \<le> n \<and> n \<le> 122 then char_of (n - 32) else c)"

text \<open>What the engine relies on of the Unicode tables.\<close>

locale unicode_tables =
  fixes U :: unicode
  assumes alphabetic_ascii: "byte c < 128 \<Longrightarrow> is_alphabetic U [c] = ascii_alpha c"
    and uppercase_ascii: "byte c < 128 \<Longrightarrow> is_uppercase U [c] = ascii_upper c"
    and alphabetic_not_white: "is_alphabetic U w \<Longrightarrow> \<not> is_white w"
    and lowercase_ascii: "ascii s \<Longrightarrow> to_lowercase U s = map to_ascii_lower s"
    and lowercase_nonempty: "to_lowercase U s = [] \<longleftrightarrow> s = []"

text \<open>The tables restricted to ASCII, where they are written out.\<close>

definition ascii_tables :: unicode where
  "ascii_tables =
     \<lparr>is_alphabetic = (\<lambda>c. case c of [b] \<Rightarrow> ascii_alpha b | _ \<Rightarrow> False),
      is_uppercase = (\<lambda>c. case c of [b] \<Rightarrow> ascii_upper b | _ \<Rightarrow> False),
      to_lowercase = map to_ascii_lower\<rparr>"

interpretation ascii_u: unicode_tables ascii_tables
proof
  show "is_alphabetic ascii_tables w \<Longrightarrow> \<not> is_white w" for w
    by (auto simp: ascii_tables_def ascii_alpha_def Let_def is_white_def white_encodings_def
        split: list.splits)
qed (auto simp: ascii_tables_def)

section \<open>Splitting, trimming and joining\<close>

fun split_ws_aux :: "string list \<Rightarrow> string \<Rightarrow> string list" where
  "split_ws_aux [] cur = (if cur = [] then [] else [cur])"
| "split_ws_aux (c # cs) cur =
     (if is_white c then (if cur = [] then split_ws_aux cs [] else cur # split_ws_aux cs [])
      else split_ws_aux cs (cur @ c))"

definition split_whitespace :: "string \<Rightarrow> string list" where
  "split_whitespace s = split_ws_aux (chars s) []"

definition trim_is_empty :: "string \<Rightarrow> bool" where
  "trim_is_empty s = list_all is_white (chars s)"

definition trim_matches :: "(string \<Rightarrow> bool) \<Rightarrow> string \<Rightarrow> string" where
  "trim_matches P s = concat (rev (dropWhile P (rev (dropWhile P (chars s)))))"

fun join :: "string \<Rightarrow> string list \<Rightarrow> string" where
  "join sep [] = []"
| "join sep [x] = x"
| "join sep (x # y # zs) = x @ sep @ join sep (y # zs)"

definition starts_with :: "string \<Rightarrow> string \<Rightarrow> bool" where
  "starts_with s pat \<longleftrightarrow> take (length pat) s = pat"

fun split_str_aux :: "string \<Rightarrow> string \<Rightarrow> string \<Rightarrow> string list" where
  "split_str_aux pat [] cur = [cur]"
| "split_str_aux pat (c # cs) cur =
     (if starts_with (c # cs) pat then cur # split_str_aux pat (drop (length pat - 1) cs) []
      else split_str_aux pat cs (cur @ [c]))"

definition split_str :: "string \<Rightarrow> string \<Rightarrow> string list" where
  "split_str pat s = split_str_aux pat s []"

definition strip_prefix :: "string \<Rightarrow> string \<Rightarrow> string option" where
  "strip_prefix s pat = (if starts_with s pat then Some (drop (length pat) s) else None)"

lemma starts_with_append [simp]: "starts_with (p @ s) p"
  by (simp add: starts_with_def)

lemma strip_prefix_append [simp]: "strip_prefix (p @ s) p = Some s"
  by (simp add: strip_prefix_def)

lemma join_Cons: "ys \<noteq> [] \<Longrightarrow> join sep (x # ys) = x @ sep @ join sep ys"
  by (cases ys) simp_all

lemma split_str_aux_nonempty: "split_str_aux pat s cur \<noteq> []"
  by (induction pat s cur rule: split_str_aux.induct) auto

lemma join_split_str_aux: "pat \<noteq> [] \<Longrightarrow> join pat (split_str_aux pat s cur) = cur @ s"
proof (induction pat s cur rule: split_str_aux.induct)
  case (2 pat c cs cur)
  show ?case
  proof (cases "starts_with (c # cs) pat")
    case True
    then have "c # cs = pat @ drop (length pat - 1) cs"
      using "2.prems" by (cases pat) (auto simp: starts_with_def, metis append_take_drop_id)
    have "join pat (split_str_aux pat (c # cs) cur) =
        join pat (cur # split_str_aux pat (drop (length pat - 1) cs) [])"
      using True by simp
    also have "\<dots> = cur @ pat @ drop (length pat - 1) cs"
      using "2.IH"(1) [OF True "2.prems"] by (simp add: join_Cons split_str_aux_nonempty)
    finally have "join pat (split_str_aux pat (c # cs) cur) = cur @ pat @ drop (length pat - 1) cs" .
    then show ?thesis by (metis \<open>c # cs = pat @ drop (length pat - 1) cs\<close>)
  qed (use "2" in simp)
qed simp

lemma join_split_str: "pat \<noteq> [] \<Longrightarrow> join pat (split_str pat s) = s"
  by (simp add: split_str_def join_split_str_aux)

lemma split_ws_aux_no_white:
  "\<forall>c \<in> set cs. \<not> is_white c \<Longrightarrow> split_ws_aux (cs @ ds) cur = split_ws_aux ds (cur @ concat cs)"
  by (induction cs arbitrary: cur) auto

definition is_word :: "string \<Rightarrow> bool" where
  "is_word w \<longleftrightarrow> w \<noteq> [] \<and> whole_chars w \<and> (\<forall>c \<in> set (chars w). \<not> is_white c)"

lemma is_white_space [simp]: "is_white '' ''"
  by (simp add: is_white_def white_encodings_def byte_def)

lemma split_join_words:
  "\<forall>w \<in> set ws. is_word w \<Longrightarrow> split_whitespace (join '' '' ws) = ws"
proof (induction "'' ''" ws rule: join.induct)
  case (2 x)
  then show ?case
    using split_ws_aux_no_white [of "chars x" "[]" "[]"] by (simp add: split_whitespace_def is_word_def)
next
  case (3 x y zs)
  have sp: "whole_chars '' ''" "chars '' '' = ['' '']" by (simp_all add: whole_chars_ascii chars_ascii byte_def)
  have "chars ('' '' @ join '' '' (y # zs)) = '' '' # chars (join '' '' (y # zs))"
    using chars_append [OF sp(1)] sp(2) by simp
  then have "chars (join '' '' (x # y # zs)) = chars x @ '' '' # chars (join '' '' (y # zs))"
    using "3.prems" by (simp add: is_word_def chars_append del: chars.simps)
  then have "split_whitespace (join '' '' (x # y # zs)) = x # split_whitespace (join '' '' (y # zs))"
    using 3 by (simp add: split_whitespace_def split_ws_aux_no_white is_word_def)
  with 3 show ?case by simp
qed (simp add: split_whitespace_def)

lemma split_ws_aux_words:
  assumes "\<forall>c \<in> set cs. chars c = [c] \<and> whole_chars c"
    and "cur = [] \<or> is_word cur" and "w \<in> set (split_ws_aux cs cur)"
  shows "is_word w"
  using assms
proof (induction cs cur rule: split_ws_aux.induct)
  case (1 cur)
  then show ?case by (auto split: if_splits)
next
  case (2 c cs cur)
  show ?case
  proof (cases "is_white c")
    case False
    then have "is_word (cur @ c)"
      using "2.prems" by (fastforce simp: is_word_def chars_append whole_chars_append)
    with False "2.IH"(3) "2.prems" show ?thesis by simp
  next
    case True
    with 2 show ?thesis by (auto split: if_splits)
  qed
qed

lemma split_whitespace_words:
  assumes "whole_chars s" "w \<in> set (split_whitespace s)" shows "is_word w"
proof (rule split_ws_aux_words)
  show "\<forall>c \<in> set (chars s). chars c = [c] \<and> whole_chars c"
  proof
    fix c assume c: "c \<in> set (chars s)"
    then have "chars c = [c]" using assms(1) by (intro whole_char)
    moreover have "length c = char_width (hd c)" using assms(1) c by (simp add: whole_chars_def)
    ultimately show "chars c = [c] \<and> whole_chars c" by (simp add: whole_chars_def)
  qed
qed (use assms in \<open>simp_all add: split_whitespace_def\<close>)

section \<open>Decimal numbers\<close>

definition digit_char :: "nat \<Rightarrow> char" where
  "digit_char d = char_of (48 + d)"

definition is_digit :: "char \<Rightarrow> bool" where
  "is_digit c \<longleftrightarrow> 48 \<le> byte c \<and> byte c \<le> 57"

definition digit_val :: "char \<Rightarrow> nat" where
  "digit_val c = byte c - 48"

fun show_nat :: "nat \<Rightarrow> string" where
  "show_nat n = (if n < 10 then [digit_char n] else show_nat (n div 10) @ [digit_char (n mod 10)])"

declare show_nat.simps [simp del]

definition show_int :: "int \<Rightarrow> string" where
  "show_int i = (if i < 0 then ''-'' @ show_nat (nat (- i)) else show_nat (nat i))"

definition read_digits :: "string \<Rightarrow> nat" where
  "read_digits s = foldl (\<lambda>n c. 10 * n + digit_val c) 0 s"

definition is_number :: "string \<Rightarrow> bool" where
  "is_number s \<longleftrightarrow> s \<noteq> [] \<and> list_all is_digit s"

definition split_sign :: "string \<Rightarrow> bool \<times> string" where
  "split_sign s =
     (case s of [] \<Rightarrow> (False, [])
      | c # cs \<Rightarrow> if c = CHR ''-'' then (True, cs) else if c = CHR ''+'' then (False, cs) else (False, s))"

definition parse_i64 :: "string \<Rightarrow> int option" where
  "parse_i64 s =
     (let (neg, ds) = split_sign s; n = int (read_digits ds); v = (if neg then - n else n)
      in if is_number ds \<and> - (2 ^ 63) \<le> v \<and> v < 2 ^ 63 then Some v else None)"

text \<open>
  \<open>str::parse::<f64>\<close> on plain decimals, correctly rounded: a sign, digits, and digits after
  a point. (Exponents, \<open>inf\<close> and \<open>nan\<close> never reach it here: the pattern of
  \<open>defence/numeric.rs\<close> has digits, a point and a minus sign only.)
\<close>

definition parse_f64 :: "string \<Rightarrow> fp option" where
  "parse_f64 s =
     (let (neg, ds) = split_sign s;
          ip = takeWhile (\<lambda>c. c \<noteq> CHR ''.'') ds;
          fp = drop (length ip + 1) ds;
          v = real (read_digits (ip @ fp)) / 10 ^ length fp
      in if is_number (ip @ fp) then Some (fround F64 neg (if neg then - v else v)) else None)"

fun pad_left :: "nat \<Rightarrow> string \<Rightarrow> string" where
  "pad_left n s = replicate (n - length s) CHR ''0'' @ s"

text \<open>\<open>format!("{:.prec$}", x)\<close>: the exact value rounded half to even in decimal.\<close>

definition show_fixed_real :: "nat \<Rightarrow> real \<Rightarrow> string" where
  "show_fixed_real prec x =
     (let m = nat (rne (x * 10 ^ prec)); ip = show_nat (m div 10 ^ prec)
      in if prec = 0 then ip else ip @ ''.'' @ pad_left prec (show_nat (m mod 10 ^ prec)))"

fun show_fixed :: "nat \<Rightarrow> fp \<Rightarrow> string" where
  "show_fixed prec NaN = ''NaN''"
| "show_fixed prec PInf = ''inf''"
| "show_fixed prec NInf = ''-inf''"
| "show_fixed prec NZero = ''-'' @ show_fixed_real prec 0"
| "show_fixed prec (Num x) = (if x < 0 then ''-'' else []) @ show_fixed_real prec \<bar>x\<bar>"

section \<open>Printing and reading integers\<close>

lemma is_digit_char: "d < 10 \<Longrightarrow> is_digit (digit_char d) \<and> digit_val (digit_char d) = d"
  by (simp add: digit_char_def is_digit_def digit_val_def byte_def)

lemma show_nat_digits: "list_all is_digit (show_nat n) \<and> show_nat n \<noteq> []"
  by (induction n rule: show_nat.induct) (subst show_nat.simps; simp add: is_digit_char)+

lemma show_nat_length: "n < 10 ^ p \<Longrightarrow> 0 < p \<Longrightarrow> length (show_nat n) \<le> p"
proof (induction n arbitrary: p rule: show_nat.induct)
  case (1 n)
  show ?case
  proof (cases "n < 10")
    case False
    then have "1 < p" using "1.prems" by (cases "p = 1") auto
    then obtain q where q: "p = Suc q" "0 < q" by (cases p) auto
    then have "n div 10 < 10 ^ q" using "1.prems" by (simp add: less_mult_imp_div_less mult.commute)
    then show ?thesis using "1.IH" [OF False, of q] q False by (subst show_nat.simps) simp
  qed (use "1.prems" in \<open>subst show_nat.simps, simp\<close>)
qed

lemma read_digits_snoc: "read_digits (s @ [c]) = 10 * read_digits s + digit_val c"
  by (simp add: read_digits_def)

lemma read_show_nat: "read_digits (show_nat n) = n"
proof (induction n rule: show_nat.induct)
  case (1 n)
  show ?case
  proof (cases "n < 10")
    case True
    then show ?thesis using is_digit_char [of n] by (subst show_nat.simps) (simp add: read_digits_def)
  next
    case False
    then show ?thesis using "1.IH" is_digit_char [of "n mod 10"]
      by (subst show_nat.simps) (simp add: read_digits_snoc)
  qed
qed

lemma read_digits_bound: "list_all is_digit s \<Longrightarrow> read_digits s < 10 ^ length s"
proof (induction s rule: rev_induct)
  case (snoc c s)
  then have "digit_val c \<le> 9" by (auto simp: is_digit_def digit_val_def)
  moreover have "read_digits s + 1 \<le> 10 ^ length s" using snoc by simp
  ultimately show ?case by (simp add: read_digits_snoc)
qed (simp add: read_digits_def)

lemma digit_not_sign: "is_digit c \<Longrightarrow> c \<noteq> CHR ''-'' \<and> c \<noteq> CHR ''+'' \<and> c \<noteq> CHR ''.''"
  by (auto simp: is_digit_def byte_def)

lemma split_sign_digits: "list_all is_digit s \<Longrightarrow> split_sign s = (False, s)"
  by (cases s) (auto simp: split_sign_def digit_not_sign)

lemma parse_show_int: "- (2 ^ 63) \<le> i \<Longrightarrow> i < 2 ^ 63 \<Longrightarrow> parse_i64 (show_int i) = Some i"
proof -
  assume i: "- (2 ^ 63) \<le> i" "i < 2 ^ 63"
  have "split_sign (''-'' @ show_nat n) = (True, show_nat n)" for n
    by (simp add: split_sign_def)
  then show ?thesis
    using i show_nat_digits read_show_nat
    by (cases "i < 0") (simp_all add: parse_i64_def show_int_def split_sign_digits is_number_def)
qed

lemma show_int_no_point: "CHR ''.'' \<notin> set (show_int i)"
proof -
  have "CHR ''.'' \<notin> set (show_nat n)" for n
    using show_nat_digits [of n] digit_not_sign by (auto simp: list_all_iff)
  then show ?thesis by (simp add: show_int_def)
qed

text \<open>The integer a text of digits with an optional sign stands for, of any size.\<close>

definition read_int :: "string \<Rightarrow> int" where
  "read_int s = (let (neg, ds) = split_sign s in if neg then - int (read_digits ds) else int (read_digits ds))"

lemma read_show_int: "read_int (show_int i) = i"
proof -
  have "split_sign (''-'' @ show_nat n) = (True, show_nat n)" for n
    by (simp add: split_sign_def)
  then show ?thesis
    using show_nat_digits by (simp add: read_int_def show_int_def split_sign_digits read_show_nat)
qed

end
