(* ===== verification/Config.thy ===== *)
theory Config
  imports Text
begin

text \<open>
  \<open>engine/src/config.rs\<close>: the configuration structs, the defaults \<open>Config::load\<close> sets, and
  \<open>Config::validate\<close>. \<open>Loader\<close> has \<open>Config::load\<close>, which merges the layers and hands the result
  to \<open>validate\<close>.
\<close>

section \<open>The configuration\<close>

record server_config =
  grpc_addr :: string
  max_message_size_bytes :: nat
  keepalive_secs :: nat

record scoring_config =
  weight_velocity :: fp
  weight_divergence :: fp
  weight_entropy :: fp
  weight_anomaly :: fp
  tier2_score_threshold :: fp
  tier3_score_threshold :: fp
  tier2_min_duration_mins :: fp
  tier3_min_duration_mins :: fp
  max_rpm :: fp
  rpm_window_mins :: fp
  entropy_window_size :: nat
  isolation_forest_n_trees :: nat
  isolation_forest_sample_size :: nat
  max_timestamps_per_session :: nat

record defence_config =
  tier2_synonym_ratio :: fp
  tier3_synonym_ratio :: fp
  numeric_perturb_pct :: fp
  reorder_sentences_on :: bool

record store_config =
  redis_url :: string
  session_ttl_secs :: nat
  database_url :: string
  pg_pool_max :: nat

record llm_config =
  provider :: string
  llm_model :: string
  max_tokens :: nat
  temperature :: fp
  api_key :: string
  ollama_base_url :: string

record rekor_config =
  server_url :: string
  rekor_enabled :: bool
  timeout_secs :: nat
  signing_key_path :: string

record models_config =
  model_dir :: string
  embedding_model :: string
  intent_model :: string
  ort_inter_op_threads :: nat
  ort_intra_op_threads :: nat

record logging_config =
  log_level :: string
  log_format :: string

record config =
  server :: server_config
  scoring :: scoring_config
  defence :: defence_config
  store :: store_config
  llm :: llm_config
  rekor :: rekor_config
  models :: models_config
  logging :: logging_config

datatype config_error = Load string | Validation string

section \<open>Defaults\<close>

text \<open>
  The defaults are \<open>f64\<close> values of the configuration source, narrowed to the \<open>f32\<close> of the
  struct when it is deserialised.
\<close>

definition default_f32 :: "real \<Rightarrow> fp" where
  "default_f32 x = fcast F32 (flit F64 x)"

definition default_scoring :: scoring_config where
  "default_scoring =
     \<lparr>weight_velocity = default_f32 0.25, weight_divergence = default_f32 0.35,
      weight_entropy = default_f32 0.15, weight_anomaly = default_f32 0.25,
      tier2_score_threshold = default_f32 0.55, tier3_score_threshold = default_f32 0.90,
      tier2_min_duration_mins = default_f32 2, tier3_min_duration_mins = default_f32 10,
      max_rpm = default_f32 30, rpm_window_mins = default_f32 5,
      entropy_window_size = 20, isolation_forest_n_trees = 100,
      isolation_forest_sample_size = 256, max_timestamps_per_session = 50\<rparr>"

definition default_defence :: defence_config where
  "default_defence =
     \<lparr>tier2_synonym_ratio = default_f32 0.45, tier3_synonym_ratio = default_f32 0.70,
      numeric_perturb_pct = default_f32 0.05, reorder_sentences_on = True\<rparr>"

text \<open>
  The whole default configuration. \<open>store.redis_url\<close>, \<open>store.database_url\<close> and
  \<open>llm.api_key\<close> have no default: they are the arguments.
\<close>

definition default_config :: "string \<Rightarrow> string \<Rightarrow> string \<Rightarrow> config" where
  "default_config redis database key =
     \<lparr>server = \<lparr>grpc_addr = ''[::]:50051'', max_message_size_bytes = 4 * 1024 * 1024,
                keepalive_secs = 30\<rparr>,
      scoring = default_scoring,
      defence = default_defence,
      store = \<lparr>redis_url = redis, session_ttl_secs = 86400, database_url = database,
               pg_pool_max = 10\<rparr>,
      llm = \<lparr>provider = ''groq'', llm_model = ''llama-3.1-8b-instant'', max_tokens = 512,
             temperature = default_f32 0.7, api_key = key,
             ollama_base_url = ''http://localhost:11434''\<rparr>,
      rekor = \<lparr>server_url = ''https://rekor.sigstore.dev'', rekor_enabled = True,
               timeout_secs = 10, signing_key_path = []\<rparr>,
      models = \<lparr>model_dir = ''./models'', embedding_model = ''all-MiniLM-L6-v2.onnx'',
                intent_model = ''nli-MiniLM2-L6-H768.onnx'', ort_inter_op_threads = 2,
                ort_intra_op_threads = 2\<rparr>,
      logging = \<lparr>log_level = ''info'', log_format = ''json''\<rparr>\<rparr>"

section \<open>Validation\<close>

definition weight_sum :: "scoring_config \<Rightarrow> fp" where
  "weight_sum c =
     fadd F32 (fadd F32 (fadd F32 (weight_velocity c) (weight_divergence c)) (weight_entropy c))
       (weight_anomaly c)"

definition bad_weights :: "config \<Rightarrow> bool" where
  "bad_weights c = flt (flit F32 0.01) (fabs (fsub F32 (weight_sum (scoring c)) (Num 1)))"

definition bad_ratio :: "fp \<Rightarrow> bool" where
  "bad_ratio r \<longleftrightarrow> fle r (Num 0) \<or> flt (Num 1) r"

definition validate_errors :: "config \<Rightarrow> string list" where
  "validate_errors c =
     (if bad_weights c
      then [''scoring weights must sum to 1.0, got '' @ show_fixed 4 (weight_sum (scoring c))]
      else []) @
     (if redis_url (store c) = []
      then [''store.redis_url must be set via VYSE_ENGINE_STORE_REDIS_URL''] else []) @
     (if database_url (store c) = []
      then [''store.database_url must be set via VYSE_ENGINE_STORE_DATABASE_URL''] else []) @
     (if api_key (llm c) = [] \<and> provider (llm c) \<noteq> ''ollama''
      then [''llm.api_key must be set via VYSE_ENGINE_LLM_API_KEY (not required for ollama)'']
      else []) @
     (if bad_ratio (tier2_synonym_ratio (defence c))
      then [''defence.tier2_synonym_ratio must be in (0.0, 1.0]''] else []) @
     (if bad_ratio (tier3_synonym_ratio (defence c))
      then [''defence.tier3_synonym_ratio must be in (0.0, 1.0]''] else [])"

definition validate :: "config \<Rightarrow> config_error + unit" where
  "validate c =
     (let errors = validate_errors c
      in if errors = [] then Inr ()
         else Inl (Validation (join (CHR 0x0A # ''  - '') errors)))"

lemma validate_Inr:
  "validate c = Inr () \<longleftrightarrow>
     \<not> bad_weights c \<and> redis_url (store c) \<noteq> [] \<and> database_url (store c) \<noteq> [] \<and>
     (api_key (llm c) = [] \<longrightarrow> provider (llm c) = ''ollama'') \<and>
     \<not> bad_ratio (tier2_synonym_ratio (defence c)) \<and>
     \<not> bad_ratio (tier3_synonym_ratio (defence c))"
  by (auto simp: validate_def validate_errors_def)

section \<open>What an accepted configuration guarantees\<close>

lemma bad_ratio_fin: "r \<noteq> NaN \<Longrightarrow> \<not> bad_ratio r \<longleftrightarrow> is_fin r \<and> 0 < fval r \<and> fval r \<le> 1"
  by (cases r) (auto simp: bad_ratio_def fle_def flt_def)

lemma default_scoring_values [simp]:
  "weight_velocity default_scoring = Num (1 / 4)"
  "weight_divergence default_scoring = Num (11744051 / 33554432)"
  "weight_entropy default_scoring = Num (5033165 / 33554432)"
  "weight_anomaly default_scoring = Num (1 / 4)"
  "tier2_score_threshold default_scoring = Num (9227469 / 16777216)"
  "tier3_score_threshold default_scoring = Num (15099494 / 16777216)"
  "tier2_min_duration_mins default_scoring = Num 2"
  "tier3_min_duration_mins default_scoring = Num 10"
  "max_rpm default_scoring = Num 30"
  "rpm_window_mins default_scoring = Num 5"
  by (simp_all add: default_scoring_def default_f32_def fp_eval)

lemma default_defence_values [simp]:
  "tier2_synonym_ratio default_defence = Num (15099494 / 33554432)"
  "tier3_synonym_ratio default_defence = Num (11744051 / 16777216)"
  "numeric_perturb_pct default_defence = Num (13421773 / 268435456)"
  by (simp_all add: default_defence_def default_f32_def fp_eval)

lemma weight_sum_default: "weight_sum default_scoring = Num 1"
  by (simp add: weight_sum_def fp_eval)

lemma weight_tolerance: "flit F32 0.01 = Num (5368709 / 536870912)"
  by (simp add: fp_eval)


section \<open>Properties\<close>

lemma F32_error: "\<bar>x\<bar> < 16 \<Longrightarrow> \<bar>rnd F32 x - x\<bar> \<le> 1 / 2 ^ 21"
proof (cases "x = 0")
  case False
  assume x: "\<bar>x\<bar> < 16"
  have "2 powi floor_log2 \<bar>x\<bar> < (2::real) powi 4"
    using floor_log2_bounds(1) [of "\<bar>x\<bar>"] False x by (simp add: power_int_numeral)
  then have "floor_log2 \<bar>x\<bar> < 4" by (simp only: powi_less_iff)
  then have "quantum 24 (- 149) x \<le> - 20" by (simp add: quantum_def)
  then have "(2::real) powi quantum 24 (- 149) x \<le> 2 powi - 20" by (simp only: powi_le_iff)
  also have "(2::real) powi - 20 = 1 / 2 ^ 20" by (simp add: power_int_minus)
  finally have "2 powi quantum 24 (- 149) x / 2 \<le> (1::real) / 2 ^ 21" by simp
  then show ?thesis
    using rnd_error [of 24 "- 149" "2 ^ 128 - 2 ^ 103" x] unfolding F32_def rnd.simps by linarith
qed simp

lemma fadd_error:
  assumes "frange 0 l a" "frange 0 u b" "l + u < 16"
  shows "is_fin (fadd F32 a b)" and "\<bar>fval (fadd F32 a b) - (fval a + fval b)\<bar> \<le> 1 / 2 ^ 21"
    and "0 \<le> fval (fadd F32 a b)"
proof -
  have s: "0 \<le> fval a + fval b" "fval a + fval b < 16" using assms by (auto simp: frange_def)
  have "is_fin a" "is_fin b" using assms by (auto simp: frange_def)
  then show "is_fin (fadd F32 a b)" "\<bar>fval (fadd F32 a b) - (fval a + fval b)\<bar> \<le> 1 / 2 ^ 21"
    "0 \<le> fval (fadd F32 a b)"
    using s F32_error [of "fval a + fval b"] by (simp_all add: fadd_fin f32.fround_small)
qed

text \<open>
  The configuration built from the defaults is accepted exactly when the three settings
  without a default (Redis URL, database URL, API key) are given: in particular the default
  weights, rounded to \<open>f32\<close>, pass the test of their sum.
\<close>

theorem default_config_accepted:
  "validate (default_config redis database key) = Inr () \<longleftrightarrow> redis \<noteq> [] \<and> database \<noteq> [] \<and> key \<noteq> []"
  by (auto simp: validate_Inr default_config_def bad_weights_def weight_sum_default bad_ratio_def fp_eval)

lemma sum_error:
  assumes "frange 0 2 a" "frange 0 2 b" "frange 0 2 c" "frange 0 2 d"
  defines "s \<equiv> fadd F32 (fadd F32 (fadd F32 a b) c) d"
  shows "frange 0 11 s" and "\<bar>fval s - (fval a + fval b + fval c + fval d)\<bar> \<le> 3 / 2 ^ 21"
proof -
  have step: "frange 0 (l + 3) (fadd F32 x y) \<and> \<bar>fval (fadd F32 x y) - (fval x + fval y)\<bar> \<le> 1 / 2 ^ 21"
    if "frange 0 l x" "frange 0 2 y" "l < 14" for l x y
  proof -
    from that(3) have "l + 2 < 16" by simp
    note e = fadd_error [OF that(1,2) this]
    have "fval (fadd F32 x y) - (fval x + fval y) \<le> 1" using e(2) unfolding abs_le_iff by simp
    then show ?thesis using e that by (auto simp: frange_def)
  qed
  from step [OF assms(1,2)]
  have ab: "frange 0 5 (fadd F32 a b)" "\<bar>fval (fadd F32 a b) - (fval a + fval b)\<bar> \<le> 1 / 2 ^ 21" by simp_all
  from step [OF ab(1) assms(3)]
  have abc: "frange 0 8 (fadd F32 (fadd F32 a b) c)"
    "\<bar>fval (fadd F32 (fadd F32 a b) c) - (fval (fadd F32 a b) + fval c)\<bar> \<le> 1 / 2 ^ 21" by simp_all
  from step [OF abc(1) assms(4)]
  have "frange 0 11 s" "\<bar>fval s - (fval (fadd F32 (fadd F32 a b) c) + fval d)\<bar> \<le> 1 / 2 ^ 21"
    by (simp_all add: s_def)
  then show "frange 0 11 s" "\<bar>fval s - (fval a + fval b + fval c + fval d)\<bar> \<le> 3 / 2 ^ 21"
    using ab(2) abc(2) by (simp, linarith)
qed

definition weights_proper :: "scoring_config \<Rightarrow> bool" where
  "weights_proper cfg \<longleftrightarrow>
     frange 0 2 (weight_velocity cfg) \<and> frange 0 2 (weight_divergence cfg) \<and>
     frange 0 2 (weight_entropy cfg) \<and> frange 0 2 (weight_anomaly cfg)"

text \<open>
  The rounding of the \<open>f32\<close> sum cannot hide a bad set of weights: when weights of
  \<open>[0, 2]\<close> pass the validation, their exact real sum is within \<open>0.010005\<close> of one.
\<close>

theorem accepted_weights_sum_to_one:
  assumes "validate c = Inr ()" "weights_proper (scoring c)"
  shows "\<bar>fval (weight_velocity (scoring c)) + fval (weight_divergence (scoring c)) +
    fval (weight_entropy (scoring c)) + fval (weight_anomaly (scoring c)) - 1\<bar> \<le> 10005 / 10 ^ 6"
proof -
  let ?s = "weight_sum (scoring c)"
  have s: "frange 0 11 ?s" "\<bar>fval ?s - (fval (weight_velocity (scoring c)) + fval (weight_divergence (scoring c)) +
      fval (weight_entropy (scoring c)) + fval (weight_anomaly (scoring c)))\<bar> \<le> 3 / 2 ^ 21"
    unfolding weight_sum_def using assms(2) sum_error unfolding weights_proper_def by blast+
  then have "is_fin ?s" "\<bar>fval ?s - 1\<bar> < 16" by (auto simp: frange_def)
  then have "is_fin (fsub F32 ?s (Num 1))" "\<bar>fval (fsub F32 ?s (Num 1)) - (fval ?s - 1)\<bar> \<le> 1 / 2 ^ 21"
    using F32_error [of "fval ?s - 1"] by (simp_all add: fsub_fin f32.fround_small)
  moreover have "\<not> bad_weights c" using assms(1) by (simp add: validate_Inr)
  then have "\<not> flt (Num (5368709 / 536870912)) (fabs (fsub F32 ?s (Num 1)))"
    by (simp only: bad_weights_def weight_tolerance not_False_eq_True)
  moreover from this calculation(1) have "\<bar>fval (fsub F32 ?s (Num 1))\<bar> \<le> 5368709 / 536870912"
    by (simp add: flt_fin)
  ultimately show ?thesis using s(2) unfolding abs_le_iff by simp
qed

theorem accepted_weights_sum_to_one_witness:
  "\<bar>1 / 4 + 11744051 / 33554432 + 5033165 / 33554432 + 1 / 4 - 1\<bar> \<le> (10005 / 10 ^ 6 :: real)"
  using accepted_weights_sum_to_one [of "default_config ''r'' ''d'' ''k''"]
  by (simp add: validate_Inr default_config_def bad_weights_def weight_sum_default bad_ratio_def
      weights_proper_def fp_eval)

text \<open>
  What the ratio checks leave: an accepted synonym ratio is a number of \<open>(0, 1]\<close>, or NaN.
  A NaN passes because both of its comparisons are false.
\<close>

theorem accepted_ratios:
  assumes "validate c = Inr ()" "r \<in> {tier2_synonym_ratio (defence c), tier3_synonym_ratio (defence c)}"
  shows "r = NaN \<or> (is_fin r \<and> 0 < fval r \<and> fval r \<le> 1)"
  using assms bad_ratio_fin by (auto simp: validate_Inr)

theorem accepted_ratios_witness:
  "Num (1 / 2) = NaN \<or> (is_fin (Num (1 / 2)) \<and> 0 < fval (Num (1 / 2)) \<and> fval (Num (1 / 2)) \<le> 1)"
  by (rule accepted_ratios [of "(default_config ''r'' ''d'' ''k'')\<lparr>defence := default_defence\<lparr>tier2_synonym_ratio := Num (1 / 2)\<rparr>\<rparr>"])
    (simp_all add: validate_Inr default_config_def bad_weights_def weight_sum_default bad_ratio_def fp_eval)

end
