(* ===== verification/Loader.thy ===== *)
theory Loader
  imports Config
begin

text \<open>
  \<open>Config::load\<close> of \<open>engine/src/config.rs\<close>: the default layer, the file and the environment, merged
  by the \<open>config\<close> crate and read into the structs. The crate is the record \<open>config_crate\<close> over its
  type \<open>'v\<close> of values: a layer is a list of settings, each a path of names with its value. The
  file is an argument: its settings, none when it is absent, or the message of its parser.
\<close>

section \<open>The crate\<close>

type_synonym key = "string list"

type_synonym 'v layer = "(key \<times> 'v) list"

record 'v config_crate =
  of_str :: "string \<Rightarrow> 'v"
  of_int :: "int \<Rightarrow> 'v"
  of_f64 :: "fp \<Rightarrow> 'v"
  of_bool :: "bool \<Rightarrow> 'v"
  as_str :: "'v \<Rightarrow> string option"
  as_uint :: "nat \<Rightarrow> 'v \<Rightarrow> nat option"                \<comment> \<open>an unsigned integer of so many bits\<close>
  as_f32 :: "'v \<Rightarrow> fp option"
  as_bool :: "'v \<Rightarrow> bool option"
  env_entry :: "string \<Rightarrow> string \<Rightarrow> string \<times> string \<Rightarrow> (key \<times> 'v) option"
  merge_layers :: "'v layer list \<Rightarrow> key \<Rightarrow> 'v option"
  deserialise_message :: string

section \<open>The layers\<close>

definition default_layer :: "'v config_crate \<Rightarrow> 'v layer" where
  "default_layer K =
     [([''server'', ''grpc_addr''], of_str K ''[::]:50051''),
      ([''server'', ''max_message_size_bytes''], of_int K (4 * 1024 * 1024)),
      ([''server'', ''keepalive_secs''], of_int K 30),
      ([''scoring'', ''weight_velocity''], of_f64 K (flit F64 0.25)),
      ([''scoring'', ''weight_divergence''], of_f64 K (flit F64 0.35)),
      ([''scoring'', ''weight_entropy''], of_f64 K (flit F64 0.15)),
      ([''scoring'', ''weight_anomaly''], of_f64 K (flit F64 0.25)),
      ([''scoring'', ''tier2_score_threshold''], of_f64 K (flit F64 0.55)),
      ([''scoring'', ''tier3_score_threshold''], of_f64 K (flit F64 0.90)),
      ([''scoring'', ''tier2_min_duration_mins''], of_f64 K (flit F64 2)),
      ([''scoring'', ''tier3_min_duration_mins''], of_f64 K (flit F64 10)),
      ([''scoring'', ''max_rpm''], of_f64 K (flit F64 30)),
      ([''scoring'', ''rpm_window_mins''], of_f64 K (flit F64 5)),
      ([''scoring'', ''entropy_window_size''], of_int K 20),
      ([''scoring'', ''isolation_forest_n_trees''], of_int K 100),
      ([''scoring'', ''isolation_forest_sample_size''], of_int K 256),
      ([''scoring'', ''max_timestamps_per_session''], of_int K 50),
      ([''defence'', ''tier2_synonym_ratio''], of_f64 K (flit F64 0.45)),
      ([''defence'', ''tier3_synonym_ratio''], of_f64 K (flit F64 0.70)),
      ([''defence'', ''numeric_perturb_pct''], of_f64 K (flit F64 0.05)),
      ([''defence'', ''reorder_sentences''], of_bool K True),
      ([''store'', ''session_ttl_secs''], of_int K 86400),
      ([''store'', ''pg_pool_max''], of_int K 10),
      ([''llm'', ''provider''], of_str K ''groq''),
      ([''llm'', ''model''], of_str K ''llama-3.1-8b-instant''),
      ([''llm'', ''max_tokens''], of_int K 512),
      ([''llm'', ''temperature''], of_f64 K (flit F64 0.7)),
      ([''llm'', ''ollama_base_url''], of_str K ''http://localhost:11434''),
      ([''rekor'', ''server_url''], of_str K ''https://rekor.sigstore.dev''),
      ([''rekor'', ''enabled''], of_bool K True),
      ([''rekor'', ''timeout_secs''], of_int K 10),
      ([''rekor'', ''signing_key_path''], of_str K []),
      ([''models'', ''model_dir''], of_str K ''./models''),
      ([''models'', ''embedding_model''], of_str K ''all-MiniLM-L6-v2.onnx''),
      ([''models'', ''intent_model''], of_str K ''nli-MiniLM2-L6-H768.onnx''),
      ([''models'', ''ort_inter_op_threads''], of_int K 2),
      ([''models'', ''ort_intra_op_threads''], of_int K 2),
      ([''logging'', ''level''], of_str K ''info''),
      ([''logging'', ''format''], of_str K ''json'')]"

definition env_layer :: "'v config_crate \<Rightarrow> (string \<times> string) list \<Rightarrow> 'v layer" where
  "env_layer K vars = List.map_filter (env_entry K ''VYSE_ENGINE'' ''_'') vars"

section \<open>Reading the structs\<close>

definition read :: "('v \<Rightarrow> 'a option) \<Rightarrow> (key \<Rightarrow> 'v option) \<Rightarrow> string \<Rightarrow> string \<Rightarrow> 'a option" where
  "read conv look table name = Option.bind (look [table, name]) conv"

text \<open>A field marked \<open>#[serde(default)]\<close> is the empty text when it is missing.\<close>

definition read_or_empty :: "'v config_crate \<Rightarrow> (key \<Rightarrow> 'v option) \<Rightarrow> string \<Rightarrow> string \<Rightarrow> string option" where
  "read_or_empty K look table name =
     (case look [table, name] of None \<Rightarrow> Some [] | Some v \<Rightarrow> as_str K v)"

definition read_server :: "'v config_crate \<Rightarrow> (key \<Rightarrow> 'v option) \<Rightarrow> server_config option" where
  "read_server K look =
     (case (read (as_str K) look ''server'' ''grpc_addr'',
            read (as_uint K 64) look ''server'' ''max_message_size_bytes'',
            read (as_uint K 64) look ''server'' ''keepalive_secs'') of
        (Some a, Some m, Some k) \<Rightarrow> Some \<lparr>grpc_addr = a, max_message_size_bytes = m, keepalive_secs = k\<rparr>
      | _ \<Rightarrow> None)"

definition read_scoring :: "'v config_crate \<Rightarrow> (key \<Rightarrow> 'v option) \<Rightarrow> scoring_config option" where
  "read_scoring K look =
     (let f = read (as_f32 K) look ''scoring''; u = read (as_uint K 64) look ''scoring'' in
      case (those [f ''weight_velocity'', f ''weight_divergence'', f ''weight_entropy'', f ''weight_anomaly'',
                   f ''tier2_score_threshold'', f ''tier3_score_threshold'', f ''tier2_min_duration_mins'',
                   f ''tier3_min_duration_mins'', f ''max_rpm'', f ''rpm_window_mins''],
            those [u ''entropy_window_size'', u ''isolation_forest_n_trees'',
                   u ''isolation_forest_sample_size'', u ''max_timestamps_per_session'']) of
        (Some [wv, wd, we, wa, t2, t3, d2, d3, rpm, win], Some [ew, nt, ss, ts]) \<Rightarrow>
          Some \<lparr>weight_velocity = wv, weight_divergence = wd, weight_entropy = we, weight_anomaly = wa,
                tier2_score_threshold = t2, tier3_score_threshold = t3, tier2_min_duration_mins = d2,
                tier3_min_duration_mins = d3, max_rpm = rpm, rpm_window_mins = win, entropy_window_size = ew,
                isolation_forest_n_trees = nt, isolation_forest_sample_size = ss, max_timestamps_per_session = ts\<rparr>
      | _ \<Rightarrow> None)"

definition read_defence :: "'v config_crate \<Rightarrow> (key \<Rightarrow> 'v option) \<Rightarrow> defence_config option" where
  "read_defence K look =
     (case (read (as_f32 K) look ''defence'' ''tier2_synonym_ratio'', read (as_f32 K) look ''defence'' ''tier3_synonym_ratio'',
            read (as_f32 K) look ''defence'' ''numeric_perturb_pct'', read (as_bool K) look ''defence'' ''reorder_sentences'') of
        (Some a, Some b, Some p, Some r) \<Rightarrow>
          Some \<lparr>tier2_synonym_ratio = a, tier3_synonym_ratio = b, numeric_perturb_pct = p, reorder_sentences_on = r\<rparr>
      | _ \<Rightarrow> None)"

definition read_store :: "'v config_crate \<Rightarrow> (key \<Rightarrow> 'v option) \<Rightarrow> store_config option" where
  "read_store K look =
     (case (read (as_str K) look ''store'' ''redis_url'', read (as_uint K 64) look ''store'' ''session_ttl_secs'',
            read (as_str K) look ''store'' ''database_url'', read (as_uint K 32) look ''store'' ''pg_pool_max'') of
        (Some r, Some t, Some d, Some p) \<Rightarrow>
          Some \<lparr>redis_url = r, session_ttl_secs = t, database_url = d, pg_pool_max = p\<rparr>
      | _ \<Rightarrow> None)"

definition read_llm :: "'v config_crate \<Rightarrow> (key \<Rightarrow> 'v option) \<Rightarrow> llm_config option" where
  "read_llm K look =
     (let s = read (as_str K) look ''llm'' in
      case (s ''provider'', s ''model'', read (as_uint K 32) look ''llm'' ''max_tokens'',
            read (as_f32 K) look ''llm'' ''temperature'', s ''api_key'', read_or_empty K look ''llm'' ''ollama_base_url'') of
        (Some p, Some m, Some n, Some t, Some k, Some u) \<Rightarrow>
          Some \<lparr>provider = p, llm_model = m, max_tokens = n, temperature = t, api_key = k, ollama_base_url = u\<rparr>
      | _ \<Rightarrow> None)"

definition read_rekor :: "'v config_crate \<Rightarrow> (key \<Rightarrow> 'v option) \<Rightarrow> rekor_config option" where
  "read_rekor K look =
     (case (read (as_str K) look ''rekor'' ''server_url'', read (as_bool K) look ''rekor'' ''enabled'',
            read (as_uint K 64) look ''rekor'' ''timeout_secs'', read_or_empty K look ''rekor'' ''signing_key_path'') of
        (Some u, Some e, Some t, Some p) \<Rightarrow>
          Some \<lparr>server_url = u, rekor_enabled = e, timeout_secs = t, signing_key_path = p\<rparr>
      | _ \<Rightarrow> None)"

definition read_models :: "'v config_crate \<Rightarrow> (key \<Rightarrow> 'v option) \<Rightarrow> models_config option" where
  "read_models K look =
     (let s = read (as_str K) look ''models''; u = read (as_uint K 64) look ''models'' in
      case (s ''model_dir'', s ''embedding_model'', s ''intent_model'', u ''ort_inter_op_threads'', u ''ort_intra_op_threads'') of
        (Some d, Some e, Some i, Some a, Some b) \<Rightarrow>
          Some \<lparr>model_dir = d, embedding_model = e, intent_model = i, ort_inter_op_threads = a, ort_intra_op_threads = b\<rparr>
      | _ \<Rightarrow> None)"

definition read_logging :: "'v config_crate \<Rightarrow> (key \<Rightarrow> 'v option) \<Rightarrow> logging_config option" where
  "read_logging K look =
     (case (read (as_str K) look ''logging'' ''level'', read (as_str K) look ''logging'' ''format'') of
        (Some l, Some f) \<Rightarrow> Some \<lparr>log_level = l, log_format = f\<rparr>
      | _ \<Rightarrow> None)"

definition deserialise :: "'v config_crate \<Rightarrow> (key \<Rightarrow> 'v option) \<Rightarrow> config option" where
  "deserialise K look =
     (case (read_server K look, read_scoring K look, read_defence K look, read_store K look,
            read_llm K look, read_rekor K look, read_models K look, read_logging K look) of
        (Some a, Some b, Some c, Some d, Some e, Some f, Some g, Some h) \<Rightarrow>
          Some \<lparr>server = a, scoring = b, defence = c, store = d, llm = e, rekor = f, models = g, logging = h\<rparr>
      | _ \<Rightarrow> None)"

definition config_load ::
    "'v config_crate \<Rightarrow> string + 'v layer \<Rightarrow> (string \<times> string) list \<Rightarrow> config_error + config" where
  "config_load K file vars =
     (case file of
        Inl m \<Rightarrow> Inl (Load m)
      | Inr settings \<Rightarrow>
          (case deserialise K (merge_layers K [default_layer K, settings, env_layer K vars]) of
             None \<Rightarrow> Inl (Load (deserialise_message K))
           | Some c \<Rightarrow> (case validate c of Inl e \<Rightarrow> Inl e | Inr _ \<Rightarrow> Inr c)))"

lemmas read_defs = read_server_def read_scoring_def read_defence_def read_store_def read_llm_def
  read_rekor_def read_models_def read_logging_def

section \<open>The contract\<close>

text \<open>
  A merged setting comes from one of the layers, and layers whose paths do not nest are merged
  by the last one that has the path. \<open>Environment::separator(c)\<close> splits a variable's name at every
  \<open>c\<close>, so no name of the resulting path contains it.
\<close>

definition flat :: "'v layer \<Rightarrow> bool" where
  "flat L \<longleftrightarrow> (\<forall>(k, v) \<in> set L. length k = 2)"

locale config_laws =
  fixes K :: "'v config_crate"
  assumes str_back: "as_str K (of_str K s) = Some s"
    and uint_back: "0 \<le> n \<Longrightarrow> n < 2 ^ 31 \<Longrightarrow> w \<in> {32, 64} \<Longrightarrow> as_uint K w (of_int K n) = Some (nat n)"
    and f32_back: "as_f32 K (of_f64 K x) = Some (fcast F32 x)"
    and bool_back: "as_bool K (of_bool K b) = Some b"
    and merge_source: "merge_layers K Ls k = Some v \<Longrightarrow> \<exists>L \<in> set Ls. (k, v) \<in> set L"
    and merge_flat: "list_all flat Ls \<Longrightarrow> merge_layers K Ls k = map_of (concat (rev Ls)) k"
    and env_names: "env_entry K prefix [c] var = Some (k, v) \<Longrightarrow> name \<in> set k \<Longrightarrow> c \<notin> set name"

text \<open>The smallest file that loads, on top of the defaults.\<close>

definition minimal_file :: "'v config_crate \<Rightarrow> string \<Rightarrow> string \<Rightarrow> string \<Rightarrow> 'v layer" where
  "minimal_file K r d k =
     [([''store'', ''redis_url''], of_str K r), ([''store'', ''database_url''], of_str K d),
      ([''llm'', ''api_key''], of_str K k)]"

lemma default_layer_flat: "flat (default_layer K)"
  by (simp add: flat_def default_layer_def)

lemma no_default_secret:
  "([''store'', ''redis_url''], v) \<notin> set (default_layer K)" "([''store'', ''database_url''], v) \<notin> set (default_layer K)"
  "([''llm'', ''api_key''], v) \<notin> set (default_layer K)"
  by (simp_all add: default_layer_def)

lemma read_Some: "read conv look a b = Some x \<longleftrightarrow> (\<exists>v. look [a, b] = Some v \<and> conv v = Some x)"
  by (auto simp: read_def bind_eq_Some_conv)

lemma read_store_secrets:
  "read_store K look = Some c \<Longrightarrow>
   read (as_str K) look ''store'' ''redis_url'' = Some (redis_url c) \<and>
   read (as_str K) look ''store'' ''database_url'' = Some (database_url c)"
  by (auto simp: read_store_def split: option.splits)

lemma read_llm_secrets: "read_llm K look = Some c \<Longrightarrow> read (as_str K) look ''llm'' ''api_key'' = Some (api_key c)"
  by (auto simp: read_llm_def Let_def split: option.splits)

lemma deserialise_parts: "deserialise K look = Some c \<Longrightarrow> read_store K look = Some (store c) \<and> read_llm K look = Some (llm c)"
  by (auto simp: deserialise_def split: option.splits)

lemmas deserialise_secrets = deserialise_parts [THEN conjunct1, THEN read_store_secrets, THEN conjunct1]
  deserialise_parts [THEN conjunct1, THEN read_store_secrets, THEN conjunct2]
  deserialise_parts [THEN conjunct2, THEN read_llm_secrets]

lemma config_load_Inr:
  assumes "config_load K file vars = Inr c"
  obtains settings where "file = Inr settings" "validate c = Inr ()"
    "deserialise K (merge_layers K [default_layer K, settings, env_layer K vars]) = Some c"
  using assms by (auto simp: config_load_def split: sum.splits option.splits)

context config_laws
begin

lemma env_layer_names:
  assumes "(k, v) \<in> set (env_layer K vars)" "name \<in> set k"
  shows "CHR ''_'' \<notin> set name"
  using assms env_names by (fastforce simp: env_layer_def List.map_filter_def)

text \<open>A path with an underscore and no default can only come from the file.\<close>

lemma only_the_file:
  assumes "merge_layers K [default_layer K, settings, env_layer K vars] [a, b] = Some v"
    and "CHR ''_'' \<in> set b" "\<And>v. ([a, b], v) \<notin> set (default_layer K)"
  shows "([a, b], v) \<in> set settings"
  using merge_source [OF assms(1)] env_layer_names [of "[a, b]" v vars b] assms(2,3) by auto

lemma load_secrets:
  assumes "config_load K file vars = Inr c"
  obtains settings where "file = Inr settings"
    "\<exists>v. ([''store'', ''redis_url''], v) \<in> set settings \<and> as_str K v = Some (redis_url (store c))"
    "\<exists>v. ([''store'', ''database_url''], v) \<in> set settings \<and> as_str K v = Some (database_url (store c))"
    "\<exists>v. ([''llm'', ''api_key''], v) \<in> set settings \<and> as_str K v = Some (api_key (llm c))"
proof -
  obtain settings where s: "file = Inr settings"
    "deserialise K (merge_layers K [default_layer K, settings, env_layer K vars]) = Some c"
    by (rule config_load_Inr [OF assms])
  have from_file: "\<exists>v. ([a, b], v) \<in> set settings \<and> as_str K v = Some x"
    if "read (as_str K) (merge_layers K [default_layer K, settings, env_layer K vars]) a b = Some x"
      "CHR ''_'' \<in> set b" "\<And>v. ([a, b], v) \<notin> set (default_layer K)" for a b x
    using that only_the_file unfolding read_Some by blast
  show ?thesis
    by (rule that [OF s(1)]; rule from_file [OF deserialise_secrets(1) [OF s(2)]]
        from_file [OF deserialise_secrets(2) [OF s(2)]] from_file [OF deserialise_secrets(3) [OF s(2)]])
      (simp_all add: no_default_secret)
qed

lemma minimal_flat: "flat (minimal_file K r d k)" "flat (env_layer K [])"
  by (simp_all add: minimal_file_def flat_def env_layer_def map_filter_simps)

lemma minimal_look:
  "merge_layers K [default_layer K, minimal_file K r d k, env_layer K []] = map_of (minimal_file K r d k @ default_layer K)"
  by (rule ext, subst merge_flat) (simp_all add: default_layer_flat minimal_flat, simp add: env_layer_def map_filter_simps)

lemma minimal_file_reads:
  fixes r d k :: string
  defines "look \<equiv> map_of (minimal_file K r d k @ default_layer K)"
  shows "read_server K look = Some (server (default_config r d k))"
    and "read_scoring K look = Some (scoring (default_config r d k))"
    and "read_defence K look = Some (defence (default_config r d k))"
    and "read_store K look = Some (store (default_config r d k))"
    and "read_llm K look = Some (llm (default_config r d k))"
    and "read_rekor K look = Some (rekor (default_config r d k))"
    and "read_models K look = Some (models (default_config r d k))"
    and "read_logging K look = Some (logging (default_config r d k))"
  unfolding look_def
  by (simp_all add: read_defs read_or_empty_def read_def minimal_file_def default_layer_def str_back uint_back f32_back bool_back
      default_config_def default_scoring_def default_defence_def default_f32_def Let_def)

lemma minimal_file_loads:
  "config_load K (Inr (minimal_file K r d k)) [] =
     (case validate (default_config r d k) of Inl e \<Rightarrow> Inl e | Inr _ \<Rightarrow> Inr (default_config r d k))"
proof -
  have "deserialise K (map_of (minimal_file K r d k @ default_layer K)) = Some (default_config r d k)"
    unfolding deserialise_def minimal_file_reads by (simp add: default_config_def)
  then show ?thesis by (simp add: config_load_def minimal_look del: map_of_append)
qed

end

section \<open>An instance\<close>

datatype cfg_value = StrV string | IntV int | FloatV fp | BoolV bool

fun split_at :: "char \<Rightarrow> string \<Rightarrow> string list" where
  "split_at c [] = [[]]"
| "split_at c (x # xs) =
     (if x = c then [] # split_at c xs else (x # hd (split_at c xs)) # tl (split_at c xs))"

lemma split_at_names: "name \<in> set (split_at c s) \<Longrightarrow> c \<notin> set name"
proof (induction c s arbitrary: name rule: split_at.induct)
  case (2 c x xs)
  have "split_at c xs \<noteq> []" by (cases xs) auto
  then have "hd (split_at c xs) \<in> set (split_at c xs)" "set (tl (split_at c xs)) \<subseteq> set (split_at c xs)"
    by (auto dest: list.set_sel(2))
  with 2 show ?case by (auto split: if_splits)
qed simp

definition plain_crate :: "cfg_value config_crate" where
  "plain_crate =
     \<lparr>of_str = StrV, of_int = IntV, of_f64 = FloatV, of_bool = BoolV,
      as_str = (\<lambda>v. case v of StrV s \<Rightarrow> Some s | _ \<Rightarrow> None),
      as_uint = (\<lambda>w v. case v of IntV n \<Rightarrow> if 0 \<le> n \<and> n < 2 ^ w then Some (nat n) else None | _ \<Rightarrow> None),
      as_f32 = (\<lambda>v. case v of FloatV x \<Rightarrow> Some (fcast F32 x) | _ \<Rightarrow> None),
      as_bool = (\<lambda>v. case v of BoolV b \<Rightarrow> Some b | _ \<Rightarrow> None),
      env_entry = (\<lambda>prefix sep (name, val).
        case strip_prefix name (prefix @ sep) of
          Some rest \<Rightarrow> Some (split_at (hd sep) (map to_ascii_lower rest), StrV val)
        | None \<Rightarrow> None),
      merge_layers = (\<lambda>Ls. map_of (concat (rev Ls))),
      deserialise_message = ''missing field''\<rparr>"

interpretation plain: config_laws plain_crate
proof
  fix n :: int and w :: nat
  assume n: "0 \<le> n" "n < 2 ^ 31" "w \<in> {32, 64}"
  then have "n < 2 ^ w" by auto
  then show "as_uint plain_crate w (of_int plain_crate n) = Some (nat n)" using n by (simp add: plain_crate_def)
next
  fix Ls k and v :: cfg_value
  assume "merge_layers plain_crate Ls k = Some v"
  then have "(k, v) \<in> set (concat (rev Ls))" by (auto simp: plain_crate_def dest: map_of_SomeD)
  then show "\<exists>L \<in> set Ls. (k, v) \<in> set L" by auto
next
  fix prefix c var k v name
  assume "env_entry plain_crate prefix [c] var = Some (k, v)" "name \<in> set k"
  then show "c \<notin> set name" using split_at_names by (cases var) (auto simp: plain_crate_def split: option.splits)
qed (simp_all add: plain_crate_def)

section \<open>Properties\<close>

text \<open>
  C33. The secrets can only come from the file: the loader splits every variable's name at each
  underscore, so a loaded configuration has its Redis URL, its database URL and its API key from
  \<open>config.toml\<close>, whatever the environment holds, and without a file loading always fails. The
  documentation asks for the opposite: these settings in \<open>VYSE_ENGINE_STORE_REDIS_URL\<close> and its
  siblings, and never in the file.
\<close>

theorem secrets_only_from_the_file:
  assumes "config_laws K" "config_load K file vars = Inr c"
  shows "\<exists>settings. file = Inr settings \<and> settings \<noteq> [] \<and> validate c = Inr () \<and>
    (\<exists>v. ([''store'', ''redis_url''], v) \<in> set settings \<and> as_str K v = Some (redis_url (store c))) \<and>
    (\<exists>v. ([''store'', ''database_url''], v) \<in> set settings \<and> as_str K v = Some (database_url (store c))) \<and>
    (\<exists>v. ([''llm'', ''api_key''], v) \<in> set settings \<and> as_str K v = Some (api_key (llm c)))"
proof -
  have "validate c = Inr ()" by (rule config_load_Inr [OF assms(2)]) simp
  then show ?thesis by (rule_tac config_laws.load_secrets [OF assms]) auto
qed

theorem secrets_only_from_the_file_witness:
  "\<exists>v. config_load plain_crate (Inr (minimal_file plain_crate ''redis'' ''postgres'' ''key''))
       [] = Inr (default_config ''redis'' ''postgres'' ''key'') \<and>
     ([''store'', ''redis_url''], v) \<in> set (minimal_file plain_crate ''redis'' ''postgres'' ''key'') \<and>
     as_str plain_crate v = Some ''redis''"
proof -
  let ?c = "default_config ''redis'' ''postgres'' ''key''"
  have "validate ?c = Inr ()"
    by (simp add: validate_Inr default_config_def bad_weights_def weight_sum_default bad_ratio_def fp_eval)
  then have l: "config_load plain_crate (Inr (minimal_file plain_crate ''redis'' ''postgres'' ''key'')) [] = Inr ?c"
    by (simp add: plain.minimal_file_loads)
  have "redis_url (store ?c) = ''redis''" by (simp add: default_config_def)
  then show ?thesis using secrets_only_from_the_file [OF plain.config_laws_axioms l] l by auto
qed

text \<open>An environment that follows the documentation to the letter does not load.\<close>

lemma documented_environment_fails:
  "\<nexists>c. config_load plain_crate (Inr [])
     [(''VYSE_ENGINE_STORE_REDIS_URL'', ''r''), (''VYSE_ENGINE_STORE_DATABASE_URL'', ''d''),
      (''VYSE_ENGINE_LLM_API_KEY'', ''k'')] = Inr c"
  using plain.load_secrets by fastforce

end
