(* ===== verification/Scoring.thy ===== *)
theory Scoring
  imports Config
begin

text \<open>
  \<open>engine/src/scoring/mod.rs\<close>: the \<open>Scores\<close> struct, the weighted combination of the four
  signals (\<open>compute_hybrid\<close>) and the tier classification (\<open>classify_tier\<close>). Tiers are the
  \<open>u8\<close> values 1 (clean), 2 (suspicious) and 3 (malicious).
\<close>

type_synonym u8 = "8 word"

record Scores =
  sc_v :: fp
  sc_d :: fp
  sc_e :: fp
  sc_a :: fp
  sc_intent_flagged :: bool
  sc_hybrid :: fp

definition compute_hybrid :: "fp \<Rightarrow> fp \<Rightarrow> fp \<Rightarrow> fp \<Rightarrow> scoring_config \<Rightarrow> fp" where
  "compute_hybrid v d e a cfg =
     (let score = fadd F32 (fadd F32 (fadd F32 (fmul F32 (weight_velocity cfg) v)
                                               (fmul F32 (weight_divergence cfg) d))
                                     (fmul F32 (weight_entropy cfg) e))
                           (fmul F32 (weight_anomaly cfg) a)
      in fclamp score (Num 0) (Num 1))"

definition tier3_reached :: "fp \<Rightarrow> fp \<Rightarrow> scoring_config \<Rightarrow> bool" where
  "tier3_reached hybrid duration_mins cfg \<longleftrightarrow>
     fle (tier3_score_threshold cfg) hybrid \<and> flt (tier3_min_duration_mins cfg) duration_mins"

definition classify_tier :: "fp \<Rightarrow> fp \<Rightarrow> bool \<Rightarrow> scoring_config \<Rightarrow> u8" where
  "classify_tier hybrid duration_mins intent_flagged cfg =
     (if intent_flagged then
        (if tier3_reached hybrid duration_mins cfg then 3 else 2)
      else if tier3_reached hybrid duration_mins cfg then 3
      else if fle (tier2_score_threshold cfg) hybrid \<or> fle (tier2_min_duration_mins cfg) duration_mins
      then 2
      else 1)"

section \<open>Unit-interval signals\<close>

abbreviation unit_score :: "fp \<Rightarrow> bool" where
  "unit_score x \<equiv> frange 0 1 x"

definition weights_finite :: "scoring_config \<Rightarrow> bool" where
  "weights_finite cfg \<longleftrightarrow>
     (\<forall>w \<in> {weight_velocity cfg, weight_divergence cfg, weight_entropy cfg, weight_anomaly cfg}.
        is_fin w \<and> fp_valid F32 w)"

lemma default_weights_proper: "weights_proper default_scoring"
  by (simp add: weights_proper_def)

lemma default_weights_finite: "weights_finite default_scoring"
  by (simp add: weights_finite_def fp_valid_def fp_eval)

lemma weighted_fin:
  "is_fin w \<Longrightarrow> fp_valid F32 w \<Longrightarrow> unit_score x \<Longrightarrow> is_fin (fmul F32 w x)"
  by (rule f32.fmul_unit_fin) (auto simp: frange_def)

lemma hybrid_range:
  assumes "weights_finite cfg" "unit_score v" "unit_score d" "unit_score e" "unit_score a"
  shows "unit_score (compute_hybrid v d e a cfg)"
proof -
  have "is_fin (fmul F32 (weight_velocity cfg) v)" "is_fin (fmul F32 (weight_divergence cfg) d)"
    "is_fin (fmul F32 (weight_entropy cfg) e)" "is_fin (fmul F32 (weight_anomaly cfg) a)"
    using assms by (simp_all add: weights_finite_def weighted_fin)
  then show ?thesis
    unfolding compute_hybrid_def Let_def
    by (intro frange_fclamp fadd_fin_not_NaN) (auto intro: is_fin_not_NaN)
qed

lemma weighted_range: "frange 0 2 w \<Longrightarrow> unit_score x \<Longrightarrow> frange 0 2 (fmul F32 w x)"
  using f32.frange_fmul_nonneg [of 0 2 w 0 1 x] f32.rnd_int [of 2] by simp

lemma sum_range:
  "frange 0 2 p \<Longrightarrow> frange 0 2 q \<Longrightarrow> frange 0 2 r \<Longrightarrow> frange 0 2 s \<Longrightarrow>
   frange 0 4 (fadd F32 p q) \<and> frange 0 6 (fadd F32 (fadd F32 p q) r) \<and>
   frange 0 8 (fadd F32 (fadd F32 (fadd F32 p q) r) s)"
  using f32.frange_fadd [of 0 2 p 0 2 q] f32.frange_fadd [of 0 4 "fadd F32 p q" 0 2 r]
    f32.frange_fadd [of 0 6 "fadd F32 (fadd F32 p q) r" 0 2 s]
    f32.rnd_int [of 4] f32.rnd_int [of 6] f32.rnd_int [of 8] by simp

lemma sum_not_NaN:
  assumes "frange 0 2 p" "frange 0 2 q" "frange 0 2 r" "frange 0 2 s"
  shows "fadd F32 p q \<noteq> NaN" and "fadd F32 (fadd F32 p q) r \<noteq> NaN"
    and "fadd F32 (fadd F32 (fadd F32 p q) r) s \<noteq> NaN"
  using sum_range [OF assms] by (auto dest: frange_not_NaN)

lemma weighted_mono:
  "frange 0 2 w \<Longrightarrow> unit_score x \<Longrightarrow> unit_score y \<Longrightarrow> fle x y \<Longrightarrow> fle (fmul F32 w x) (fmul F32 w y)"
  by (rule f32.fmul_mono) (auto simp: frange_def)

lemma compute_hybrid_mono:
  assumes w: "weights_proper cfg"
    and u: "unit_score v" "unit_score d" "unit_score e" "unit_score a"
    and u': "unit_score v'" "unit_score d'" "unit_score e'" "unit_score a'"
    and le: "fle v v'" "fle d d'" "fle e e'" "fle a a'"
  shows "fle (compute_hybrid v d e a cfg) (compute_hybrid v' d' e' a' cfg)"
proof -
  let ?p = "fmul F32 (weight_velocity cfg)" and ?q = "fmul F32 (weight_divergence cfg)"
    and ?r = "fmul F32 (weight_entropy cfg)" and ?s = "fmul F32 (weight_anomaly cfg)"
  have rng: "frange 0 2 (?p x)" "frange 0 2 (?q x)" "frange 0 2 (?r x)" "frange 0 2 (?s x)"
    if "unit_score x" for x
    using w that by (simp_all add: weights_proper_def weighted_range)
  have le_w: "fle (?p v) (?p v')" "fle (?q d) (?q d')" "fle (?r e) (?r e')" "fle (?s a) (?s a')"
    using w u u' le by (simp_all add: weights_proper_def weighted_mono)
  note nn = sum_not_NaN [OF rng(1) [OF u(1)] rng(2) [OF u(2)] rng(3) [OF u(3)] rng(4) [OF u(4)]]
  note nn' = sum_not_NaN [OF rng(1) [OF u'(1)] rng(2) [OF u'(2)] rng(3) [OF u'(3)] rng(4) [OF u'(4)]]
  show ?thesis
    unfolding compute_hybrid_def Let_def
    by (rule fclamp_mono [OF f32.fadd_mono [OF f32.fadd_mono [OF f32.fadd_mono
          [OF le_w(1,2) nn(1) nn'(1)] le_w(3) nn(2) nn'(2)] le_w(4) nn(3) nn'(3)]]) simp
qed

lemma classify_tier_mono:
  assumes "fle h h'" "fle t t'" "i \<longrightarrow> i'"
  shows "classify_tier h t i cfg \<le> classify_tier h' t' i' cfg"
proof -
  have "tier3_reached h t cfg \<Longrightarrow> tier3_reached h' t' cfg"
    using assms by (auto simp: tier3_reached_def intro: fle_trans flt_fle_trans)
  moreover have "fle (tier2_score_threshold cfg) h \<Longrightarrow> fle (tier2_score_threshold cfg) h'"
    "fle (tier2_min_duration_mins cfg) t \<Longrightarrow> fle (tier2_min_duration_mins cfg) t'"
    using assms by (auto intro: fle_trans)
  ultimately show ?thesis using assms(3) by (auto simp: classify_tier_def)
qed

lemma compute_hybrid_NaN:
  "NaN \<in> {weight_velocity cfg, weight_divergence cfg, weight_entropy cfg, weight_anomaly cfg, v, d, e, a}
   \<Longrightarrow> compute_hybrid v d e a cfg = NaN"
  by (auto simp: compute_hybrid_def Let_def)

lemma classify_tier_range: "classify_tier h t i cfg \<in> {1, 2, 3}"
  by (simp add: classify_tier_def)

section \<open>Properties\<close>

text \<open>
  C12. The hybrid score of four signals of \<open>[0, 1]\<close> is a number of \<open>[0, 1]\<close>, for every finite
  \<open>f32\<close> weights, valid or not: no weighting makes the sum NaN, and the clamp does the rest.
\<close>

theorem hybrid_in_unit_interval:
  assumes "weights_finite cfg" "unit_score v" "unit_score d" "unit_score e" "unit_score a"
  shows "unit_score (compute_hybrid v d e a cfg)"
  by (rule hybrid_range [OF assms])

theorem hybrid_in_unit_interval_witness:
  "unit_score (compute_hybrid (Num 1) (Num (1 / 2)) NZero (Num (1 / 4)) default_scoring)"
  by (rule hybrid_in_unit_interval) (simp_all add: default_weights_finite)



text \<open>
  The tier is 1, 2 or 3; the intent flag decides between 1 and 2 only. Tier 3 is reached
  exactly by the score and the duration together, so a flagged prompt of a low-scoring session
  is Tier 2, never Tier 3.
\<close>

theorem intent_gives_tier_2:
  "classify_tier h t i cfg \<in> {1, 2, 3} \<and>
   (classify_tier h t i cfg = 3) = tier3_reached h t cfg \<and>
   (classify_tier h t True cfg = 2) = (\<not> tier3_reached h t cfg) \<and>
   (classify_tier h t i cfg = 1) =
     (\<not> i \<and> \<not> tier3_reached h t cfg \<and>
      \<not> fle (tier2_score_threshold cfg) h \<and> \<not> fle (tier2_min_duration_mins cfg) t)"
  by (simp add: classify_tier_def)

text \<open>
  With the default configuration the extremes are exact in \<open>f32\<close>: no signal gives the
  score 0, all four at their maximum give 1 (the rounded weights sum to 1 exactly), which in
  a session of more than ten minutes is Tier 3.
\<close>

theorem default_extremes:
  "compute_hybrid (Num 0) (Num 0) (Num 0) (Num 0) default_scoring = Num 0 \<and>
   compute_hybrid (Num 1) (Num 1) (Num 1) (Num 1) default_scoring = Num 1 \<and>
   classify_tier (Num 1) (Num 11) False default_scoring = 3 \<and>
   classify_tier (Num 1) (Num 10) False default_scoring = 2"
  by (simp add: compute_hybrid_def classify_tier_def tier3_reached_def fp_eval)

text \<open>
  The configuration check fails open on NaN. Give an accepted configuration a NaN
  weight: it is still accepted, every hybrid score is NaN, and every session that is neither
  flagged nor older than the Tier 2 duration is Tier 1, whatever its signals.
\<close>

theorem NaN_weight_fails_open:
  assumes "validate c = Inr ()" "flt t (tier2_min_duration_mins (scoring c))"
  shows "validate (c\<lparr>scoring := (scoring c)\<lparr>weight_velocity := NaN\<rparr>\<rparr>) = Inr () \<and>
    classify_tier (compute_hybrid v d e a ((scoring c)\<lparr>weight_velocity := NaN\<rparr>)) t False
      ((scoring c)\<lparr>weight_velocity := NaN\<rparr>) = 1"
proof -
  have "\<not> fle (tier2_min_duration_mins (scoring c)) t" using assms(2) by (simp add: flt_def)
  then show ?thesis
    using assms(1)
    by (simp add: validate_Inr bad_weights_def weight_sum_def compute_hybrid_NaN classify_tier_def
        tier3_reached_def)
qed

theorem NaN_weight_fails_open_witness:
  "classify_tier (compute_hybrid (Num 1) (Num 1) (Num 1) (Num 1) (default_scoring\<lparr>weight_velocity := NaN\<rparr>)) (Num 1) False
     (default_scoring\<lparr>weight_velocity := NaN\<rparr>) = 1"
proof -
  let ?c = "default_config ''r'' ''d'' ''k''"
  have s: "scoring ?c = default_scoring" by (simp add: default_config_def)
  have "validate ?c = Inr ()"
    by (simp add: validate_Inr default_config_def bad_weights_def weight_sum_default bad_ratio_def fp_eval)
  moreover have "flt (Num 1) (tier2_min_duration_mins (scoring ?c))" by (simp add: s flt_fin)
  ultimately show ?thesis using NaN_weight_fails_open [of ?c "Num 1"] unfolding s by simp
qed

end
