(* ===== verification/Libm.thy ===== *)
theory Libm
  imports Floats
begin

text \<open>
  The elementary functions \<open>f32::exp\<close>, \<open>f32::log2\<close> and \<open>f64::exp\<close>. Rust leaves their
  precision to the platform's mathematical library, so they are the record \<open>libm\<close>, an
  argument of the functions that call them. The locale \<open>libm_laws\<close> states what the engine
  relies on: NaN propagation, sign, monotonicity, and the exact cases of C's Annex F. The
  correctly rounded functions \<open>cr_libm\<close> are an instance of it.
\<close>

record libm =
  exp32 :: "fp \<Rightarrow> fp"
  log2_32 :: "fp \<Rightarrow> fp"
  exp64 :: "fp \<Rightarrow> fp"

locale exp_laws =
  fixes e :: "fp \<Rightarrow> fp"
  assumes exp_NaN [simp]: "e NaN = NaN"
    and exp_not_NaN: "a \<noteq> NaN \<Longrightarrow> e a \<noteq> NaN"
    and exp_nonneg: "a \<noteq> NaN \<Longrightarrow> fle (Num 0) (e a)"
    and exp_zero: "is_fin a \<Longrightarrow> fval a = 0 \<Longrightarrow> e a = Num 1"
    and exp_mono: "fle a b \<Longrightarrow> fle (e a) (e b)"
begin

lemma exp_le_1: "fle a (Num 0) \<Longrightarrow> frange 0 1 (e a)"
  using exp_mono [of a "Num 0"] exp_nonneg [of a] exp_zero [of "Num 0"]
  by (simp add: frange_fle fle_not_NaN)

lemma exp_ge_1: "fle (Num 0) a \<Longrightarrow> fle (Num 1) (e a)"
  using exp_mono [of "Num 0" a] exp_zero [of "Num 0"] by simp

end

locale log2_laws =
  fixes l :: "fp \<Rightarrow> fp"
  assumes log2_fin: "frange (2 powi (- 149)) (2 powi 128) a \<Longrightarrow> is_fin (l a)"
    and log2_pow2: "- 126 \<le> k \<Longrightarrow> k \<le> 127 \<Longrightarrow> l (Num (2 powi k)) = Num (of_int k)"
    and log2_mono: "is_fin a \<Longrightarrow> 0 < fval a \<Longrightarrow> fle a b \<Longrightarrow> fle (l a) (l b)"
begin

lemma log2_1: "l (Num 1) = Num 0"
  using log2_pow2 [of 0] by simp

lemma log2_nonpos:
  assumes "frange (2 powi (- 149)) 1 a"
  shows "is_fin (l a)" and "fval (l a) \<le> 0"
proof -
  have p: "0 < fval a" "is_fin a" "fval a \<le> 1"
    using assms powi_pos [of "- 149"] by (auto simp: frange_def)
  show f: "is_fin (l a)" using assms by (intro log2_fin) (auto elim: frange_mono)
  have "fle (l a) (l (Num 1))" using p by (intro log2_mono) (simp_all add: fle_fin)
  with f show "fval (l a) \<le> 0" by (simp add: log2_1 fle_fin)
qed

lemma log2_nonneg:
  assumes "frange 1 (2 powi 128) a"
  shows "is_fin (l a)" and "0 \<le> fval (l a)"
proof -
  have p: "is_fin a" "1 \<le> fval a" using assms by (auto simp: frange_def)
  have "(2::real) powi (- 149) \<le> 1" using powi_le_iff [of "- 149" 0] by simp
  then show f: "is_fin (l a)" using assms by (intro log2_fin) (auto elim: frange_mono)
  have "fle (l (Num 1)) (l a)" using p by (intro log2_mono) (simp_all add: fle_fin)
  with f show "0 \<le> fval (l a)" by (simp add: log2_1 fle_fin)
qed

end

locale libm_laws =
  fixes M :: libm
  assumes exp32: "exp_laws (exp32 M)"
    and log2_32: "log2_laws (log2_32 M)"
    and exp64: "exp_laws (exp64 M)"

sublocale libm_laws \<subseteq> e32: exp_laws "exp32 M"
  by (rule exp32)

sublocale libm_laws \<subseteq> l32: log2_laws "log2_32 M"
  by (rule log2_32)

sublocale libm_laws \<subseteq> e64: exp_laws "exp64 M"
  by (rule exp64)

section \<open>Correctly rounded functions\<close>

fun cr_exp :: "arith \<Rightarrow> fp \<Rightarrow> fp" where
  "cr_exp F NaN = NaN"
| "cr_exp F PInf = PInf"
| "cr_exp F NInf = Num 0"
| "cr_exp F NZero = Num 1"
| "cr_exp F (Num x) = fround F False (exp x)"

fun cr_log2 :: "arith \<Rightarrow> fp \<Rightarrow> fp" where
  "cr_log2 F NaN = NaN"
| "cr_log2 F PInf = PInf"
| "cr_log2 F NInf = NaN"
| "cr_log2 F NZero = NInf"
| "cr_log2 F (Num x) = (if x < 0 then NaN else if x = 0 then NInf else fround F False (log 2 x))"

context rounding
begin

lemma cr_exp_fin: "is_fin a \<Longrightarrow> cr_exp F a = fround F False (exp (fval a))"
  by (cases a) auto

lemma exp_laws_cr: "exp_laws (cr_exp F)"
proof
  show "a \<noteq> NaN \<Longrightarrow> cr_exp F a \<noteq> NaN" for a by (cases a) auto
  show nn: "a \<noteq> NaN \<Longrightarrow> fle (Num 0) (cr_exp F a)" for a
    by (cases a) (auto simp: fround_nonneg, auto simp: fle_def)
  show "is_fin a \<Longrightarrow> fval a = 0 \<Longrightarrow> cr_exp F a = Num 1" for a by (simp add: cr_exp_fin)
  show "fle a b \<Longrightarrow> fle (cr_exp F a) (cr_exp F b)" for a b
  proof -
    assume ab: "fle a b"
    then consider "a = NInf" | "b = PInf" | "is_fin a" "is_fin b" "fval a \<le> fval b"
      by (auto simp: fle_def)
    then show ?thesis
    proof cases
      case 1
      then show ?thesis using nn fle_not_NaN(2) [OF ab] by simp
    next
      case 2
      then have "cr_exp F a \<noteq> NaN" using fle_not_NaN(1) [OF ab] by (cases a) auto
      then show ?thesis using 2 by (simp add: fle_def)
    next
      case 3
      then show ?thesis by (simp add: cr_exp_fin fround_mono)
    qed
  qed
qed simp

lemma cr_log2_pos: "0 < x \<Longrightarrow> cr_log2 F (Num x) = fround F False (log 2 x)"
  by simp

lemma log2_laws_cr: "log2_laws (cr_log2 F)"
proof
  show "is_fin (cr_log2 F a)" if a: "frange (2 powi (- 149)) (2 powi 128) a" for a
  proof -
    obtain x where x: "a = Num x" "2 powi (- 149) \<le> x" "x \<le> 2 powi 128"
      using a powi_pos [of "- 149"] by (cases a) auto
    have x0: "0 < x" using x(2) powi_pos [of "- 149"] by linarith
    have "- 149 \<le> log 2 x" "log 2 x \<le> 128"
      using x x0 by (simp_all add: le_log_iff log_le_iff powr_real_of_int' powr_minus_divide)
    then have "\<bar>log 2 x\<bar> \<le> 2 ^ 100" by (simp add: abs_le_iff)
    then show ?thesis using x x0 by (simp add: fround_small)
  qed
  show "cr_log2 F (Num (2 powi k)) = Num (of_int k)" if "- 126 \<le> k" "k \<le> 127" for k
  proof -
    have "log 2 (2 powi k) = real_of_int k"
      by (simp add: powr_real_of_int' [symmetric])
    moreover have "\<bar>k\<bar> < 2 ^ 24" using that by simp
    ultimately show ?thesis using cr_log2_pos [OF powi_pos [of k]] fround_int [of k] by simp
  qed
  show "fle (cr_log2 F a) (cr_log2 F b)" if "is_fin a" "0 < fval a" "fle a b" for a b
    using that by (cases a; cases b) (auto simp: fle_def fround_mono [unfolded fle_def])
qed

end

definition cr_libm :: libm where
  "cr_libm = \<lparr>exp32 = cr_exp F32, log2_32 = cr_log2 F32, exp64 = cr_exp F64\<rparr>"

interpretation cr: libm_laws cr_libm
  by (intro libm_laws.intro) (simp_all add: cr_libm_def f32.exp_laws_cr f32.log2_laws_cr f64.exp_laws_cr)

end
