(* ===== verification/Clock.thy ===== *)
theory Clock
  imports Prelude
begin

text \<open>
  Instants. \<open>DateTime<Utc>\<close> and its arithmetic come from the \<open>chrono\<close> crate, so a type of
  instants with the operations the engine calls is the record \<open>chrono\<close>, an argument of
  the model. The current time is never read inside the model: every \<open>Utc::now()\<close> of the
  source is an argument too. The locale \<open>chrono_laws\<close> states what is relied on, and
  \<open>chrono_ns\<close> (integer nanoseconds since the epoch, with \<open>chrono\<close>'s range of years) is an
  instance of it.
\<close>

record 'd chrono =
  dt_le :: "'d \<Rightarrow> 'd \<Rightarrow> bool"                   \<comment> \<open>\<open>a <= b\<close>\<close>
  num_seconds :: "'d \<Rightarrow> 'd \<Rightarrow> int"               \<comment> \<open>\<open>(a - b).num_seconds()\<close>\<close>
  minus_seconds :: "'d \<Rightarrow> int \<Rightarrow> 'd option"       \<comment> \<open>\<open>a - Duration::seconds(n)\<close>, \<open>None\<close> where it panics\<close>
  unix_seconds :: "'d \<Rightarrow> int"                     \<comment> \<open>\<open>a.timestamp()\<close>\<close>

locale chrono_laws =
  fixes C :: "'d chrono"
  assumes le_refl: "dt_le C a a"
    and le_trans: "dt_le C a b \<Longrightarrow> dt_le C b c \<Longrightarrow> dt_le C a c"
    and le_total: "dt_le C a b \<or> dt_le C b a"
    and seconds_self: "num_seconds C a a = 0"
    and seconds_nonneg: "dt_le C b a \<Longrightarrow> 0 \<le> num_seconds C a b"
    and seconds_antimono: "dt_le C b c \<Longrightarrow> num_seconds C a c \<le> num_seconds C a b"
    and seconds_i64: "- (2 ^ 63) \<le> num_seconds C a b \<and> num_seconds C a b < 2 ^ 63"
    and minus_seconds_window:
      "minus_seconds C a n = Some c \<Longrightarrow> 0 \<le> n \<Longrightarrow> dt_le C c b \<Longrightarrow> num_seconds C a b \<le> n"
    and minus_seconds_le: "minus_seconds C a n = Some c \<Longrightarrow> 0 \<le> n \<Longrightarrow> dt_le C c a"
begin

lemma seconds_in_window:
  assumes "minus_seconds C now n = Some c" "0 \<le> n" "dt_le C c t" "dt_le C t now"
  shows "0 \<le> num_seconds C now t" and "num_seconds C now t \<le> n"
  using assms seconds_nonneg minus_seconds_window by auto

end

definition quot :: "int \<Rightarrow> int \<Rightarrow> int" where
  "quot a b = (if a < 0 then - (- a div b) else a div b)"

definition max_instant :: int where
  "max_instant = 8210266876799 * 10 ^ 9"

definition chrono_ns :: "int chrono" where
  "chrono_ns =
     \<lparr>dt_le = (\<le>),
      num_seconds = (\<lambda>a b. max (- (2 ^ 63)) (min (2 ^ 63 - 1) (quot (a - b) (10 ^ 9)))),
      minus_seconds = (\<lambda>a n. if \<bar>a - n * 10 ^ 9\<bar> \<le> max_instant then Some (a - n * 10 ^ 9) else None),
      unix_seconds = (\<lambda>a. a div 10 ^ 9)\<rparr>"

lemma quot_nonneg: "0 \<le> a \<Longrightarrow> 0 < b \<Longrightarrow> 0 \<le> quot a b"
  by (simp add: quot_def pos_imp_zdiv_nonneg_iff)

lemma quot_mono: "a \<le> a' \<Longrightarrow> 0 < b \<Longrightarrow> quot a b \<le> quot a' b"
proof -
  assume a: "a \<le> a'" "0 < b"
  have "0 \<le> - a div b" if "a < 0" using that a by (simp add: pos_imp_zdiv_nonneg_iff)
  moreover have "0 \<le> a' div b" if "0 \<le> a'" using that a by (simp add: pos_imp_zdiv_nonneg_iff)
  moreover have "- a' div b \<le> - a div b" "a div b \<le> a' div b" using a by (simp_all add: zdiv_mono1)
  ultimately show ?thesis using a by (auto simp: quot_def)
qed

lemma quot_le: "a \<le> n * b \<Longrightarrow> 0 < b \<Longrightarrow> 0 \<le> n \<Longrightarrow> quot a b \<le> n"
proof -
  assume a: "a \<le> n * b" "0 < b" "0 \<le> n"
  then have "0 \<le> n * b" by simp
  then have "\<not> n * b < 0" by linarith
  then have "quot (n * b) b = n" using a unfolding quot_def by (simp only: if_False) simp
  with a quot_mono [of a "n * b" b] show ?thesis by simp
qed

interpretation ns: chrono_laws chrono_ns
proof
  fix a b c n :: int
  let ?s = "num_seconds chrono_ns"
  show "dt_le chrono_ns b a \<Longrightarrow> 0 \<le> ?s a b"
    using quot_nonneg [of "a - b" "10 ^ 9"] by (simp add: chrono_ns_def)
  show "dt_le chrono_ns b c \<Longrightarrow> ?s a c \<le> ?s a b"
    using quot_mono [of "a - c" "a - b" "10 ^ 9"] by (auto simp: chrono_ns_def)
  show "- (2 ^ 63) \<le> ?s a b \<and> ?s a b < 2 ^ 63"
    by (auto simp: chrono_ns_def)
  show "?s a b \<le> n" if "minus_seconds chrono_ns a n = Some c" "0 \<le> n" "dt_le chrono_ns c b"
  proof -
    have "a - b \<le> n * 10 ^ 9" using that by (auto simp: chrono_ns_def split: if_splits)
    then have "quot (a - b) (10 ^ 9) \<le> n" using that by (intro quot_le) auto
    then show ?thesis using that by (auto simp: chrono_ns_def)
  qed
qed (auto simp: chrono_ns_def quot_def split: if_splits)

end
