(* ===== verification/Velocity.thy ===== *)
theory Velocity
  imports Scoring Libm Clock
begin

text \<open>
  \<open>engine/src/scoring/velocity.rs\<close>: the V-Score. \<open>weighted_rpm\<close> is the exponentially decayed
  request rate over the sliding window and \<open>velocity_compute\<close> (the source's \<open>compute\<close>) its
  normalisation. \<open>now\<close> is the instant \<open>Utc::now()\<close> returns inside \<open>weighted_rpm\<close>.
\<close>

definition window_seconds :: "fp \<Rightarrow> int" where
  "window_seconds window_mins = fto_int (- (2 ^ 63)) (2 ^ 63 - 1) (fmul F32 window_mins (Num 60))"

definition age_mins :: "'d chrono \<Rightarrow> 'd \<Rightarrow> 'd \<Rightarrow> fp" where
  "age_mins C now ts = fdiv F32 (fof_int F32 (num_seconds C now ts)) (Num 60)"

definition decay :: "libm \<Rightarrow> fp \<Rightarrow> fp" where
  "decay M age = exp32 M (fmul F32 (fneg (Num 1)) age)"

definition weighted_count :: "libm \<Rightarrow> fp list \<Rightarrow> fp" where
  "weighted_count M ages = fsum F32 (map (decay M) ages)"

definition span_mins :: "fp list \<Rightarrow> fp" where
  "span_mins ages = fmax (fsub F32 (hd ages) (last ages)) (fdiv F32 (Num 1) (Num 60))"

definition weighted_rpm :: "libm \<Rightarrow> 'd chrono \<Rightarrow> 'd \<Rightarrow> 'd list \<Rightarrow> fp \<Rightarrow> fp run" where
  "weighted_rpm M C now timestamps window_mins =
     (if length timestamps < 2 then Inr (Num 0)
      else case minus_seconds C now (window_seconds window_mins) of
        None \<Rightarrow> Inl DateTimeOverflow
      | Some cutoff \<Rightarrow>
          let ages = map (age_mins C now) (filter (\<lambda>ts. dt_le C cutoff ts) timestamps)
          in if length ages < 2 then Inr (Num 0)
             else Inr (fdiv F32 (weighted_count M ages) (span_mins ages)))"

definition velocity_compute :: "libm \<Rightarrow> 'd chrono \<Rightarrow> 'd \<Rightarrow> 'd list \<Rightarrow> fp \<Rightarrow> fp \<Rightarrow> fp run" where
  "velocity_compute M C now timestamps window_mins rpm_max =
     map_run (\<lambda>rpm. fclamp (fdiv F32 rpm rpm_max) (Num 0) (Num 1))
       (weighted_rpm M C now timestamps window_mins)"

section \<open>The score under the contracts of the clock and the mathematical library\<close>

lemma eval_1_60: "fdiv F32 (Num 1) (Num 60) = Num (8947849 / 536870912)"
  by (simp add: fp_eval)

locale velocity_env = libm_laws M + chrono_laws C for M :: libm and C :: "'d chrono"
begin

lemma seconds_fin:
  "frange (- (2 ^ 63)) (2 ^ 63) (fof_int F32 (num_seconds C now ts))"
proof -
  let ?n = "of_int (num_seconds C now ts) :: real"
  have "\<bar>num_seconds C now ts\<bar> \<le> 2 ^ 63" using seconds_i64 [of now ts] by linarith
  then have "\<bar>?n\<bar> \<le> of_int (2 ^ 63)" by (metis of_int_abs of_int_le_iff)
  then have n: "\<bar>?n\<bar> \<le> 2 ^ 63" by simp
  then have "\<bar>rnd F32 ?n\<bar> \<le> 2 ^ 63" by (rule f32.rnd_bound_pow2)
  with n show ?thesis
    by (simp add: fof_int_def frange_def f32.fround_small abs_le_iff)
qed

lemma age_range: "frange (- (2 ^ 63)) (2 ^ 63) (age_mins C now ts)"
proof -
  let ?r = "fval (fof_int F32 (num_seconds C now ts)) / 60"
  have q: "\<bar>?r\<bar> \<le> 2 ^ 63" using seconds_fin [of now ts] by (auto simp: frange_def abs_le_iff)
  then have "\<bar>rnd F32 ?r\<bar> \<le> 2 ^ 63" by (rule f32.rnd_bound_pow2)
  with q seconds_fin [of now ts] show ?thesis
    by (simp add: age_mins_def fdiv_fin frange_def f32.fround_small abs_le_iff)
qed

lemma age_mono:
  assumes "num_seconds C now b \<le> num_seconds C now a"
  shows "fle (age_mins C now b) (age_mins C now a)"
proof -
  have "fle (fof_int F32 (num_seconds C now b)) (fof_int F32 (num_seconds C now a))"
    unfolding fof_int_def using assms by (intro f32.fround_mono) simp
  then show ?thesis using seconds_fin [of now a] seconds_fin [of now b]
    by (simp add: frange_def age_mins_def fdiv_fin fle_fin f32.fround_mono divide_right_mono)
qed

lemma age_fin: "is_fin (age_mins C now ts)"
  using age_range by (simp add: frange_def)

lemma decay_nonneg: "fle (Num 0) (decay M (age_mins C now ts))"
  unfolding decay_def using age_fin [of now ts] by (intro e32.exp_nonneg) (simp add: fmul_fin)

lemma weighted_count_nonneg: "fle (Num 0) (weighted_count M (map (age_mins C now) ts))"
  unfolding weighted_count_def by (rule f32.fsum_nonneg) (auto simp: decay_nonneg)

lemma span_fin:
  assumes "ts \<noteq> []"
  shows "is_fin (span_mins (map (age_mins C now) ts))"
    and "8947849 / 536870912 \<le> fval (span_mins (map (age_mins C now) ts))"
proof -
  have "is_fin (fsub F32 (age_mins C now (hd ts)) (age_mins C now (last ts)))"
    using f32.frange_fsub [OF age_range [of now "hd ts"] age_range [of now "last ts"]]
    by (simp add: frange_def)
  then show "is_fin (span_mins (map (age_mins C now) ts))"
    "8947849 / 536870912 \<le> fval (span_mins (map (age_mins C now) ts))"
    using assms fmax_fin [of _ "fdiv F32 (Num 1) (Num 60)"]
    by (simp_all add: span_mins_def hd_map last_map eval_1_60)
qed

lemma weighted_rpm_cases:
  assumes "weighted_rpm M C now ts w = Inr r"
  obtains "r = Num 0"
  | c us where "minus_seconds C now (window_seconds w) = Some c" "us = filter (dt_le C c) ts"
      "2 \<le> length us"
      "r = fdiv F32 (weighted_count M (map (age_mins C now) us)) (span_mins (map (age_mins C now) us))"
  using assms by (auto simp: weighted_rpm_def Let_def split: if_splits option.splits)

lemma weighted_rpm_nonneg:
  assumes "weighted_rpm M C now ts w = Inr r" shows "fle (Num 0) r"
  using assms
proof (cases rule: weighted_rpm_cases)
  case (2 c us)
  then have "us \<noteq> []" by auto
  with span_fin [OF this, of now] 2 show ?thesis
    by (auto intro!: f32.fdiv_nonneg weighted_count_nonneg)
qed simp

lemma velocity_range:
  assumes "velocity_compute M C now ts w rmax = Inr v" "is_fin rmax" "0 < fval rmax"
  shows "unit_score v"
proof -
  obtain r where r: "weighted_rpm M C now ts w = Inr r" "v = fclamp (fdiv F32 r rmax) (Num 0) (Num 1)"
    using assms(1) by (auto simp: velocity_compute_def)
  have "fle (Num 0) (fdiv F32 r rmax)"
    using assms weighted_rpm_nonneg [OF r(1)] by (intro f32.fdiv_nonneg)
  then show ?thesis using r by (auto intro!: frange_fclamp dest: fle_not_NaN)
qed

lemma decay_mono:
  assumes "num_seconds C now b \<le> num_seconds C now a"
  shows "fle (decay M (age_mins C now a)) (decay M (age_mins C now b))"
proof -
  have "fle (fmul F32 (fneg (Num 1)) (age_mins C now a)) (fmul F32 (fneg (Num 1)) (age_mins C now b))"
    using age_mono [OF assms] by (simp add: fmul_fin age_fin fle_fin f32.fround_mono)
  then show ?thesis unfolding decay_def by (rule e32.exp_mono)
qed

lemma weighted_count_mono:
  assumes "list_all2 (\<lambda>a b. num_seconds C now b \<le> num_seconds C now a) us vs"
  shows "fle (weighted_count M (map (age_mins C now) us)) (weighted_count M (map (age_mins C now) vs))"
  unfolding weighted_count_def
proof (rule f32.fsum_mono)
  show "list_all2 fle (map (decay M) (map (age_mins C now) us)) (map (decay M) (map (age_mins C now) vs))"
    using assms by (simp add: list_all2_conv_all_nth decay_mono)
qed (auto simp: decay_nonneg)

lemma weighted_rpm_decay:
  assumes cut: "minus_seconds C now (window_seconds w) = Some c"
    and inw: "\<forall>t \<in> set us \<union> set vs. dt_le C c t" and len: "2 \<le> length us"
    and older: "list_all2 (\<lambda>a b. num_seconds C now b \<le> num_seconds C now a) us vs"
    and span: "span_mins (map (age_mins C now) us) = span_mins (map (age_mins C now) vs)"
  obtains r s where "weighted_rpm M C now us w = Inr r" "weighted_rpm M C now vs w = Inr s" "fle r s"
proof -
  have filt: "filter (dt_le C c) us = us" "filter (dt_le C c) vs = vs"
    using inw by (simp_all add: filter_id_conv)
  have lv: "length vs = length us" using older by (simp add: list_all2_lengthD)
  let ?W = "\<lambda>ts. weighted_count M (map (age_mins C now) ts)"
  let ?S = "\<lambda>ts. span_mins (map (age_mins C now) ts)"
  have eq: "weighted_rpm M C now us w = Inr (fdiv F32 (?W us) (?S us))"
    "weighted_rpm M C now vs w = Inr (fdiv F32 (?W vs) (?S vs))"
    using cut len lv filt by (simp_all add: weighted_rpm_def Let_def not_less)
  have ne: "vs \<noteq> []" using len lv by auto
  have "fle (fdiv F32 (?W us) (?S us)) (fdiv F32 (?W vs) (?S vs))"
    unfolding span using span_fin [OF ne, of now] older
    by (intro f32.fdiv_mono weighted_count_mono weighted_count_nonneg) auto
  with eq that show ?thesis by blast
qed

lemma weighted_rpm_window:
  assumes "minus_seconds C now (window_seconds w) = Some c"
  shows "weighted_rpm M C now (filter (dt_le C c) ts) w = weighted_rpm M C now ts w"
proof (cases "length ts < 2")
  case True
  then have "length (filter (dt_le C c) ts) < 2" using length_filter_le le_less_trans by blast
  with True show ?thesis by (simp add: weighted_rpm_def)
qed (use assms in \<open>auto simp: weighted_rpm_def Let_def\<close>)

section \<open>Bursts\<close>

lemma age_zero: "num_seconds C now t = 0 \<Longrightarrow> age_mins C now t = Num 0"
  by (simp add: age_mins_def fp_eval)

lemma decay_zero: "decay M (Num 0) = Num 1"
  by (simp add: decay_def fmul_def e32.exp_zero fround_def pack_def zero_sign_def f32.no_overflow)

lemma fsum_ones: "fle (Num 2) (fsum F32 (replicate (Suc (Suc n)) (Num 1)))"
proof (induction n)
  case 0
  show ?case by (simp add: fsum_def fp_eval)
next
  case (Suc n)
  let ?s = "fsum F32 (replicate (Suc (Suc n)) (Num 1))"
  have "fle (Num 0) (fadd F32 ?s (Num 1))"
    using f32.fsum_nonneg [of "replicate (Suc (Suc n)) (Num 1)"] fle_trans
    by (intro f32.fadd_nonneg) (auto simp: fle_def)
  then have nn: "fadd F32 ?s (Num 1) \<noteq> NaN" by (rule fle_not_NaN)
  have two: "fadd F32 (Num 2) (Num 0) = Num 2" by (simp add: fp_eval)
  have "fle (fadd F32 (Num 2) (Num 0)) (fadd F32 ?s (Num 1))"
    using Suc nn two by (intro f32.fadd_mono) (auto simp: fle_def)
  moreover have "replicate (Suc (Suc (Suc n))) (Num 1) = replicate (Suc (Suc n)) (Num 1) @ [Num 1]"
    by (simp add: replicate_append_same)
  ultimately show ?case using two by (metis fsum_snoc)
qed

lemma burst_saturates:
  assumes cut: "minus_seconds C now (window_seconds w) = Some c" and w: "0 \<le> window_seconds w"
    and burst: "2 \<le> length ts" "\<forall>t \<in> set ts. num_seconds C now t = 0 \<and> dt_le C c t"
    and rmax: "is_fin rmax" "0 < fval rmax" "fval rmax \<le> 100"
  shows "velocity_compute M C now ts w rmax = Inr (Num 1)"
proof -
  obtain n where n: "length ts = Suc (Suc n)"
    using burst(1) by (metis Suc_le_D numeral_2_eq_2 Suc_le_mono)
  have ages: "map (age_mins C now) ts = replicate (Suc (Suc n)) (Num 0)"
    using burst n by (intro nth_equalityI) (auto simp: age_zero simp del: replicate.simps)
  have filt: "filter (dt_le C c) ts = ts" using burst by (simp add: filter_id_conv)
  have wc: "weighted_count M (replicate (Suc (Suc n)) (Num 0)) = fsum F32 (replicate (Suc (Suc n)) (Num 1))"
    by (simp only: weighted_count_def map_replicate decay_zero)
  have sp: "span_mins (replicate (Suc (Suc n)) (Num 0)) = Num (8947849 / 536870912)"
    by (simp add: span_mins_def eval_1_60) (simp add: fp_eval)
  let ?r = "fdiv F32 (fsum F32 (replicate (Suc (Suc n)) (Num 1))) (Num (8947849 / 536870912))"
  have r: "weighted_rpm M C now ts w = Inr ?r"
    using burst cut filt ages wc sp by (simp add: weighted_rpm_def Let_def not_less del: replicate.simps)
  have "fle (fdiv F32 (Num 2) (Num (8947849 / 536870912))) ?r"
    by (rule f32.fdiv_mono [OF fsum_ones]) (simp_all add: fle_def)
  then have big: "fle (Num 100) ?r"
    by (rule fle_trans [rotated]) (simp add: fp_eval)
  have "fle (fdiv F32 (Num 100) rmax) (fdiv F32 ?r rmax)"
    using big rmax by (intro f32.fdiv_mono) (auto simp: fle_def)
  moreover have "fle (Num 1) (fdiv F32 (Num 100) rmax)"
    using f32.fround_mono [of 1 "100 / fval rmax" False] rmax by (simp add: fdiv_fin)
  ultimately have "fle (Num 1) (fdiv F32 ?r rmax)" by (rule fle_trans [rotated])
  then have "fclamp (fdiv F32 ?r rmax) (Num 0) (Num 1) = Num 1"
    by (cases "fdiv F32 ?r rmax") (auto simp: fclamp_def flt_def fle_def)
  with r show ?thesis by (simp add: velocity_compute_def)
qed

end

interpretation env: velocity_env cr_libm chrono_ns
  by unfold_locales


section \<open>Properties\<close>

text \<open>
  C17. The V-Score is a number of \<open>[0, 1]\<close> for every list of timestamps, ordered or not, in the
  past or in the future, whenever the normalising rate is a positive number and the clock
  arithmetic does not panic.
\<close>

theorem velocity_in_unit_interval:
  assumes "libm_laws M" "chrono_laws C" "velocity_compute M C now ts w rmax = Inr v"
    and "is_fin rmax" "0 < fval rmax"
  shows "unit_score v"
  using velocity_env.velocity_range [OF velocity_env.intro [OF assms(1,2)] assms(3-5)] .

text \<open>
  A burst inside one second saturates the V-Score: two or more requests whose age rounds
  to zero seconds score exactly 1 for every \<open>max_rpm\<close> up to 100, because the span is floored at
  one second.
\<close>

theorem burst_scores_one:
  assumes "libm_laws M" "chrono_laws C"
    and "minus_seconds C now (window_seconds w) = Some c" "0 \<le> window_seconds w"
    and "2 \<le> length ts" "\<forall>t \<in> set ts. num_seconds C now t = 0 \<and> dt_le C c t"
    and "is_fin rmax" "0 < fval rmax" "fval rmax \<le> 100"
  shows "velocity_compute M C now ts w rmax = Inr (Num 1)"
  using velocity_env.burst_saturates [OF velocity_env.intro [OF assms(1,2)] assms(3-9)] .

lemma window_seconds_5: "window_seconds (Num 5) = 300"
  by (simp add: window_seconds_def fp_eval)

theorem burst_scores_one_witness:
  "velocity_compute cr_libm chrono_ns (10 ^ 12) [10 ^ 12 - 5, 10 ^ 12] (Num 5) (Num 30) = Inr (Num 1)"
  by (rule burst_scores_one [OF cr.libm_laws_axioms ns.chrono_laws_axioms, where c = "10 ^ 12 - 300 * 10 ^ 9"])
    (simp_all add: window_seconds_5 chrono_ns_def max_instant_def quot_def)

theorem velocity_in_unit_interval_witness: "unit_score (Num 1)"
proof (rule velocity_in_unit_interval [OF cr.libm_laws_axioms ns.chrono_laws_axioms])
  show "velocity_compute cr_libm chrono_ns (10 ^ 12) [10 ^ 12 - 5, 10 ^ 12] (Num 5) (Num 30) = Inr (Num 1)"
    by (rule env.burst_saturates [where c = "10 ^ 12 - 300 * 10 ^ 9"])
      (simp_all add: window_seconds_5 chrono_ns_def max_instant_def quot_def)
qed simp_all

text \<open>
  The rate decays with age: the same number of requests over the same span, each at least
  as old, never has a higher weighted rate.
\<close>

theorem older_requests_weigh_less:
  assumes "libm_laws M" "chrono_laws C"
    and "minus_seconds C now (window_seconds w) = Some c"
    and "\<forall>t \<in> set us \<union> set vs. dt_le C c t" "2 \<le> length us"
    and "list_all2 (\<lambda>a b. num_seconds C now b \<le> num_seconds C now a) us vs"
    and "span_mins (map (age_mins C now) us) = span_mins (map (age_mins C now) vs)"
  shows "\<exists>r s. weighted_rpm M C now us w = Inr r \<and> weighted_rpm M C now vs w = Inr s \<and> fle r s"
  using velocity_env.weighted_rpm_decay [OF velocity_env.intro [OF assms(1,2)] assms(3-7)] by metis

theorem older_requests_weigh_less_witness:
  "\<exists>r s. weighted_rpm cr_libm chrono_ns (10 ^ 12) [10 ^ 12 - 120 * 10 ^ 9, 10 ^ 12 - 60 * 10 ^ 9] (Num 5) = Inr r \<and>
     weighted_rpm cr_libm chrono_ns (10 ^ 12) [10 ^ 12 - 60 * 10 ^ 9, 10 ^ 12] (Num 5) = Inr s \<and> fle r s"
  by (rule older_requests_weigh_less [OF cr.libm_laws_axioms ns.chrono_laws_axioms, where c = "10 ^ 12 - 300 * 10 ^ 9"])
    (simp_all add: window_seconds_5 chrono_ns_def max_instant_def quot_def span_mins_def age_mins_def fp_eval)

text \<open>
  Requests before the window do not count: dropping them from the list changes neither
  the rate nor whether the function panics.
\<close>

theorem window_forgets_old_requests:
  assumes "libm_laws M" "chrono_laws C" "minus_seconds C now (window_seconds w) = Some c"
  shows "velocity_compute M C now (filter (dt_le C c) ts) w rmax = velocity_compute M C now ts w rmax"
  using velocity_env.weighted_rpm_window [OF velocity_env.intro [OF assms(1,2)] assms(3)]
  by (simp add: velocity_compute_def)

theorem window_forgets_old_requests_witness:
  "velocity_compute cr_libm chrono_ns (10 ^ 12) [10 ^ 12] (Num 5) (Num 30) =
   velocity_compute cr_libm chrono_ns (10 ^ 12) [0, 10 ^ 12] (Num 5) (Num 30)"
  using window_forgets_old_requests [OF cr.libm_laws_axioms ns.chrono_laws_axioms,
      of "10 ^ 12" "Num 5" "10 ^ 12 - 300 * 10 ^ 9" "[0, 10 ^ 12]" "Num 30"]
  by (simp add: window_seconds_5 chrono_ns_def max_instant_def)

text \<open>
  \<open>max_rpm = 0\<close> passes the validation and makes the V-Score of every session with fewer
  than two requests NaN (it is 0/0), and with it the hybrid score.
\<close>

theorem zero_max_rpm_is_NaN:
  assumes "validate c = Inr ()" "length ts < 2"
  shows "validate (c\<lparr>scoring := (scoring c)\<lparr>max_rpm := Num 0\<rparr>\<rparr>) = Inr () \<and>
    velocity_compute M C now ts w (Num 0) = Inr NaN \<and> compute_hybrid NaN d e a (scoring c) = NaN"
  using assms
  by (simp add: validate_Inr bad_weights_def weight_sum_def velocity_compute_def weighted_rpm_def
      fdiv_def compute_hybrid_NaN)

theorem zero_max_rpm_is_NaN_witness:
  "velocity_compute cr_libm chrono_ns 0 [0] (Num 5) (Num 0) = Inr NaN"
proof -
  have "validate (default_config ''r'' ''d'' ''k'') = Inr ()"
    by (simp add: validate_Inr default_config_def bad_weights_def weight_sum_default bad_ratio_def fp_eval)
  from zero_max_rpm_is_NaN [OF this, of "[0]" cr_libm chrono_ns 0 "Num 5"] show ?thesis by simp
qed

end
