(* ===== verification/Divergence.thy ===== *)
theory Divergence
  imports Scoring
begin

text \<open>
  \<open>engine/src/scoring/divergence.rs\<close>: the D-Score, the clamped cosine similarity of two
  embeddings. \<open>cosine_similarity_in\<close> is the function over an arithmetic; the code's is
  \<open>cosine_similarity\<close>, over \<open>F32\<close>.
\<close>

definition f32_epsilon :: fp where
  "f32_epsilon = Num (1 / 2 ^ 23)"

definition dot :: "arith \<Rightarrow> fp list \<Rightarrow> fp list \<Rightarrow> fp" where
  "dot F a b = fsum F (map (\<lambda>(x, y). fmul F x y) (zip a b))"

definition norm2 :: "arith \<Rightarrow> fp list \<Rightarrow> fp" where
  "norm2 F a = fsqrt F (fsum F (map (\<lambda>x. fmul F x x) a))"

definition cosine_similarity_in :: "arith \<Rightarrow> fp list \<Rightarrow> fp list \<Rightarrow> fp" where
  "cosine_similarity_in F a b =
     (let denom = fmul F (norm2 F a) (norm2 F b)
      in if flt denom f32_epsilon then Num 0
         else fclamp (fdiv F (dot F a b) denom) (Num 0) (Num 1))"

definition cosine_similarity :: "fp list \<Rightarrow> fp list \<Rightarrow> fp" where
  "cosine_similarity = cosine_similarity_in F32"

text \<open>\<open>debug\<close> tells a debug build, in which \<open>debug_assert_eq!\<close> is checked.\<close>

definition divergence_compute :: "bool \<Rightarrow> fp list \<Rightarrow> fp list \<Rightarrow> fp run" where
  "divergence_compute debug current previous =
     (if debug \<and> length current \<noteq> length previous then Inl AssertFailed
      else if current = [] \<or> previous = [] then Inr (Num 0)
      else Inr (cosine_similarity current previous))"

section \<open>Symmetry and NaN\<close>

lemma dot_comm: "dot F a b = dot F b a"
proof -
  have "map (\<lambda>(x, y). fmul F x y) (zip a b) = map (\<lambda>(x, y). fmul F x y) (zip b a)"
    by (rule nth_equalityI) (simp_all add: min.commute fmul_comm)
  then show ?thesis by (simp add: dot_def)
qed

lemma cosine_comm: "cosine_similarity_in F a b = cosine_similarity_in F b a"
  by (simp add: cosine_similarity_in_def Let_def dot_comm [of F a] fmul_comm [of F "norm2 F a"])

lemma foldl_fadd_NaN: "foldl (fadd F) NaN xs = NaN"
  by (induction xs) simp_all

lemma fsum_NaN: "NaN \<in> set xs \<Longrightarrow> fsum F xs = NaN"
proof -
  assume "NaN \<in> set xs"
  then obtain ys zs where "xs = ys @ NaN # zs" by (meson split_list)
  then show ?thesis by (simp add: fsum_def foldl_fadd_NaN)
qed

lemma norm2_NaN: "NaN \<in> set a \<Longrightarrow> norm2 F a = NaN"
proof -
  assume "NaN \<in> set a"
  then have "NaN \<in> set (map (\<lambda>x. fmul F x x) a)" by force
  then show ?thesis by (simp add: norm2_def fsum_NaN)
qed

lemma cosine_NaN: "NaN \<in> set a \<Longrightarrow> cosine_similarity_in F a b = NaN"
  by (simp add: cosine_similarity_in_def norm2_NaN)

section \<open>Range over f32\<close>

text \<open>
  Components of an embedding are far below \<open>2 ^ 10\<close> and there are far fewer than \<open>2 ^ 14\<close> of
  them; within these bounds no intermediate result overflows.
\<close>

definition embedding :: "fp list \<Rightarrow> bool" where
  "embedding a \<longleftrightarrow> length a \<le> 2 ^ 14 \<and> (\<forall>x \<in> set a. frange (- (2 ^ 10)) (2 ^ 10) x)"

context rounding
begin

lemma fsum_bound:
  assumes "\<forall>x \<in> set xs. frange (- (2 ^ 20)) (2 ^ 20) x" "length xs < 2 ^ 24"
  shows "frange (- (real (length xs) * 2 ^ 20)) (real (length xs) * 2 ^ 20) (fsum F xs)"
  using assms
proof (induction xs rule: rev_induct)
  case (snoc x xs)
  let ?n = "real (length xs) * 2 ^ 20" and ?m = "real (length (xs @ [x])) * 2 ^ 20"
  have ih: "frange (- ?n) ?n (fsum F xs)" "frange (- (2 ^ 20)) (2 ^ 20) x"
    using snoc by auto
  have m: "?n + 2 ^ 20 = ?m" by (simp add: algebra_simps)
  have "real (length (xs @ [x])) \<le> 2 ^ 24" using snoc.prems(2) by simp
  then have "?m \<le> 2 ^ 24 * 2 ^ 20" by (intro mult_right_mono) auto
  then have small: "?m \<le> 2 ^ 100" by simp
  have r: "rnd F ?m = ?m"
    using rnd_exact [of "int (length (xs @ [x]))" 20] snoc.prems(2) by (simp add: power_int_def)
  have m': "- ?n + - (2 ^ 20) = - ?m" by (simp add: algebra_simps)
  have "\<bar>- ?n + - (2 ^ 20)\<bar> \<le> 2 ^ 100" "\<bar>?n + 2 ^ 20\<bar> \<le> 2 ^ 100"
    unfolding m m' using small by simp_all
  from frange_fadd [OF ih this] show ?case
    unfolding m m' rnd_uminus r fsum_snoc .
qed simp

lemma frange_fmul_abs:
  assumes a: "frange (- p) p a" and b: "frange (- q) q b"
    and pq: "p * q \<le> 2 ^ 100" "rnd F (p * q) = p * q"
  shows "frange (- (p * q)) (p * q) (fmul F a b)"
proof -
  have fin: "is_fin a" "is_fin b" and le: "\<bar>fval a\<bar> \<le> p" "\<bar>fval b\<bar> \<le> q"
    using a b by (auto simp: frange_def)
  have "\<bar>fval a * fval b\<bar> \<le> p * q" unfolding abs_mult using le by (intro mult_mono) auto
  then show ?thesis
    using frange_fround [of "- (p * q)" "fval a * fval b" "p * q"] pq fin
    by (simp add: fmul_fin rnd_uminus abs_le_iff)
qed

lemma product_range:
  "frange (- (2 ^ 10)) (2 ^ 10) x \<Longrightarrow> frange (- (2 ^ 10)) (2 ^ 10) y \<Longrightarrow>
   frange (- (2 ^ 20)) (2 ^ 20) (fmul F x y)"
  using frange_fmul_abs [of "2 ^ 10" x "2 ^ 10" y] rnd_pow2 [of 20] by simp

lemmas product_range_num = product_range [simplified]

lemma fsum_short:
  assumes "\<forall>x \<in> set xs. frange (- (2 ^ 20)) (2 ^ 20) x" "length xs \<le> 2 ^ 14"
  shows "frange (- (2 ^ 34)) (2 ^ 34) (fsum F xs)"
proof -
  have "real (length xs) \<le> 2 ^ 14" using assms(2) by (metis of_nat_le_iff of_nat_numeral of_nat_power)
  then have "real (length xs) * 2 ^ 20 \<le> 2 ^ 34" by simp
  moreover have "frange (- (real (length xs) * 2 ^ 20)) (real (length xs) * 2 ^ 20) (fsum F xs)"
    using assms by (intro fsum_bound) auto
  ultimately show ?thesis by (elim frange_mono) auto
qed

lemma dot_range:
  assumes "embedding a" "embedding b" shows "frange (- (2 ^ 34)) (2 ^ 34) (dot F a b)"
  unfolding dot_def using assms
  by (intro fsum_short) (auto simp: embedding_def intro!: product_range_num dest: set_zip_leftD set_zip_rightD)

lemma fmul_self_nonneg: "is_fin x \<Longrightarrow> fle (Num 0) (fmul F x x)"
  by (simp add: fmul_fin fround_nonneg)

lemma squares_range:
  assumes "embedding a" shows "frange 0 (2 ^ 34) (fsum F (map (\<lambda>x. fmul F x x) a))"
proof -
  have "fle (Num 0) (fsum F (map (\<lambda>x. fmul F x x) a))"
    using assms by (intro fsum_nonneg) (auto simp: embedding_def frange_def fmul_self_nonneg)
  moreover have "frange (- (2 ^ 34)) (2 ^ 34) (fsum F (map (\<lambda>x. fmul F x x) a))"
    using assms by (intro fsum_short) (auto simp: embedding_def product_range_num)
  ultimately show ?thesis by (auto simp: frange_def fle_def)
qed

lemma fsqrt_range:
  assumes "frange 0 (2 ^ 34) s" shows "frange 0 (2 ^ 17) (fsqrt F s)"
proof (cases s)
  case (Num x)
  then have x: "0 \<le> x" "x \<le> 2 ^ 34" using assms by auto
  have "sqrt ((2::real) ^ 34) = 2 ^ 17" by (rule real_sqrt_unique) simp_all
  then have "0 \<le> sqrt x" "sqrt x \<le> 2 ^ 17" using x by (metis real_sqrt_ge_zero, metis real_sqrt_le_iff)
  then have "frange (rnd F 0) (rnd F (2 ^ 17)) (fround F False (sqrt x))"
    by (intro frange_fround) auto
  then show ?thesis
    using Num x rnd_pow2 [of 17] by (simp add: fround_def rnd_sqrt_correct)
qed (use assms in auto)

lemma norm2_range: "embedding a \<Longrightarrow> frange 0 (2 ^ 17) (norm2 F a)"
  unfolding norm2_def by (intro fsqrt_range squares_range)

lemma cosine_range:
  assumes "embedding a" "embedding b"
  shows "frange 0 1 (cosine_similarity_in F a b)"
proof -
  let ?d = "fmul F (norm2 F a) (norm2 F b)"
  have d: "is_fin ?d"
    using frange_fmul_nonneg [OF norm2_range norm2_range, OF assms] by (simp add: frange_def)
  have "is_fin (dot F a b)" using dot_range [OF assms] by (simp add: frange_def)
  then have "fdiv F (dot F a b) ?d \<noteq> NaN" if "\<not> flt ?d f32_epsilon"
    using that d by (auto simp: f32_epsilon_def flt_fin fdiv_fin)
  then show ?thesis
    by (auto simp: cosine_similarity_in_def Let_def intro!: frange_fclamp)
qed

lemma cosine_zero:
  assumes "\<forall>x \<in> set a. is_fin x \<and> fval x = 0" "embedding b"
  shows "cosine_similarity_in F a b = Num 0"
proof -
  have z: "\<forall>x \<in> set (map (\<lambda>x. fmul F x x) a). x = Num 0 \<or> x = NZero"
    using assms(1) by (auto simp: fmul_fin zero_sign_def)
  have "fsum F xs = Num 0" if "\<forall>x \<in> set xs. x = Num 0 \<or> x = NZero" for xs
    using that by (induction xs rule: rev_induct) (auto simp: fadd_def zero_sign_def)
  with z have "norm2 F a = Num 0"
    using no_overflow [of 0] rnd_sqrt_correct [of 0 F] by (simp add: norm2_def pack_def zero_sign_def)
  moreover have "is_fin (norm2 F b)" using norm2_range [OF assms(2)] by (simp add: frange_def)
  ultimately have "fmul F (norm2 F a) (norm2 F b) \<in> {Num 0, NZero}"
    by (simp add: fmul_fin zero_sign_def)
  then show ?thesis by (auto simp: cosine_similarity_in_def f32_epsilon_def flt_def fle_def)
qed

end

section \<open>The textbook cosine\<close>

lemma fadd_Exact: "is_fin a \<Longrightarrow> is_fin b \<Longrightarrow> is_fin (fadd Exact a b) \<and> fval (fadd Exact a b) = fval a + fval b"
  by (simp add: fadd_fin fround_def pack_def zero_sign_def)

lemma fmul_Exact: "is_fin a \<Longrightarrow> is_fin b \<Longrightarrow> is_fin (fmul Exact a b) \<and> fval (fmul Exact a b) = fval a * fval b"
  by (simp add: fmul_fin fround_def pack_def zero_sign_def)

lemma fdiv_Exact: "is_fin a \<Longrightarrow> is_fin b \<Longrightarrow> fval b \<noteq> 0 \<Longrightarrow>
  is_fin (fdiv Exact a b) \<and> fval (fdiv Exact a b) = fval a / fval b"
  by (simp add: fdiv_fin fround_def pack_def zero_sign_def)

lemma fsqrt_Exact: "is_fin a \<Longrightarrow> 0 \<le> fval a \<Longrightarrow> is_fin (fsqrt Exact a) \<and> fval (fsqrt Exact a) = sqrt (fval a)"
  by (cases a) (simp_all add: pack_def zero_sign_def)

lemma fsum_Exact:
  "\<forall>x \<in> set xs. is_fin x \<Longrightarrow> is_fin (fsum Exact xs) \<and> fval (fsum Exact xs) = sum_list (map fval xs)"
  by (induction xs rule: rev_induct) (simp_all add: fadd_Exact)

definition real_dot :: "fp list \<Rightarrow> fp list \<Rightarrow> real" where
  "real_dot a b = (\<Sum>(x, y) \<leftarrow> zip a b. fval x * fval y)"

lemma dot_Exact:
  assumes "\<forall>x \<in> set a. is_fin x" "\<forall>x \<in> set b. is_fin x"
  shows "is_fin (dot Exact a b) \<and> fval (dot Exact a b) = real_dot a b"
proof -
  have fin: "\<forall>(x, y) \<in> set (zip a b). is_fin x \<and> is_fin y"
    using assms by (auto dest: set_zip_leftD set_zip_rightD)
  then have eq: "map fval (map (\<lambda>(x, y). fmul Exact x y) (zip a b)) = map (\<lambda>(x, y). fval x * fval y) (zip a b)"
    by (auto simp: fmul_Exact)
  show ?thesis
    using fsum_Exact [of "map (\<lambda>(x, y). fmul Exact x y) (zip a b)"] fin fmul_Exact
    unfolding eq dot_def real_dot_def by fastforce
qed

lemma real_dot_self: "real_dot a a = (\<Sum>x \<leftarrow> a. (fval x)\<^sup>2)"
  unfolding real_dot_def by (induction a) (simp_all add: power2_eq_square)

lemma norm2_Exact:
  assumes "\<forall>x \<in> set a. is_fin x"
  shows "is_fin (norm2 Exact a) \<and> fval (norm2 Exact a) = sqrt (real_dot a a)"
proof -
  have "map fval (map (\<lambda>x. fmul Exact x x) a) = map (\<lambda>x. (fval x)\<^sup>2) a"
    using assms by (simp add: fmul_Exact power2_eq_square)
  moreover have "\<forall>x \<in> set (map (\<lambda>x. fmul Exact x x) a). is_fin x"
    using assms by (simp add: fmul_Exact)
  ultimately have "is_fin (fsum Exact (map (\<lambda>x. fmul Exact x x) a))"
    "fval (fsum Exact (map (\<lambda>x. fmul Exact x x) a)) = real_dot a a"
    using fsum_Exact [of "map (\<lambda>x. fmul Exact x x) a"] by (simp_all only: real_dot_self)
  moreover have "0 \<le> real_dot a a" unfolding real_dot_self by (intro sum_list_nonneg) auto
  ultimately show ?thesis by (simp add: norm2_def fsqrt_Exact)
qed

lemma real_dot_nonneg: "0 \<le> real_dot a a"
  unfolding real_dot_self by (intro sum_list_nonneg) auto

lemma square_sum_step:
  fixes S A B x y :: real
  assumes "S\<^sup>2 \<le> A * B" "0 \<le> A" "0 \<le> B"
  shows "(x * y + S)\<^sup>2 \<le> (x\<^sup>2 + A) * (y\<^sup>2 + B)"
proof -
  have "(2 * S * x * y)\<^sup>2 = 4 * (S\<^sup>2 * (x\<^sup>2 * y\<^sup>2))" by (simp add: power2_eq_square algebra_simps)
  also have "\<dots> \<le> 4 * ((A * B) * (x\<^sup>2 * y\<^sup>2))"
    using assms(1) by (intro mult_left_mono mult_right_mono) auto
  also have "\<dots> \<le> (A * y\<^sup>2 + B * x\<^sup>2)\<^sup>2"
    using zero_le_power2 [of "A * y\<^sup>2 - B * x\<^sup>2"] by (simp add: power2_eq_square algebra_simps)
  finally have "2 * S * x * y \<le> A * y\<^sup>2 + B * x\<^sup>2"
    by (rule power2_le_imp_le) (use assms in simp)
  then show ?thesis using assms(1) by (simp add: power2_eq_square algebra_simps)
qed

lemma real_dot_Cauchy_Schwarz: "(real_dot a b)\<^sup>2 \<le> real_dot a a * real_dot b b"
proof (induction a b rule: list_induct2')
  case (4 x xs y ys)
  then show ?case
    using square_sum_step [of "real_dot xs ys" "real_dot xs xs" "real_dot ys ys" "fval x" "fval y"]
      real_dot_nonneg [of xs] real_dot_nonneg [of ys]
    by (simp add: real_dot_def power2_eq_square)
qed (simp_all add: real_dot_def)

lemma cosine_Exact:
  assumes fin: "\<forall>x \<in> set a. is_fin x" "\<forall>x \<in> set b. is_fin x"
    and d: "1 / 2 ^ 23 \<le> sqrt (real_dot a a) * sqrt (real_dot b b)"
  shows "is_fin (cosine_similarity_in Exact a b)"
    and "fval (cosine_similarity_in Exact a b) =
           max 0 (real_dot a b / (sqrt (real_dot a a) * sqrt (real_dot b b)))"
proof -
  let ?D = "fmul Exact (norm2 Exact a) (norm2 Exact b)"
  let ?n = "sqrt (real_dot a a) * sqrt (real_dot b b)"
  have D: "is_fin ?D" "fval ?D = ?n"
    using norm2_Exact [OF fin(1)] norm2_Exact [OF fin(2)] fmul_Exact by simp_all
  have "(0::real) < 1 / 2 ^ 23" by simp
  with d have pos: "0 < ?n" by linarith
  have nl: "\<not> flt ?D f32_epsilon" using D d by (simp add: f32_epsilon_def flt_fin)
  let ?q = "fdiv Exact (dot Exact a b) ?D"
  have q: "is_fin ?q" "fval ?q = real_dot a b / ?n"
    using fdiv_Exact [OF conjunct1 [OF dot_Exact [OF fin]] D(1)] dot_Exact [OF fin] pos
    unfolding D(2) by (metis less_irrefl)+
  have "?n\<^sup>2 = real_dot a a * real_dot b b"
    by (simp only: power_mult_distrib real_sqrt_pow2 real_dot_nonneg)
  then have "(real_dot a b)\<^sup>2 \<le> ?n\<^sup>2" using real_dot_Cauchy_Schwarz [of a b] by (simp only:)
  then have "real_dot a b \<le> ?n" by (rule power2_le_imp_le) (rule less_imp_le [OF pos])
  then have "fval ?q \<le> 1" unfolding q(2) pos_divide_le_eq [OF pos] by (simp only: mult_1)
  then show "is_fin (cosine_similarity_in Exact a b)"
    "fval (cosine_similarity_in Exact a b) = max 0 (real_dot a b / ?n)"
    using q(1) nl unfolding q(2) [symmetric] cosine_similarity_in_def Let_def
    by (simp_all add: fclamp_def flt_fin max_def)
qed

lemma cosine_Exact_small:
  assumes fin: "\<forall>x \<in> set a. is_fin x" "\<forall>x \<in> set b. is_fin x"
    and d: "sqrt (real_dot a a) * sqrt (real_dot b b) < 1 / 2 ^ 23"
  shows "is_fin (cosine_similarity_in Exact a b)" and "fval (cosine_similarity_in Exact a b) = 0"
proof -
  let ?D = "fmul Exact (norm2 Exact a) (norm2 Exact b)"
  have D: "is_fin ?D" "fval ?D = sqrt (real_dot a a) * sqrt (real_dot b b)"
    using norm2_Exact [OF fin(1)] norm2_Exact [OF fin(2)] fmul_Exact by simp_all
  have "flt ?D f32_epsilon" using D d by (simp add: f32_epsilon_def flt_fin)
  then show "is_fin (cosine_similarity_in Exact a b)" "fval (cosine_similarity_in Exact a b) = 0"
    by (simp_all add: cosine_similarity_in_def Let_def)
qed


section \<open>Properties\<close>

text \<open>
  C19. The D-Score of two embeddings is a number of \<open>[0, 1]\<close>: over \<open>f32\<close>, no intermediate
  result overflows and the quotient is never 0/0, thanks to the epsilon test.
\<close>

theorem divergence_in_unit_interval:
  assumes "divergence_compute debug a b = Inr s" "embedding a" "embedding b"
  shows "unit_score s"
  using assms f32.cosine_range [OF assms(2,3)]
  by (auto simp: divergence_compute_def cosine_similarity_def split: if_splits)

theorem divergence_in_unit_interval_witness:
  "unit_score (cosine_similarity [Num 1, Num 0] [Num 1, Num (1 / 2)])"
  by (rule divergence_in_unit_interval [of True "[Num 1, Num 0]" "[Num 1, Num (1 / 2)]"])
    (simp_all add: divergence_compute_def embedding_def)

text \<open>
  C18. Without rounding, the function is the textbook cosine similarity with negative values raised
  to zero (the upper clamp is never active, by Cauchy and Schwarz), except that embeddings whose
  norms multiply to less than \<open>f32::EPSILON\<close> score 0 whatever their angle.
\<close>

theorem divergence_is_the_cosine:
  assumes "\<forall>x \<in> set a. is_fin x" "\<forall>x \<in> set b. is_fin x"
  shows "is_fin (cosine_similarity_in Exact a b) \<and>
    fval (cosine_similarity_in Exact a b) =
      (if sqrt (real_dot a a) * sqrt (real_dot b b) < 1 / 2 ^ 23 then 0
       else max 0 (real_dot a b / (sqrt (real_dot a a) * sqrt (real_dot b b))))"
  using cosine_Exact [OF assms] cosine_Exact_small [OF assms] by (metis not_less)

theorem divergence_is_the_cosine_witness:
  "fval (cosine_similarity_in Exact [Num 3, Num 4] [Num 4, Num 3]) = 24 / 25 \<and>
   fval (cosine_similarity_in Exact [Num 0, Num 1] [Num 0, Num (1 / 2 ^ 30)]) = 0"
proof
  let ?a = "[Num 3, Num 4]" and ?b = "[Num 4, Num 3]"
  have d: "real_dot ?a ?a = 25" "real_dot ?b ?b = 25" "real_dot ?a ?b = 24"
    by (simp_all add: real_dot_def)
  have q: "sqrt 25 * sqrt 25 = (25 :: real)" by simp
  have fin: "\<forall>x \<in> set ?a. is_fin x" "\<forall>x \<in> set ?b. is_fin x" by auto
  have m: "(if (25 :: real) < 1 / 2 ^ 23 then 0 else max 0 (24 / 25)) = (24 / 25 :: real)" by simp
  show "fval (cosine_similarity_in Exact ?a ?b) = 24 / 25"
    using conjunct2 [OF divergence_is_the_cosine [OF fin]] unfolding d q m .
  let ?c = "[Num 0, Num 1]" and ?d = "[Num 0, Num (1 / 2 ^ 30)]"
  have fin': "\<forall>x \<in> set ?c. is_fin x" "\<forall>x \<in> set ?d. is_fin x" by auto
  have "real_dot ?c ?c = 1" "real_dot ?d ?d = (1 / 2 ^ 30) * (1 / 2 ^ 30)" by (simp_all add: real_dot_def)
  moreover have "sqrt ((1 / 2 ^ 30) * (1 / 2 ^ 30)) = (1 / 2 ^ 30 :: real)" by (rule real_sqrt_unique) (simp_all add: power2_eq_square)
  moreover have "sqrt 1 * (1 / 2 ^ 30) < (1 / 2 ^ 23 :: real)" by simp
  ultimately show "fval (cosine_similarity_in Exact ?c ?d) = 0"
    using conjunct2 [OF divergence_is_the_cosine [OF fin']] by (simp only: if_True)
qed

text \<open>
  The D-Score is symmetric in the two embeddings, bit for bit and panic for panic.
\<close>

theorem divergence_symmetric: "divergence_compute debug a b = divergence_compute debug b a"
  by (auto simp: divergence_compute_def cosine_similarity_def cosine_comm [of F32 a b])

text \<open>
  One NaN in an embedding makes the D-Score NaN: neither the epsilon test (its comparison
  is false) nor the clamp stops it.
\<close>

theorem divergence_NaN:
  assumes "NaN \<in> set a" "length b = length a"
  shows "divergence_compute debug a b = Inr NaN \<and> divergence_compute debug b a = Inr NaN"
  using assms cosine_NaN [OF assms(1), of F32] cosine_comm [of F32 b a]
  by (auto simp: divergence_compute_def cosine_similarity_def)

theorem divergence_NaN_witness:
  "divergence_compute True [Num 1, NaN] [Num 1, Num 1] = Inr NaN"
  using divergence_NaN [of "[Num 1, NaN]" "[Num 1, Num 1]" True] by simp

text \<open>
  A zero vector (a failed embedding) never raises the score: its similarity with anything
  is 0.
\<close>

theorem divergence_zero_vector:
  assumes "\<forall>x \<in> set a. is_fin x \<and> fval x = 0" "embedding b"
  shows "cosine_similarity a b = Num 0"
  using f32.cosine_zero [OF assms] by (simp add: cosine_similarity_def)

theorem divergence_zero_vector_witness: "cosine_similarity [Num 0, NZero] [Num 1, Num 2] = Num 0"
  by (rule divergence_zero_vector) (simp_all add: embedding_def)

end
