(* ===== verification/Entropy.thy ===== *)
theory Entropy
  imports Scoring Libm
begin

text \<open>
  \<open>engine/src/scoring/entropy.rs\<close>: the E-Score. The \<open>HashMap\<close> of bigram counts is a list of
  entries in order of first insertion; Rust leaves the order in which \<open>values()\<close> visits a map
  unspecified, so that order is the argument \<open>order\<close>, a rearrangement of the entries. The
  counters are \<open>u32\<close> and wrap, as they do in the release profile.
\<close>

type_synonym u32 = "32 word"

fun windows2 :: "'a list \<Rightarrow> ('a \<times> 'a) list" where
  "windows2 (x # y # zs) = (x, y) # windows2 (y # zs)"
| "windows2 _ = []"

definition bigrams :: "unicode \<Rightarrow> string \<Rightarrow> (string \<times> string) list" where
  "bigrams U prompt =
     map (\<lambda>(x, y). (to_lowercase U x, to_lowercase U y)) (windows2 (split_whitespace prompt))"

fun count_bigram :: "'k \<Rightarrow> ('k \<times> u32) list \<Rightarrow> ('k \<times> u32) list" where
  "count_bigram k [] = [(k, 1)]"
| "count_bigram k ((k', n) # freq) = (if k' = k then (k', n + 1) # freq else (k', n) # count_bigram k freq)"

definition count_all :: "'k list \<Rightarrow> ('k \<times> u32) list \<times> u32" where
  "count_all ks = foldl (\<lambda>(freq, tot) k. (count_bigram k freq, tot + 1)) ([], 0) ks"

definition history_tail :: "nat \<Rightarrow> 'a list \<Rightarrow> 'a list" where
  "history_tail window history =
     (if window < length history then drop (length history - window) history else history)"

definition fof_u32 :: "u32 \<Rightarrow> fp" where
  "fof_u32 n = fof_int F32 (uint n)"

definition entropy_term :: "libm \<Rightarrow> u32 \<Rightarrow> u32 \<Rightarrow> fp" where
  "entropy_term M tot cnt =
     (let p = fdiv F32 (fof_u32 cnt) (fof_u32 tot) in fmul F32 (fneg p) (log2_32 M p))"

definition entropy_score :: "libm \<Rightarrow> u32 list \<Rightarrow> u32 \<Rightarrow> fp" where
  "entropy_score M counts tot =
     (let entropy = fsum F32 (map (entropy_term M tot) counts);
          max_entropy = fmax (log2_32 M (fof_int F32 (int (length counts)))) (Num 1);
          normalised = fclamp (fdiv F32 entropy max_entropy) (Num 0) (Num 1)
      in fsub F32 (Num 1) normalised)"

type_synonym map_order = "((string \<times> string) \<times> u32) list \<Rightarrow> ((string \<times> string) \<times> u32) list"

definition inverse_bigram_entropy :: "libm \<Rightarrow> unicode \<Rightarrow> map_order \<Rightarrow> string list \<Rightarrow> nat \<Rightarrow> fp" where
  "inverse_bigram_entropy M U order history window =
     (if length history < 2 then Num 0
      else let (freq, tot) = count_all (concat (map (bigrams U) (history_tail window history)))
           in if tot = 0 then Num 0
              else entropy_score M (map snd (order freq)) tot)"

section \<open>Counting\<close>

text \<open>The entries are the distinct keys, each with its number of occurrences modulo \<open>2 ^ 32\<close>.\<close>

lemma keys_count_bigram: "map fst (count_bigram k freq) =
   (if k \<in> fst ` set freq then map fst freq else map fst freq @ [k])"
  by (induction k freq rule: count_bigram.induct) auto

lemma map_of_count_bigram:
  "map_of (count_bigram k freq) = (map_of freq)(k \<mapsto> (case map_of freq k of None \<Rightarrow> 1 | Some n \<Rightarrow> n + 1))"
  by (induction k freq rule: count_bigram.induct) (auto simp: fun_eq_iff)

lemma count_all_snoc:
  "count_all (ks @ [k]) = (count_bigram k (fst (count_all ks)), snd (count_all ks) + 1)"
  by (simp add: count_all_def split_def)

lemma count_all_Nil [simp]: "count_all [] = ([], 0)"
  by (simp add: count_all_def)

lemma count_all_total: "snd (count_all ks) = of_nat (length ks)"
  by (induction ks rule: rev_induct) (simp_all add: count_all_snoc)

lemma count_all_keys:
  "distinct (map fst (fst (count_all ks))) \<and> fst ` set (fst (count_all ks)) = set ks"
proof (induction ks rule: rev_induct)
  case (snoc k ks)
  let ?f = "fst (count_all ks)"
  have "set (map fst (count_bigram k ?f)) = insert k (set ks)"
    unfolding keys_count_bigram using snoc by auto
  moreover have "distinct (map fst (count_bigram k ?f))"
    unfolding keys_count_bigram using snoc by auto
  ultimately show ?case by (simp add: count_all_snoc)
qed simp

lemma count_all_map:
  "map_of (fst (count_all ks)) k = (if k \<in> set ks then Some (of_nat (count_list ks k)) else None)"
proof (induction ks arbitrary: k rule: rev_induct)
  case (snoc x ks)
  then show ?case by (auto simp: count_all_snoc map_of_count_bigram count_notin)
qed simp

lemma count_all_entry:
  "(k, n) \<in> set (fst (count_all ks)) \<Longrightarrow> k \<in> set ks \<and> n = of_nat (count_list ks k)"
  using count_all_keys [of ks] count_all_map [of ks k]
  by (metis (no_types, lifting) image_eqI fst_conv map_of_eq_Some_iff option.inject)

lemma count_all_nonempty: "ks \<noteq> [] \<Longrightarrow> fst (count_all ks) \<noteq> []"
  using count_all_keys [of ks] by auto

section \<open>Range\<close>

lemma fof_u32_range:
  assumes "1 \<le> uint n" shows "frange 1 (2 ^ 32) (fof_u32 n)" and "fval (fof_u32 n) = rnd F32 (of_int (uint n))"
proof -
  have n: "1 \<le> uint n" "uint n \<le> 2 ^ 32" using assms uint_lt2p [of n] by auto
  have "of_int 1 \<le> real_of_int (uint n)" "real_of_int (uint n) \<le> of_int (2 ^ 32)"
    using n by (simp_all only: of_int_le_iff)
  then have r: "1 \<le> real_of_int (uint n)" "real_of_int (uint n) \<le> 2 ^ 32" by simp_all
  then show "frange 1 (2 ^ 32) (fof_u32 n)"
    using f32.frange_fround [of 1 "of_int (uint n)" "2 ^ 32" False] f32.rnd_pow2 [of 32]
    by (simp add: fof_u32_def fof_int_def)
  show "fval (fof_u32 n) = rnd F32 (of_int (uint n))"
    unfolding fof_u32_def fof_int_def using r by (intro f32.fround_small) simp
qed

lemma frequency_range:
  assumes "1 \<le> uint c" "uint c \<le> uint t"
  shows "frange (2 powi (- 32)) 1 (fdiv F32 (fof_u32 c) (fof_u32 t))"
proof -
  have t1: "1 \<le> uint t" using assms by simp
  note c = fof_u32_range [OF assms(1)] and t = fof_u32_range [OF t1]
  let ?c = "fval (fof_u32 c)" and ?t = "fval (fof_u32 t)"
  have b: "1 \<le> ?c" "1 \<le> ?t" "?t \<le> 2 ^ 32" using c t by (auto simp: frange_def)
  have "?c \<le> ?t" unfolding c(2) t(2) using assms by (intro f32.rnd_mono) (simp only: of_int_le_iff)
  then have "?c / ?t \<le> 1" using b by simp
  moreover have "2 powi (- 32) \<le> ?c / ?t"
    using b frac_le [of 1 ?c ?t "2 ^ 32"] by (simp add: power_int_minus field_simps)
  ultimately have "frange (rnd F32 (2 powi (- 32))) (rnd F32 1) (fround F32 s (?c / ?t))" for s
    using powi_le_iff [of "- 32" 0] by (intro f32.frange_fround) (simp_all add: abs_of_pos)
  moreover have "rnd F32 (2 powi (- 32)) = 2 powi (- 32)" by (rule f32.rnd_pow2) simp
  moreover have "is_fin (fof_u32 c)" "is_fin (fof_u32 t)" "?t \<noteq> 0" using c t b by (auto simp: frange_def)
  ultimately show ?thesis by (metis fdiv_fin f32.rnd_1)
qed

context libm_laws
begin

lemma entropy_term_nonneg:
  assumes "1 \<le> uint c" "uint c \<le> uint t"
  shows "fle (Num 0) (entropy_term M t c)"
proof -
  let ?p = "fdiv F32 (fof_u32 c) (fof_u32 t)"
  have p: "frange (2 powi (- 32)) 1 ?p" using frequency_range [OF assms] .
  have "(2::real) powi (- 149) \<le> 2 powi (- 32)" by (simp add: powi_le_iff del: power_int_minus)
  then have p': "frange (2 powi (- 149)) 1 ?p" by (rule frange_mono [OF p]) simp
  have p0: "is_fin ?p" "0 \<le> fval ?p" using p powi_pos [of "- 32"] by (auto simp: frange_def)
  have "0 \<le> - fval ?p * fval (log2_32 M ?p)"
    using l32.log2_nonpos [OF p'] p0 by (simp add: mult_nonneg_nonpos)
  then show ?thesis
    using l32.log2_nonpos [OF p'] p0
    by (simp add: entropy_term_def Let_def fmul_fin f32.fround_nonneg)
qed

lemma entropy_score_range:
  assumes "cs \<noteq> []" "length cs \<le> 2 ^ 32" "\<forall>c \<in> set cs. 1 \<le> uint c \<and> uint c \<le> uint t"
  shows "unit_score (entropy_score M cs t)"
proof -
  let ?n = "fof_int F32 (int (length cs))"
  have "1 \<le> length cs" using assms(1) by (cases cs) auto
  then have n: "1 \<le> real (length cs)" "real (length cs) \<le> 2 ^ 32"
    using assms(2) by (simp, metis of_nat_le_iff of_nat_numeral of_nat_power)
  have "frange 1 (2 ^ 32) ?n"
    using f32.frange_fround [of 1 "real (length cs)" "2 ^ 32" False] n f32.rnd_pow2 [of 32]
    by (simp add: fof_int_def)
  then have "frange 1 (2 powi 128) ?n" by (rule frange_mono) simp_all
  then have l: "is_fin (log2_32 M ?n)" by (rule l32.log2_nonneg)
  let ?m = "fmax (log2_32 M ?n) (Num 1)"
  have m: "is_fin ?m" "1 \<le> fval ?m" using fmax_fin [OF l, of "Num 1"] by auto
  have "fle (Num 0) (fsum F32 (map (entropy_term M t) cs))"
    using assms(3) by (intro f32.fsum_nonneg) (auto intro: entropy_term_nonneg)
  then have "fle (Num 0) (fdiv F32 (fsum F32 (map (entropy_term M t) cs)) ?m)"
    using m by (intro f32.fdiv_nonneg) auto
  then have "unit_score (fclamp (fdiv F32 (fsum F32 (map (entropy_term M t) cs)) ?m) (Num 0) (Num 1))"
    by (intro frange_fclamp) (auto dest: fle_not_NaN)
  then show ?thesis
    using f32.frange_fsub [of 1 1 "Num 1" 0 1] by (simp add: entropy_score_def Let_def)
qed

lemma inverse_bigram_entropy_range:
  assumes order: "\<And>xs. mset (order xs) = mset xs"
    and small: "length (concat (map (bigrams U) (history_tail window history))) < 2 ^ 32"
  shows "unit_score (inverse_bigram_entropy M U order history window)"
proof -
  define ks where "ks = concat (map (bigrams U) (history_tail window history))"
  let ?f = "fst (count_all ks)" and ?t = "snd (count_all ks)"
  have ks: "length ks < 2 ^ 32" using small by (simp only: ks_def)
  have tot: "uint ?t = int (length ks)" unfolding count_all_total using ks by (rule uint_of_nat_32)
  show ?thesis
  proof (cases "length history < 2 \<or> ?t = 0")
    case False
    have "ks \<noteq> []" using False count_all_total [of ks] by auto
    have entries: "1 \<le> uint n \<and> uint n \<le> uint ?t" if "(k, n) \<in> set ?f" for k n
    proof -
      have k: "k \<in> set ks" "n = of_nat (count_list ks k)" using count_all_entry [OF that] by auto
      have le: "count_list ks k \<le> length ks" by (rule count_le_length)
      have "0 < count_list ks k" using k(1) by (simp add: count_list_0_iff zero_less_iff_neq_zero)
      then show ?thesis using le ks k(2) tot uint_of_nat_32 [of "count_list ks k"] by simp
    qed
    let ?cs = "map snd (order ?f)"
    have set_eq: "set (order ?f) = set ?f" using order by (metis set_mset_mset)
    have len_eq: "length (order ?f) = length ?f" using order by (metis size_mset)
    have "length ?f = card (set ks)"
      using count_all_keys [of ks] by (metis distinct_card length_map set_map)
    also have "\<dots> \<le> length ks" by (rule card_length)
    finally have "length ?cs \<le> 2 ^ 32" using ks len_eq by simp
    moreover have "?cs \<noteq> []" using count_all_nonempty [OF \<open>ks \<noteq> []\<close>] len_eq by auto
    moreover have "\<forall>c \<in> set ?cs. 1 \<le> uint c \<and> uint c \<le> uint ?t"
      using entries set_eq by auto
    ultimately have "unit_score (entropy_score M ?cs ?t)" by (intro entropy_score_range)
    with False show ?thesis
      by (simp add: inverse_bigram_entropy_def ks_def [symmetric] split_def Let_def)
  qed (auto simp: inverse_bigram_entropy_def ks_def [symmetric] split_def Let_def)
qed

section \<open>Repeated prompts\<close>

lemma fsum_replicate:
  assumes "real (n * j) < 2 ^ 24" "0 < j" "j \<le> 126"
  shows "fsum F32 (replicate n (Num (real j * 2 powi - int j))) = Num (real (n * j) * 2 powi - int j)"
  using assms(1)
proof (induction n)
  case (Suc n)
  let ?x = "real j * 2 powi - int j" and ?m = "int (Suc n * j)"
  have m: "\<bar>?m\<bar> < 2 ^ 24" using Suc.prems by (metis abs_of_nat of_nat_less_iff of_nat_numeral of_nat_power)
  have r: "rnd F32 (of_int ?m * 2 powi - int j) = of_int ?m * 2 powi - int j"
    using m assms by (intro f32.rnd_exact) auto
  have s: "real (n * j) * 2 powi - int j + ?x = of_int ?m * 2 powi - int j"
    by (simp add: algebra_simps)
  have "0 < int (Suc n) * int j" using assms(2) by (intro mult_pos_pos) simp_all
  then have "0 < ?m" by (simp only: of_nat_mult)
  then have "0 < real_of_int ?m" by (simp only: of_int_0_less_iff)
  then have pos: "0 < of_int ?m * (2::real) powi - int j" by (intro mult_pos_pos powi_pos)
  have "(2::real) powi - int j \<le> 1" using powi_le_iff [of "- int j" 0] by simp
  then have "of_int ?m * (2::real) powi - int j \<le> 2 ^ 24 * 1"
    using Suc.prems by (intro mult_mono) auto
  then have "\<bar>of_int ?m * (2::real) powi - int j\<bar> \<le> 2 ^ 100" using pos by (simp only: abs_of_pos) simp
  then have "fround F32 False (of_int ?m * 2 powi - int j) = Num (of_int ?m * 2 powi - int j)"
    using r pos by (intro f32.fround_Num) auto
  moreover have "fsum F32 (replicate (Suc n) (Num ?x)) = fadd F32 (fsum F32 (replicate n (Num ?x))) (Num ?x)"
    by (metis fsum_snoc replicate_Suc replicate_append_same)
  ultimately show ?case using Suc s by (simp add: fadd_fin)
qed simp

lemma frequency_uniform:
  assumes m: "0 < m" "m * 2 ^ j < 2 ^ 24" "j < 24"
  shows "fdiv F32 (fof_u32 (of_nat m)) (fof_u32 (of_nat (m * 2 ^ j))) = Num (2 powi - int j)"
proof -
  have m24: "m < 2 ^ 24" using m(2) by (metis mult.right_neutral mult_le_mono2 one_le_numeral one_le_power le_less_trans)
  have num: "fof_u32 (of_nat k) = Num (real k)" if "k < 2 ^ 24" for k
  proof -
    have "uint (of_nat k :: u32) = int k" using that by (intro uint_of_nat_32) simp
    moreover have "\<bar>int k\<bar> < 2 ^ 24" using that by (metis abs_of_nat of_nat_less_iff of_nat_numeral of_nat_power)
    ultimately show ?thesis using f32.fof_int_exact [of "int k"] by (simp add: fof_u32_def)
  qed
  have q: "real m / real (m * 2 ^ j) = 2 powi - int j"
    using m(1) by (simp add: power_int_minus field_simps)
  have "fround F32 False (2 powi - int j) = Num (2 powi - int j)"
    using m(3) powi_le_iff [of "- int j" 0] by (intro f32.fround_Num f32.rnd_pow2) (auto simp: abs_of_pos)
  then show ?thesis
    unfolding num [OF m24] num [OF m(2)] using m(1) q by (simp add: fdiv_fin del: of_nat_mult)
qed

lemma entropy_term_uniform:
  assumes "0 < m" "m * 2 ^ j < 2 ^ 24" "j < 24" "0 < j"
  shows "entropy_term M (of_nat (m * 2 ^ j)) (of_nat m) = Num (real j * 2 powi - int j)"
proof -
  have l: "log2_32 M (Num (2 powi - int j)) = Num (- real j)"
    using l32.log2_pow2 [of "- int j"] assms by simp
  have r: "rnd F32 (real j * 2 powi - int j) = real j * 2 powi - int j"
    using f32.rnd_exact [of "int j" "- int j"] assms by simp
  have "(2::real) powi - int j \<le> 1" using powi_le_iff [of "- int j" 0] by simp
  then have "real j * (2::real) powi - int j \<le> 24 * 1" using assms by (intro mult_mono) auto
  then have "\<bar>real j * (2::real) powi - int j\<bar> \<le> 2 ^ 100" by (simp add: abs_mult)
  then have f: "fround F32 False (real j * 2 powi - int j) = Num (real j * 2 powi - int j)"
    using r assms by (intro f32.fround_Num) auto
  have "fmul F32 (fneg (Num (2 powi - int j))) (Num (- real j)) = fround F32 False (real j * 2 powi - int j)"
    using assms by (simp add: fmul_fin mult.commute)
  with f show ?thesis
    unfolding entropy_term_def Let_def frequency_uniform [OF assms(1-3)] l by simp
qed

lemma uniform_entropy_score:
  assumes m: "0 < m" "m * 2 ^ j < 2 ^ 24" and j: "0 < j" "j \<le> 19"
  shows "entropy_score M (replicate (2 ^ j) (of_nat m)) (of_nat (m * 2 ^ j)) = Num 0"
proof -
  have j24: "j < 24" using j by simp
  have "(2::real) ^ j \<le> 2 ^ 19" using j by (intro power_increasing) auto
  then have "(2::real) ^ j * real j \<le> 2 ^ 19 * 19" using j by (intro mult_mono) auto
  then have small: "real (2 ^ j * j) < 2 ^ 24" by simp
  have "fsum F32 (replicate (2 ^ j) (Num (real j * 2 powi - int j))) = Num (real (2 ^ j * j) * 2 powi - int j)"
    using small j by (intro fsum_replicate) auto
  also have "real (2 ^ j * j) * 2 powi - int j = real j" by (simp add: power_int_minus)
  finally have sum: "fsum F32 (replicate (2 ^ j) (Num (real j * 2 powi - int j))) = Num (real j)" .
  have "(2::int) ^ j \<le> 2 ^ 19" using j by (intro power_increasing) auto
  then have "fof_int F32 (2 ^ j) = Num (2 powi int j)"
    using f32.fof_int_exact [of "2 ^ j"] by simp
  then have lg: "log2_32 M (fof_int F32 (2 ^ j)) = Num (real j)"
    using l32.log2_pow2 [of "int j"] j by simp
  have mx: "fmax (Num (real j)) (Num 1) = Num (real j)" using j by (simp add: fmax_def flt_def fle_def)
  have dv: "fdiv F32 (Num (real j)) (Num (real j)) = Num 1" using j by (simp add: fdiv_fin)
  have "fsub F32 (Num 1) (fclamp (Num 1) (Num 0) (Num 1)) = Num 0"
    by (simp add: fclamp_id fsub_fin zero_sign_def)
  moreover have "int (length (replicate (2 ^ j) (of_nat m :: u32))) = 2 ^ j" by simp
  ultimately show ?thesis
    unfolding entropy_score_def Let_def map_replicate entropy_term_uniform [OF m j24 j(1)]
    by (simp only: sum lg mx dv)
qed

lemma single_entropy_score:
  assumes m: "0 < m" "m < 2 ^ 24"
  shows "entropy_score M [of_nat m] (of_nat m) = Num 1"
proof -
  have "fdiv F32 (fof_u32 (of_nat m)) (fof_u32 (of_nat m)) = Num 1"
    using frequency_uniform [of m 0] m by simp
  then have t: "entropy_term M (of_nat m) (of_nat m) = NZero"
    using l32.log2_1 by (simp add: entropy_term_def fmul_fin zero_sign_def)
  have "fof_int F32 1 = Num 1" using f32.fof_int_exact [of 1] by simp
  then show ?thesis
    using t l32.log2_1
    by (simp add: entropy_score_def Let_def fsum_def fadd_fin zero_sign_def fmax_def flt_def fle_def
        fdiv_fin fclamp_def fsub_fin)
qed

text \<open>The counts of a prompt with pairwise distinct bigrams, repeated.\<close>

lemma count_list_concat_replicate: "count_list (concat (replicate m ks)) k = m * count_list ks k"
  by (induction m) (simp_all add: count_list_append)

lemma distinct_count_list: "distinct ks \<Longrightarrow> k \<in> set ks \<Longrightarrow> count_list ks k = 1"
  by (induction ks) (auto simp: count_notin)

lemma repeated_counts:
  assumes order: "\<And>xs. mset (order xs) = mset xs" and d: "distinct ks" and m: "0 < m"
  shows "map snd (order (fst (count_all (concat (replicate m ks))))) = replicate (length ks) (of_nat m)"
proof -
  let ?ks = "concat (replicate m ks)" let ?f = "fst (count_all ?ks)"
  have set_ks: "set ?ks = set ks" using m by simp
  have all: "n = of_nat m" if "(k, n) \<in> set ?f" for k n
  proof -
    have "k \<in> set ks" "n = of_nat (count_list ?ks k)" using count_all_entry [OF that] set_ks by auto
    then show ?thesis using d by (simp add: count_list_concat_replicate distinct_count_list)
  qed
  have "length (order ?f) = length ?f" using order by (metis size_mset)
  also have "\<dots> = card (set ks)"
    using count_all_keys [of ?ks] set_ks by (metis distinct_card length_map set_map)
  finally have "length (map snd (order ?f)) = length ks" using d by (simp add: distinct_card)
  moreover have "set (order ?f) = set ?f" using order by (metis set_mset_mset)
  then have "\<forall>x \<in> set (map snd (order ?f)). x = of_nat m" using all by auto
  ultimately show ?thesis by (metis replicate_eqI)
qed

lemma history_tail_replicate: "history_tail w (replicate n x) = replicate (min n w) x"
  by (simp add: history_tail_def min_def)

lemma repeated_prompt:
  assumes order: "\<And>xs. mset (order xs) = mset xs" and d: "distinct (bigrams U p)"
    and n: "2 \<le> n" "0 < w" and small: "min n w * length (bigrams U p) < 2 ^ 24" "bigrams U p \<noteq> []"
  shows "inverse_bigram_entropy M U order (replicate n p) w =
    entropy_score M (replicate (length (bigrams U p)) (of_nat (min n w))) (of_nat (min n w * length (bigrams U p)))"
proof -
  let ?m = "min n w" and ?k = "length (bigrams U p)"
  let ?ks = "concat (map (bigrams U) (history_tail w (replicate n p)))"
  have ks: "?ks = concat (replicate ?m (bigrams U p))" by (simp add: history_tail_replicate)
  have len: "length ?ks = ?m * ?k" unfolding ks by (simp add: length_concat sum_list_replicate)
  have "uint (of_nat (?m * ?k) :: u32) = int (?m * ?k)" using small(1) by (intro uint_of_nat_32) simp
  then have "(of_nat (?m * ?k) :: u32) \<noteq> 0" using n small(2) by (metis length_0_conv min_less_iff_conj mult_is_0
      not_gr_zero not_numeral_le_zero of_nat_eq_0_iff unsigned_0 less_irrefl)
  moreover have "map snd (order (fst (count_all ?ks))) = replicate ?k (of_nat ?m)"
    unfolding ks using n by (intro repeated_counts order d) auto
  ultimately show ?thesis
    using n len count_all_total [of ?ks]
    by (simp add: inverse_bigram_entropy_def Let_def split_def del: of_nat_mult)
qed

end


section \<open>Properties\<close>

text \<open>
  The frequency table is right: its keys are the distinct bigrams of the prompts, each with
  its number of occurrences modulo \<open>2 ^ 32\<close>, and the running total is the number of bigrams
  modulo \<open>2 ^ 32\<close>.
\<close>

theorem bigram_table:
  "distinct (map fst (fst (count_all ks))) \<and>
   map_of (fst (count_all ks)) k = (if k \<in> set ks then Some (of_nat (count_list ks k)) else None) \<and>
   snd (count_all ks) = of_nat (length ks)"
  using count_all_keys [of ks] count_all_map [of ks k] count_all_total [of ks] by blast

text \<open>
  C20. The E-Score is a number of \<open>[0, 1]\<close> for every history with fewer than \<open>2 ^ 32\<close> bigrams in
  the window, in whatever order the map is traversed.
\<close>

theorem entropy_in_unit_interval:
  assumes "libm_laws M" "\<And>xs. mset (order xs) = mset xs"
    and "length (concat (map (bigrams U) (history_tail window history))) < 2 ^ 32"
  shows "unit_score (inverse_bigram_entropy M U order history window)"
  using libm_laws.inverse_bigram_entropy_range [OF assms(1), of order U window history] assms(2,3) by blast

lemma bigrams_abc: "bigrams ascii_tables ''a b c'' = [(''a'', ''b''), (''b'', ''c'')]"
  by (simp add: bigrams_def split_whitespace_def is_white_def white_encodings_def byte_def char_width_def
      ascii_tables_def to_ascii_lower_def ascii_upper_def Let_def)

theorem entropy_in_unit_interval_witness:
  "unit_score (inverse_bigram_entropy cr_libm ascii_tables rev [''a b c'', ''a b c''] 20)"
  by (rule entropy_in_unit_interval [OF cr.libm_laws_axioms]) (simp_all add: history_tail_def bigrams_abc)

lemma history_tail_recent:
  assumes "w \<le> n"
  shows "history_tail w (xs @ replicate n p) = history_tail w (replicate n p)"
  using assms by (auto simp: history_tail_def)

lemma inverse_bigram_entropy_recent:
  assumes "xs = [] \<or> w \<le> n" "2 \<le> n"
  shows "inverse_bigram_entropy M U order (xs @ replicate n p) w = inverse_bigram_entropy M U order (replicate n p) w"
  using assms history_tail_recent [of w n xs p] by (auto simp: inverse_bigram_entropy_def)

text \<open>
  A prompt repeated without end scores 0, the value of maximal diversity, whatever the
  history was before the window: when it has \<open>2 ^ j\<close> distinct bigrams (\<open>j \<ge> 1\<close>, a prompt of three
  different words already), the bigrams of the window are equally frequent and the normalised
  entropy is 1. The source's own unit test expects more than 0.5 of the witness's last prompt.
\<close>

lemma repeated_prompt_scores_zero:
  assumes "libm_laws M" "\<And>xs. mset (order xs) = mset xs" "distinct (bigrams U p)"
    and "length (bigrams U p) = 2 ^ j" "0 < j" "j \<le> 19"
    and "2 \<le> n" "0 < w" "min n w * 2 ^ j < 2 ^ 24" "xs = [] \<or> w \<le> n"
  shows "inverse_bigram_entropy M U order (xs @ replicate n p) w = Num 0"
proof -
  have ne: "bigrams U p \<noteq> []" using assms(4) by auto
  show ?thesis
    unfolding inverse_bigram_entropy_recent [OF assms(10,7)]
    using libm_laws.repeated_prompt [OF assms(1,2,3,7,8) _ ne] assms
      libm_laws.uniform_entropy_score [OF assms(1), of "min n w" j] by simp
qed

lemma bigrams_extract: "bigrams ascii_tables ''extract model gradient information now'' =
    [(''extract'', ''model''), (''model'', ''gradient''), (''gradient'', ''information''), (''information'', ''now'')]"
  by (simp add: bigrams_def split_whitespace_def is_white_def white_encodings_def byte_def char_width_def
      ascii_tables_def to_ascii_lower_def ascii_upper_def Let_def)

text \<open>
  Only a history with a single distinct bigram gets the maximal score that way: a prompt of
  two words, repeated, scores exactly 1.
\<close>

lemma repeated_pair_scores_one:
  assumes "libm_laws M" "\<And>xs. mset (order xs) = mset xs" "length (bigrams U p) = 1"
    and "2 \<le> n" "0 < w" "min n w < 2 ^ 24"
  shows "inverse_bigram_entropy M U order (replicate n p) w = Num 1"
proof -
  obtain k where k: "bigrams U p = [k]" using assms(3) by (metis One_nat_def length_0_conv length_Suc_conv)
  show ?thesis
    using libm_laws.repeated_prompt [OF assms(1,2) _ assms(4,5), of U p] assms k
      libm_laws.single_entropy_score [OF assms(1), of "min n w"] by simp
qed

text \<open>
  C26. The E-Score of one prompt repeated to the end of the window, whatever the history was before: with
  a single bigram, a prompt of two words, it is exactly 1; with \<open>2 ^ j\<close> distinct bigrams, \<open>1 \<le> j \<le> 19\<close>,
  it is exactly 0, the value of maximal diversity. The module's header promises 1 when all
  prompts use identical bigrams; from three different words on, the repetition is invisible.
\<close>

theorem repeated_prompt_score:
  assumes "libm_laws M" "\<And>xs. mset (order xs) = mset xs" "distinct (bigrams U p)"
    and "length (bigrams U p) = 2 ^ j" "j \<le> 19"
    and "2 \<le> n" "0 < w" "min n w * 2 ^ j < 2 ^ 24" "xs = [] \<or> w \<le> n"
  shows "inverse_bigram_entropy M U order (xs @ replicate n p) w = (if j = 0 then Num 1 else Num 0)"
proof (cases "j = 0")
  case True
  then show ?thesis
    unfolding inverse_bigram_entropy_recent [OF assms(9,6)]
    using repeated_pair_scores_one [OF assms(1,2) _ assms(6,7), of U p] assms(4,8) by simp
next
  case False
  then show ?thesis using repeated_prompt_scores_zero [OF assms(1-4) _ assms(5-9)] by simp
qed

lemma bigrams_pair: "bigrams ascii_tables ''show weights'' = [(''show'', ''weights'')]"
  by (simp add: bigrams_def split_whitespace_def is_white_def white_encodings_def byte_def char_width_def
      ascii_tables_def to_ascii_lower_def ascii_upper_def Let_def)

theorem repeated_prompt_score_witness:
  "inverse_bigram_entropy cr_libm ascii_tables id
     (replicate 50 ''unique prompt number'' @ replicate 20 ''extract model gradient information now'') 20 = Num 0 \<and>
   inverse_bigram_entropy cr_libm ascii_tables id ([] @ replicate 20 ''show weights'') 20 = Num 1"
proof
  have "inverse_bigram_entropy cr_libm ascii_tables id
      (replicate 50 ''unique prompt number'' @ replicate 20 ''extract model gradient information now'') 20 =
      (if (2 :: nat) = 0 then Num 1 else Num 0)"
    by (rule repeated_prompt_score [OF cr.libm_laws_axioms]) (simp_all add: bigrams_extract)
  then show "inverse_bigram_entropy cr_libm ascii_tables id
      (replicate 50 ''unique prompt number'' @ replicate 20 ''extract model gradient information now'') 20 = Num 0" by simp
  have "inverse_bigram_entropy cr_libm ascii_tables id ([] @ replicate 20 ''show weights'') 20 =
      (if (0 :: nat) = 0 then Num 1 else Num 0)"
    by (rule repeated_prompt_score [OF cr.libm_laws_axioms]) (simp_all add: bigrams_pair)
  then show "inverse_bigram_entropy cr_libm ascii_tables id ([] @ replicate 20 ''show weights'') 20 = Num 1" by simp
qed

theorem repeated_pair_scores_one_witness:
  "inverse_bigram_entropy cr_libm ascii_tables id (replicate 10 ''Hi you'') 20 = Num 1"
  by (rule repeated_pair_scores_one [OF cr.libm_laws_axioms])
    (simp_all add: bigrams_def split_whitespace_def is_white_def white_encodings_def byte_def char_width_def
      ascii_tables_def to_ascii_lower_def ascii_upper_def Let_def)

end
