(* ===== verification/Anomaly.thy ===== *)
theory Anomaly
  imports Scoring Libm
begin

text \<open>
  \<open>engine/src/scoring/anomaly.rs\<close>: the A-Score. Each feature has running statistics updated by
  Welford's algorithm (\<open>stats_update\<close>); the score is a sigmoid of the fourth smallest of the
  five z-scores. The statistics are \<open>f64\<close> in the code; the functions take the arithmetic as
  an argument, so that the algorithm can also be run in \<open>Exact\<close> and compared with the
  textbook mean and sum of squares. The global model behind the lock is the explicit state
  of \<open>anomaly_score\<close> and \<open>anomaly_update\<close>.
\<close>

section \<open>Feature statistics\<close>

record feature_vector =
  ft_rpm :: fp
  ft_similarity :: fp
  ft_entropy_inv :: fp
  ft_prompt_len :: fp
  ft_duration_mins :: fp

record feature_stats =
  fs_count :: fp
  fs_mean :: fp
  fs_m2 :: fp

definition with_prior :: "arith \<Rightarrow> fp \<Rightarrow> fp \<Rightarrow> feature_stats" where
  "with_prior F prior_mean prior_std =
     \<lparr>fs_count = Num 100, fs_mean = prior_mean,
      fs_m2 = fmul F (fmul F prior_std prior_std) (fsub F (Num 100) (Num 1))\<rparr>"

definition stats_update :: "arith \<Rightarrow> feature_stats \<Rightarrow> fp \<Rightarrow> feature_stats" where
  "stats_update F s value =
     (let count' = fadd F (fs_count s) (Num 1);
          delta = fsub F value (fs_mean s);
          mean' = fadd F (fs_mean s) (fdiv F delta count');
          delta2 = fsub F value mean'
      in \<lparr>fs_count = count', fs_mean = mean', fs_m2 = fadd F (fs_m2 s) (fmul F delta delta2)\<rparr>)"

definition variance :: "arith \<Rightarrow> feature_stats \<Rightarrow> fp" where
  "variance F s =
     (if flt (fs_count s) (Num 2) then Num 1
      else fdiv F (fs_m2 s) (fsub F (fs_count s) (Num 1)))"

definition std_dev :: "arith \<Rightarrow> feature_stats \<Rightarrow> fp" where
  "std_dev F s = fmax (fsqrt F (variance F s)) (flit F 0.01)"

definition z_score :: "arith \<Rightarrow> feature_stats \<Rightarrow> fp \<Rightarrow> fp" where
  "z_score F s value = fdiv F (fabs (fsub F value (fs_mean s))) (std_dev F s)"

section \<open>The model\<close>

record anomaly_model =
  am_rpm :: feature_stats
  am_similarity :: feature_stats
  am_entropy_inv :: feature_stats
  am_prompt_len :: feature_stats
  am_duration_mins :: feature_stats

definition model_new :: anomaly_model where
  "model_new =
     \<lparr>am_rpm = with_prior F64 (Num 2) (flit F64 1.5),
      am_similarity = with_prior F64 (flit F64 0.4) (flit F64 0.2),
      am_entropy_inv = with_prior F64 (flit F64 0.2) (flit F64 0.15),
      am_prompt_len = with_prior F64 (Num 150) (Num 80),
      am_duration_mins = with_prior F64 (Num 2) (flit F64 1.5)\<rparr>"

definition model_update :: "anomaly_model \<Rightarrow> feature_vector \<Rightarrow> anomaly_model" where
  "model_update m f =
     \<lparr>am_rpm = stats_update F64 (am_rpm m) (fcast F64 (ft_rpm f)),
      am_similarity = stats_update F64 (am_similarity m) (fcast F64 (ft_similarity f)),
      am_entropy_inv = stats_update F64 (am_entropy_inv m) (fcast F64 (ft_entropy_inv f)),
      am_prompt_len = stats_update F64 (am_prompt_len m) (fcast F64 (ft_prompt_len f)),
      am_duration_mins = stats_update F64 (am_duration_mins m) (fcast F64 (ft_duration_mins f))\<rparr>"

definition z_scores :: "anomaly_model \<Rightarrow> feature_vector \<Rightarrow> fp list" where
  "z_scores m f =
     [z_score F64 (am_rpm m) (fcast F64 (ft_rpm f)),
      z_score F64 (am_similarity m) (fcast F64 (ft_similarity f)),
      z_score F64 (am_entropy_inv m) (fcast F64 (ft_entropy_inv f)),
      z_score F64 (am_prompt_len m) (fcast F64 (ft_prompt_len f)),
      z_score F64 (am_duration_mins m) (fcast F64 (ft_duration_mins f))]"

text \<open>
  \<open>sort_by(|a, b| a.partial_cmp(b).unwrap())\<close>: a stable sort. Every element of an array of at
  least two takes part in a comparison, so one NaN is enough for the \<open>unwrap\<close> to panic.
\<close>

fun insert_fp :: "fp \<Rightarrow> fp list \<Rightarrow> fp list" where
  "insert_fp x [] = [x]"
| "insert_fp x (y # ys) = (if fle x y then x # y # ys else y # insert_fp x ys)"

definition sort_fp :: "fp list \<Rightarrow> fp list run" where
  "sort_fp xs =
     (if 2 \<le> length xs \<and> NaN \<in> set xs then Inl UnwrapFailed else Inr (foldr insert_fp xs []))"

definition sigmoid :: "libm \<Rightarrow> fp \<Rightarrow> fp" where
  "sigmoid M p75 =
     fdiv F64 (Num 1)
       (fadd F64 (Num 1) (exp64 M (fmul F64 (fneg (Num (1 / 2))) (fsub F64 p75 (Num 2)))))"

definition model_score :: "libm \<Rightarrow> anomaly_model \<Rightarrow> feature_vector \<Rightarrow> fp run" where
  "model_score M m f =
     map_run (\<lambda>sorted. let p75 = sorted ! 3 in fclamp (fcast F32 (sigmoid M p75)) (Num 0) (Num 1))
       (sort_fp (z_scores m f))"

text \<open>The two public functions, over the model behind the lock.\<close>

definition anomaly_score :: "libm \<Rightarrow> feature_vector \<Rightarrow> anomaly_model \<Rightarrow> fp run \<times> anomaly_model" where
  "anomaly_score M f m = (model_score M m f, m)"

definition anomaly_update :: "feature_vector \<Rightarrow> anomaly_model \<Rightarrow> anomaly_model" where
  "anomaly_update f m = model_update m f"

section \<open>Sorting\<close>

lemma mset_insert_fp: "mset (insert_fp x ys) = add_mset x (mset ys)"
  by (induction x ys rule: insert_fp.induct) auto

lemma mset_sort: "mset (foldr insert_fp xs []) = mset xs"
  by (induction xs) (simp_all add: mset_insert_fp)

lemma sort_fp_Inr: "sort_fp xs = Inr ys \<Longrightarrow> mset ys = mset xs \<and> length ys = length xs"
  using mset_eq_length [OF mset_sort [of xs]] by (auto simp: sort_fp_def mset_sort split: if_splits)

lemma insert_fp_sorted:
  assumes "sorted_wrt fle ys" "x \<noteq> NaN" "NaN \<notin> set ys"
  shows "sorted_wrt fle (insert_fp x ys)"
  using assms
proof (induction x ys rule: insert_fp.induct)
  case (2 x y ys)
  have "set (insert_fp x ys) = insert x (set ys)"
    using mset_insert_fp [of x ys] by (metis set_mset_mset set_mset_add_mset_insert)
  moreover have "fle x y \<or> fle y x" using "2.prems" by (intro fle_total) auto
  ultimately show ?case using 2 fle_trans by auto
qed simp

lemma sort_fp_sorted: "sort_fp xs = Inr ys \<Longrightarrow> 2 \<le> length xs \<Longrightarrow> sorted_wrt fle ys \<and> NaN \<notin> set ys"
proof -
  have "NaN \<notin> set xs \<Longrightarrow> sorted_wrt fle (foldr insert_fp xs []) \<and> NaN \<notin> set (foldr insert_fp xs [])"
  proof (induction xs)
    case (Cons x xs)
    then show ?case
      using mset_insert_fp [of x "foldr insert_fp xs []"]
      by (auto intro: insert_fp_sorted dest: arg_cong [where f = set_mset])
  qed simp
  then show "sort_fp xs = Inr ys \<Longrightarrow> 2 \<le> length xs \<Longrightarrow> ?thesis"
    by (auto simp: sort_fp_def split: if_splits)
qed

text \<open>The fourth smallest of five is small when four of them are, and large when two are.\<close>

lemma length_filter_mset: "mset xs = mset ys \<Longrightarrow> length (filter P xs) = length (filter P ys)"
  by (metis mset_filter size_mset)

lemma five: "length ys = 5 \<Longrightarrow> \<exists>a b c d e. ys = [a, b, c, d, e]"
  by (simp add: numeral_eq_Suc length_Suc_conv) blast

lemma p75_le:
  assumes "sort_fp zs = Inr ys" "length zs = 5" "4 \<le> length (filter (\<lambda>z. fle z t) zs)"
  shows "fle (ys ! 3) t"
proof (rule ccontr)
  assume n: "\<not> fle (ys ! 3) t"
  have m: "mset ys = mset zs" "length ys = 5" using sort_fp_Inr [OF assms(1)] assms(2) by auto
  have st: "sorted_wrt fle ys" using sort_fp_sorted [OF assms(1)] assms(2) by simp
  obtain a b c d e where ys: "ys = [a, b, c, d, e]" using five [OF m(2)] by blast
  have "\<not> fle d t" "\<not> fle e t" using n st fle_trans unfolding ys by auto
  then have "length (filter (\<lambda>z. fle z t) ys) \<le> 3" unfolding ys by simp
  with assms(3) length_filter_mset [OF m(1)] show False by simp
qed

lemma p75_ge:
  assumes "sort_fp zs = Inr ys" "length zs = 5" "2 \<le> length (filter (fle t) zs)"
  shows "fle t (ys ! 3)"
proof (rule ccontr)
  assume n: "\<not> fle t (ys ! 3)"
  have m: "mset ys = mset zs" "length ys = 5" using sort_fp_Inr [OF assms(1)] assms(2) by auto
  have st: "sorted_wrt fle ys" using sort_fp_sorted [OF assms(1)] assms(2) by simp
  obtain a b c d e where ys: "ys = [a, b, c, d, e]" using five [OF m(2)] by blast
  have "\<not> fle t a" "\<not> fle t b" "\<not> fle t c" "\<not> fle t d"
    using n st fle_trans unfolding ys by auto
  then have "length (filter (fle t) ys) \<le> 1" unfolding ys by simp
  with assms(3) length_filter_mset [OF m(1)] show False by simp
qed

lemma length_z_scores [simp]: "length (z_scores m f) = 5"
  by (simp add: z_scores_def)

section \<open>Welford's algorithm is the pooled mean and variance\<close>

definition stats_fin :: "feature_stats \<Rightarrow> bool" where
  "stats_fin s \<longleftrightarrow> is_fin (fs_count s) \<and> is_fin (fs_mean s) \<and> is_fin (fs_m2 s)"

definition update_all :: "arith \<Rightarrow> feature_stats \<Rightarrow> fp list \<Rightarrow> feature_stats" where
  "update_all F s xs = foldl (stats_update F) s xs"

lemma update_all_Nil [simp]: "update_all F s [] = s"
  by (simp add: update_all_def)

lemma update_all_snoc [simp]: "update_all F s (xs @ [x]) = stats_update F (update_all F s xs) x"
  by (simp add: update_all_def)

lemma fsub_Exact: "is_fin a \<Longrightarrow> is_fin b \<Longrightarrow> is_fin (fsub Exact a b) \<and> fval (fsub Exact a b) = fval a - fval b"
  by (simp add: fsub_fin fround_def pack_def zero_sign_def)

lemma fin_Exact:
  assumes "is_fin a" "is_fin b"
  shows "is_fin (fadd Exact a b)" "fval (fadd Exact a b) = fval a + fval b"
    "is_fin (fsub Exact a b)" "fval (fsub Exact a b) = fval a - fval b"
    "is_fin (fmul Exact a b)" "fval (fmul Exact a b) = fval a * fval b"
    "fval b \<noteq> 0 \<Longrightarrow> is_fin (fdiv Exact a b)" "fval b \<noteq> 0 \<Longrightarrow> fval (fdiv Exact a b) = fval a / fval b"
  using assms by (simp_all add: fadd_fin fsub_fin fmul_fin fdiv_fin fround_def pack_def zero_sign_def)

lemma stats_update_Exact:
  assumes "stats_fin s" "is_fin x" "fval (fs_count s) + 1 \<noteq> 0"
  shows "stats_fin (stats_update Exact s x)"
    and "fval (fs_count (stats_update Exact s x)) = fval (fs_count s) + 1"
    and "fval (fs_mean (stats_update Exact s x)) =
           fval (fs_mean s) + (fval x - fval (fs_mean s)) / (fval (fs_count s) + 1)"
    and "fval (fs_m2 (stats_update Exact s x)) =
           fval (fs_m2 s) + (fval x - fval (fs_mean s)) * (fval x - fval (fs_mean (stats_update Exact s x)))"
  using assms by (simp_all add: stats_update_def Let_def stats_fin_def fin_Exact)

lemma welford_step:
  fixes c m x :: real
  assumes "c + 1 \<noteq> 0" defines "m' \<equiv> m + (x - m) / (c + 1)"
  shows "(c + 1) * m' = c * m + x"
    and "(c + 1) * m'\<^sup>2 = c * m\<^sup>2 + x\<^sup>2 - (x - m) * (x - m')"
proof -
  show e: "(c + 1) * m' = c * m + x"
    using assms(1) by (simp add: m'_def field_simps)
  have "(c + 1) * m'\<^sup>2 = (c * m + x) * m'" by (simp add: e [symmetric] power2_eq_square)
  moreover have "c * m\<^sup>2 + x\<^sup>2 - (x - m) * (x - m') = (c * m + x) * m + (x - m) * m'"
    by (simp add: power2_eq_square algebra_simps)
  moreover have "(c * m + x) * (m' - m) = (x - m) * m'"
    using e by (metis (no_types, opaque_lifting) add_diff_cancel_left' assms(1) m'_def mult.commute
        mult.left_commute nonzero_mult_div_cancel_left times_divide_eq_right)
  ultimately show "(c + 1) * m'\<^sup>2 = c * m\<^sup>2 + x\<^sup>2 - (x - m) * (x - m')"
    by (simp add: algebra_simps)
qed

lemma update_all_Exact:
  assumes "is_fin mu" "is_fin sd" "\<forall>x \<in> set xs. is_fin x"
  defines "s \<equiv> update_all Exact (with_prior Exact mu sd) xs"
  defines "N \<equiv> 100 + real (length xs)"
  shows "stats_fin s \<and> fval (fs_count s) = N \<and>
    N * fval (fs_mean s) = 100 * fval mu + (\<Sum>x \<leftarrow> xs. fval x) \<and>
    fval (fs_m2 s) = 99 * (fval sd)\<^sup>2 + 100 * (fval mu)\<^sup>2 + (\<Sum>x \<leftarrow> xs. (fval x)\<^sup>2) - N * (fval (fs_mean s))\<^sup>2"
  using assms(3) unfolding s_def N_def
proof (induction xs rule: rev_induct)
  case Nil
  then show ?case
    using assms(1,2) by (simp add: with_prior_def stats_fin_def fin_Exact power2_eq_square)
next
  case (snoc x xs)
  let ?s = "update_all Exact (with_prior Exact mu sd) xs"
  have ih: "stats_fin ?s" "fval (fs_count ?s) = 100 + real (length xs)" using snoc by simp_all
  have ne: "fval (fs_count ?s) + 1 \<noteq> 0" using ih by simp
  have x: "is_fin x" using snoc.prems by simp
  note u = stats_update_Exact [OF ih(1) x ne]
  note w = welford_step [of "100 + real (length xs)" "fval (fs_mean ?s)" "fval x"]
  show ?case using snoc u w unfolding ih(2) by (simp add: algebra_simps)
qed

section \<open>The statistics stay finite, and no score panics\<close>

text \<open>
  In \<open>f64\<close> the running mean moves towards the observation without passing it, so the two
  factors Welford multiplies have the same sign and the sum of squares never decreases.
\<close>

lemma mean_step_up:
  fixes m v c :: real
  defines "r \<equiv> rnd F64"
  assumes rep: "r m = m" "r v = v" and le: "m \<le> v" and c: "4 \<le> c"
  shows "m \<le> r (m + r (r (v - m) / c))" and "r (m + r (r (v - m) / c)) \<le> v"
proof -
  let ?d = "v - m" let ?q = "r (r ?d / c)" let ?e = "(2::real) powi - 1074"
  have q: "0 \<le> ?q \<and> ?q \<le> ?d"
  proof (cases "m = v")
    case False
    then have d: "?e \<le> ?d"
      using rep_gap [of 53 "- 1074" _ m v] rep le by (simp add: r_def F64_def del: rnd.simps)
    have "r ?d \<le> 2 * ?d" using rnd_le_double [OF d] by (simp add: r_def F64_def del: rnd.simps)
    then have "r ?d / c \<le> 2 * ?d / 4" using c d powi_pos [of "- 1074"] le by (intro frac_le) auto
    then have half: "r ?d / c \<le> ?d / 2" by linarith
    have "?q \<le> ?d"
    proof (cases "?e \<le> r ?d / c")
      case True
      have "?q \<le> 2 * (r ?d / c)" using rnd_le_double [OF True] by (simp add: r_def F64_def del: rnd.simps)
      moreover have "a \<le> 2 * b \<Longrightarrow> b \<le> d / 2 \<Longrightarrow> a \<le> d" for a b d :: real by simp
      ultimately show ?thesis using half by blast
    next
      case False
      then have "?q \<le> r ?e" unfolding r_def by (intro f64.rnd_mono) simp
      also have "r ?e = ?e" using rnd_dyadic [of 1 53 "- 1074" "- 1074"]
        by (simp add: r_def F64_def del: rnd.simps power_int_minus)
      finally show ?thesis using d by linarith
    qed
    moreover have "0 \<le> ?q" unfolding r_def using le c by (intro f64.rnd_ge_0 divide_nonneg_nonneg) auto
    ultimately show ?thesis by simp
  qed (simp add: r_def)
  have "r m \<le> r (m + ?q)" "r (m + ?q) \<le> r v"
    unfolding r_def using q [unfolded r_def] by (auto intro!: f64.rnd_mono)
  then show "m \<le> r (m + ?q)" "r (m + ?q) \<le> v" using rep by simp_all
qed

lemma mean_step_between:
  fixes m v c :: real
  assumes rep: "rnd F64 m = m" "rnd F64 v = v" and c: "4 \<le> c"
  defines "m' \<equiv> rnd F64 (m + rnd F64 (rnd F64 (v - m) / c))"
  shows "min m v \<le> m'" and "m' \<le> max m v" and "0 \<le> rnd F64 (v - m) * rnd F64 (v - m')"
proof -
  have "(m \<le> v \<longrightarrow> m \<le> m' \<and> m' \<le> v) \<and> (v \<le> m \<longrightarrow> v \<le> m' \<and> m' \<le> m)"
  proof (intro conjI impI)
    assume "m \<le> v"
    then show "m \<le> m'" "m' \<le> v" unfolding m'_def using mean_step_up [OF rep _ c] by simp_all
  next
    assume "v \<le> m"
    moreover have "rnd F64 (- m) = - m" "rnd F64 (- v) = - v" using rep by (simp_all add: rnd_uminus)
    moreover have "rnd F64 (- m + rnd F64 (rnd F64 (- v - - m) / c)) = - m'"
    proof -
      have "rnd F64 (- v - - m) = - rnd F64 (v - m)" by (simp add: rnd_uminus [symmetric])
      then have "- m + rnd F64 (rnd F64 (- v - - m) / c) = - (m + rnd F64 (rnd F64 (v - m) / c))"
        by (simp add: rnd_uminus [symmetric] minus_divide_left)
      then show ?thesis unfolding m'_def by (metis rnd_uminus)
    qed
    ultimately show "v \<le> m'" "m' \<le> m" using mean_step_up [of "- m" "- v" c] c by simp_all
  qed
  then show "min m v \<le> m'" "m' \<le> max m v" "0 \<le> rnd F64 (v - m) * rnd F64 (v - m')"
    by (auto simp: min_def max_def zero_le_mult_iff f64.rnd_le_0)
qed

abbreviation obs :: "fp \<Rightarrow> bool" where
  "obs x \<equiv> frange (- (2 ^ 40)) (2 ^ 40) x \<and> fp_valid F64 x"

definition stats_ok :: "feature_stats \<Rightarrow> bool" where
  "stats_ok s \<longleftrightarrow> frange 100 (2 ^ 54) (fs_count s) \<and> obs (fs_mean s) \<and> fle (Num 0) (fs_m2 s)"

lemma count_step: "frange 100 (2 ^ 54) c \<Longrightarrow> frange 100 (2 ^ 54) (fadd F64 c (Num 1))"
proof -
  assume c: "frange 100 (2 ^ 54) c"
  have "frange (rnd F64 (100 + 1)) (rnd F64 (2 ^ 54 + 1)) (fadd F64 c (Num 1))"
    using c by (intro f64.frange_fadd) auto
  moreover have "rnd F64 (100 + 1) = 101" "rnd F64 (2 ^ 54 + 1) = 2 ^ 54" by (simp_all add: fp_eval)
  ultimately show ?thesis by (auto elim: frange_mono)
qed

lemma fdiv_small:
  assumes "frange (- (2 ^ 41)) (2 ^ 41) a" "frange 100 (2 ^ 54) c"
  shows "frange (- (2 ^ 41)) (2 ^ 41) (fdiv F64 a c)" and "fval (fdiv F64 a c) = rnd F64 (fval a / fval c)"
proof -
  let ?q = "fval a / fval c"
  have a: "is_fin a" "\<bar>fval a\<bar> \<le> 2 ^ 41" and c: "is_fin c" "100 \<le> fval c"
    using assms by (auto simp: frange_def abs_le_iff)
  have "\<bar>fval a\<bar> / fval c \<le> 2 ^ 41 / 1" using a c by (intro frac_le) auto
  then have q: "\<bar>?q\<bar> \<le> 2 ^ 41" using c by (simp add: abs_divide)
  have "\<bar>rnd F64 ?q\<bar> \<le> 2 ^ 41" using q by (rule f64.rnd_bound_pow2)
  then show "frange (- (2 ^ 41)) (2 ^ 41) (fdiv F64 a c)" "fval (fdiv F64 a c) = rnd F64 ?q"
    using a c q by (simp_all add: fdiv_fin f64.fround_small frange_def abs_le_iff)
qed

lemma fsub_obs:
  assumes "obs a" "obs b"
  shows "frange (- (2 ^ 41)) (2 ^ 41) (fsub F64 a b)" and "fval (fsub F64 a b) = rnd F64 (fval a - fval b)"
proof -
  have d: "\<bar>fval a - fval b\<bar> \<le> 2 ^ 41" using assms by (auto simp: frange_def abs_le_iff)
  have "\<bar>rnd F64 (fval a - fval b)\<bar> \<le> 2 ^ 41" using d by (rule f64.rnd_bound_pow2)
  then show "frange (- (2 ^ 41)) (2 ^ 41) (fsub F64 a b)" "fval (fsub F64 a b) = rnd F64 (fval a - fval b)"
    using assms d by (simp_all add: fsub_fin f64.fround_small frange_def abs_le_iff)
qed

lemma stats_update_ok:
  assumes s: "stats_ok s" and v: "obs v"
  shows "stats_ok (stats_update F64 s v)"
    and "frange (min (fval (fs_mean s)) (fval v)) (max (fval (fs_mean s)) (fval v))
           (fs_mean (stats_update F64 s v))"
proof -
  let ?c = "fadd F64 (fs_count s) (Num 1)" and ?m = "fs_mean s"
  let ?d = "fsub F64 v ?m" let ?q = "fdiv F64 ?d ?c" let ?m' = "fadd F64 ?m ?q"
  have c: "frange 100 (2 ^ 54) ?c" and m: "obs ?m" and m2: "fle (Num 0) (fs_m2 s)"
    using s count_step by (auto simp: stats_ok_def)
  note d = fsub_obs [OF v m]
  note q = fdiv_small [OF d(1) c]
  have rep: "rnd F64 (fval ?m) = fval ?m" "rnd F64 (fval v) = fval v"
    using m v by (simp_all add: fp_valid_def)
  have c4: "4 \<le> fval ?c" using c by (simp add: frange_def)
  have sum: "\<bar>fval ?m + fval ?q\<bar> \<le> 2 ^ 100" using m q by (auto simp: frange_def abs_le_iff)
  have m'v: "fval ?m' = rnd F64 (fval ?m + rnd F64 (rnd F64 (fval v - fval ?m) / fval ?c))"
    using m q sum d by (simp add: fadd_fin frange_def f64.fround_small)
  note b = mean_step_between [OF rep c4, folded m'v]
  have fin': "is_fin ?m'" using m q sum by (simp add: fadd_fin frange_def f64.fround_small)
  have "fp_valid F64 ?m'" using m q by (simp add: fadd_fin frange_def f64.fp_valid_fround)
  with b fin' have m': "obs ?m'" using m v by (auto simp: frange_def)
  note d2 = fsub_obs [OF v m']
  have "fle (Num 0) (fmul F64 ?d (fsub F64 v ?m'))"
    using d d2 b(3) by (simp add: fmul_fin frange_def f64.fround_nonneg)
  with c m' m2 show "stats_ok (stats_update F64 s v)"
    by (simp add: stats_update_def Let_def stats_ok_def f64.fadd_nonneg)
  show "frange (min (fval ?m) (fval v)) (max (fval ?m) (fval v)) (fs_mean (stats_update F64 s v))"
    using b(1,2) fin' by (simp add: stats_update_def Let_def frange_def)
qed

lemma std_dev_pos:
  assumes "stats_ok s"
  shows "fle (flit F64 0.01) (std_dev F64 s)"
  unfolding std_dev_def by (rule fmax_ge) (simp add: flit_def)

lemma eval_std_floor: "flit F64 0.01 = Num (5764607523034235 / 576460752303423488)"
  by (simp add: fp_eval)

lemma z_score_nonneg:
  assumes s: "stats_ok s" and v: "obs v"
  shows "fle (Num 0) (z_score F64 s v)"
proof -
  let ?a = "fabs (fsub F64 v (fs_mean s))" and ?sd = "std_dev F64 s"
  have "is_fin ?a" "fle (Num 0) ?a"
    using fsub_obs [OF v] s by (auto simp: stats_ok_def frange_def fle_fin)
  moreover have "?sd = PInf \<or> (is_fin ?sd \<and> 0 < fval ?sd)"
    using std_dev_pos [OF s] unfolding eval_std_floor by (cases ?sd) (auto simp: fle_def)
  moreover have "fle (Num 0) (fdiv F64 a PInf)" if "is_fin a" "fle (Num 0) a" for a
    using that by (cases a) (auto simp: fdiv_def zero_sign_def fle_def)
  ultimately show ?thesis unfolding z_score_def
    using f64.fdiv_nonneg [of ?a ?sd] by auto
qed

definition near_mean :: "feature_stats \<Rightarrow> fp \<Rightarrow> bool" where
  "near_mean s v \<longleftrightarrow> fle (fabs (fsub F64 v (fs_mean s))) (flit F64 0.01)"

lemma near_z_score:
  assumes "near_mean s v" "stats_ok s"
  shows "fle (z_score F64 s v) (Num 2)"
proof -
  let ?a = "fabs (fsub F64 v (fs_mean s))" and ?sd = "std_dev F64 s"
  have le: "fle ?a ?sd" using assms std_dev_pos fle_trans by (auto simp: near_mean_def)
  have a: "is_fin ?a" "0 \<le> fval ?a"
    using assms unfolding near_mean_def eval_std_floor by (cases "fsub F64 v (fs_mean s)"; simp add: fle_def)+
  have sd: "?sd = PInf \<or> (is_fin ?sd \<and> 0 < fval ?sd)"
    using std_dev_pos [OF assms(2)] unfolding eval_std_floor by (cases ?sd) (auto simp: fle_def)
  have inf: "fle (fdiv F64 ?a PInf) (Num 2)"
    using a by (cases ?a) (auto simp: fdiv_def zero_sign_def fle_def)
  have fin: "fle (fdiv F64 ?a ?sd) (Num 2)" if "is_fin ?sd" "0 < fval ?sd"
  proof -
    have "fle (fround F64 b (fval ?a / fval ?sd)) (fround F64 False 1)" for b
      using le a that by (intro f64.fround_mono) (simp add: fle_fin)
    then have "fle (fdiv F64 ?a ?sd) (Num 1)" using a that by (simp add: fdiv_fin)
    then show ?thesis by (rule fle_trans) (simp add: fle_def)
  qed
  show ?thesis unfolding z_score_def using sd inf fin by metis
qed

definition features_ok :: "feature_vector \<Rightarrow> bool" where
  "features_ok f \<longleftrightarrow>
     (\<forall>x \<in> {ft_rpm f, ft_similarity f, ft_entropy_inv f, ft_prompt_len f, ft_duration_mins f}.
        frange (- (2 ^ 40)) (2 ^ 40) x)"

definition model_ok :: "anomaly_model \<Rightarrow> bool" where
  "model_ok m \<longleftrightarrow>
     (\<forall>s \<in> {am_rpm m, am_similarity m, am_entropy_inv m, am_prompt_len m, am_duration_mins m}. stats_ok s)"

lemma obs_fcast: "frange (- (2 ^ 40)) (2 ^ 40) x \<Longrightarrow> obs (fcast F64 x)"
proof (cases x)
  case (Num y)
  moreover assume "frange (- (2 ^ 40)) (2 ^ 40) x"
  ultimately have "frange (rnd F64 (- (2 ^ 40))) (rnd F64 (2 ^ 40)) (fround F64 (y < 0) y)"
    by (intro f64.frange_fround) auto
  then show ?thesis
    using Num f64.rnd_pow2 [of 40] by (simp add: rnd_uminus f64.fp_valid_fround)
qed (auto simp: fp_valid_def f64.no_overflow)

lemma model_update_ok: "model_ok m \<Longrightarrow> features_ok f \<Longrightarrow> model_ok (model_update m f)"
  unfolding model_ok_def features_ok_def model_update_def
  by (simp add: stats_update_ok obs_fcast del: power_numeral)

section \<open>The sigmoid\<close>

lemma fsub_mono:
  assumes "fle a b" "is_fin c"
  shows "fle (fsub F64 a c) (fsub F64 b c)"
  unfolding fsub_def using assms
  by (intro f64.fadd_mono fadd_fin_not_NaN) (auto simp: fle_not_NaN dest: is_fin_not_NaN)

lemma fmul_neg_antimono:
  assumes "fle a b" "k < 0"
  shows "fle (fmul F64 (Num k) b) (fmul F64 (Num k) a)"
proof -
  have fin: "is_fin a \<Longrightarrow> is_fin b \<Longrightarrow> ?thesis"
    using assms by (auto simp: fmul_fin fle_fin intro!: f64.fround_mono mult_left_mono_neg)
  have nn: "c \<noteq> NaN \<Longrightarrow> fmul F64 (Num k) c \<noteq> NaN" for c
    using assms(2) by (cases c) (auto simp: fmul_def Let_def inf_sign_def)
  show ?thesis
    using assms fin nn [of a] nn [of b]
    by (cases a; cases b) (auto simp: fle_def fmul_def Let_def inf_sign_def)
qed

lemma frecip_range: "fle (Num 1) a \<Longrightarrow> frange 0 1 (fdiv F64 (Num 1) a)"
proof (cases "is_fin a")
  case True
  assume "fle (Num 1) a"
  with True have a: "1 \<le> fval a" by (simp add: fle_fin)
  have "frange (rnd F64 0) (rnd F64 1) (fround F64 s (1 / fval a))" for s
    using a by (intro f64.frange_fround) auto
  then show ?thesis using True a by (simp add: fdiv_fin)
next
  case False
  assume "fle (Num 1) a"
  with False show ?thesis by (cases a) (auto simp: fle_def fdiv_def zero_sign_def)
qed

lemma frecip_antimono:
  assumes "fle (Num 1) a" "fle a b"
  shows "fle (fdiv F64 (Num 1) b) (fdiv F64 (Num 1) a)"
proof (cases "is_fin b")
  case True
  then have fin: "is_fin a" using assms by (cases a; cases b) (auto simp: fle_def)
  then show ?thesis
    using True assms by (auto simp: fdiv_fin fle_fin intro!: f64.fround_mono divide_left_mono)
next
  case False
  then have "b = PInf" using assms by (cases b) (auto simp: fle_def)
  then have "fdiv F64 (Num 1) b = Num 0" by (simp add: fdiv_def zero_sign_def)
  then show ?thesis using frecip_range [OF assms(1)] by (simp add: frange_fle)
qed

context libm_laws
begin

lemma sigmoid_denominator:
  assumes "x \<noteq> NaN" shows "fle (Num 1) (fadd F64 (Num 1) (exp64 M x))"
proof -
  have e: "fle (Num 0) (exp64 M x)" using assms by (rule e64.exp_nonneg)
  have one: "fadd F64 (Num 1) (Num 0) = Num 1" by (simp add: fadd_fin)
  have "fadd F64 (Num 1) (exp64 M x) \<noteq> NaN"
    using fadd_fin_not_NaN [of "exp64 M x" "Num 1" F64] fle_not_NaN(2) [OF e]
    by (simp add: fadd_comm [of F64 "Num 1"])
  then have "fle (fadd F64 (Num 1) (Num 0)) (fadd F64 (Num 1) (exp64 M x))"
    using e by (intro f64.fadd_mono) (simp_all add: one)
  then show ?thesis by (simp only: one)
qed

lemma sigmoid_arg_not_NaN: "p \<noteq> NaN \<Longrightarrow> fmul F64 (fneg (Num (1 / 2))) (fsub F64 p (Num 2)) \<noteq> NaN"
proof -
  assume "p \<noteq> NaN"
  then have "fle (fsub F64 p (Num 2)) (fsub F64 p (Num 2))" by (simp add: fsub_def fadd_fin_not_NaN)
  from fmul_neg_antimono [OF this, of "- 1 / 2"] show ?thesis by (auto dest: fle_not_NaN)
qed

lemma sigmoid_range: "p \<noteq> NaN \<Longrightarrow> frange 0 1 (sigmoid M p)"
  unfolding sigmoid_def by (intro frecip_range sigmoid_denominator sigmoid_arg_not_NaN)

lemma sigmoid_mono:
  assumes "fle p q" shows "fle (sigmoid M p) (sigmoid M q)"
proof -
  let ?x = "\<lambda>p. fmul F64 (fneg (Num (1 / 2))) (fsub F64 p (Num 2))"
  have nn: "?x p \<noteq> NaN" "?x q \<noteq> NaN" using assms sigmoid_arg_not_NaN fle_not_NaN by blast+
  have "fle (?x q) (?x p)" using fmul_neg_antimono [OF fsub_mono [OF assms]] by simp
  then have "fle (exp64 M (?x q)) (exp64 M (?x p))" by (rule e64.exp_mono)
  then have "fle (fadd F64 (Num 1) (exp64 M (?x q))) (fadd F64 (Num 1) (exp64 M (?x p)))"
    using sigmoid_denominator [OF nn(1)] sigmoid_denominator [OF nn(2)] fle_not_NaN
    by (intro f64.fadd_mono) auto
  then show ?thesis
    unfolding sigmoid_def using sigmoid_denominator [OF nn(2)] sigmoid_denominator [OF nn(1)]
    by (intro frecip_antimono)
qed

lemma sigmoid_midpoint: "sigmoid M (Num 2) = Num (1 / 2)"
proof -
  have "fmul F64 (fneg (Num (1 / 2))) (fsub F64 (Num 2) (Num 2)) = NZero"
    by (simp add: fsub_def fadd_fin fmul_fin zero_sign_def)
  then show ?thesis by (simp add: sigmoid_def e64.exp_zero fp_eval)
qed

end

section \<open>Reachable models\<close>

text \<open>The models the global lock can hold: the priors, then an update per request.\<close>

inductive observed :: "anomaly_model \<Rightarrow> bool" where
  start: "observed model_new"
| update: "observed m \<Longrightarrow> features_ok f \<Longrightarrow> observed (anomaly_update f m)"

lemma with_prior_ok:
  assumes "obs mu" shows "stats_ok (with_prior F64 mu sd) \<longleftrightarrow> fle (Num 0) (fmul F64 (fmul F64 sd sd) (fsub F64 (Num 100) (Num 1)))"
  using assms by (simp add: stats_ok_def with_prior_def)

lemma obs_flit: "\<bar>x\<bar> \<le> 1000 \<Longrightarrow> obs (flit F64 x)"
proof -
  assume x: "\<bar>x\<bar> \<le> 1000"
  then have "frange (rnd F64 (- (2 ^ 40))) (rnd F64 (2 ^ 40)) (fround F64 False x)"
    by (intro f64.frange_fround) (auto simp: abs_le_iff)
  then show ?thesis
    using f64.rnd_pow2 [of 40] by (simp add: flit_def rnd_uminus f64.fp_valid_fround)
qed

lemma obs_Num: "rnd F64 x = x \<Longrightarrow> \<bar>x\<bar> \<le> 1000 \<Longrightarrow> obs (Num x)"
  using f64.no_overflow [of x] by (simp add: fp_valid_def abs_le_iff)

lemma fsub_100: "fsub F64 (Num 100) (Num 1) = Num 99"
  by (simp add: fp_eval)

lemma prior_m2_nonneg: "0 \<le> x \<Longrightarrow> x \<le> 1000 \<Longrightarrow> is_fin a \<Longrightarrow> fval a = x \<Longrightarrow> fle (Num 0) (fmul F64 (fmul F64 a a) (Num 99))"
proof -
  assume a: "0 \<le> x" "x \<le> 1000" "is_fin a" "fval a = x"
  then have "frange 0 1000 a" by (simp add: frange_def)
  then have "frange (rnd F64 (0 * 0)) (rnd F64 (1000 * 1000)) (fmul F64 a a)"
    by (intro f64.frange_fmul_nonneg) auto
  then have "is_fin (fmul F64 a a)" "0 \<le> fval (fmul F64 a a)" by (auto simp: frange_def)
  then show ?thesis by (simp add: fmul_fin f64.fround_nonneg)
qed

lemma flit_fin: "\<bar>x\<bar> \<le> 1000 \<Longrightarrow> is_fin (flit F64 x) \<and> fval (flit F64 x) = rnd F64 x"
  using f64.fround_small [of x] by (simp add: flit_def)

lemma prior_flit_ok:
  assumes "obs mu" "0 \<le> x" "x \<le> 2" shows "stats_ok (with_prior F64 mu (flit F64 x))"
proof -
  have "rnd F64 x \<le> rnd F64 2" using assms by (intro f64.rnd_mono)
  also have "rnd F64 2 = 2" by (simp add: fp_eval)
  finally show ?thesis
    using assms flit_fin [of x] prior_m2_nonneg [of "rnd F64 x" "flit F64 x"] f64.rnd_ge_0 [of x]
    by (simp add: with_prior_ok fsub_100)
qed

lemma model_new_ok: "model_ok model_new"
proof -
  have "obs (Num 2)" "obs (Num 150)" by (intro obs_Num; simp add: fp_eval)+
  moreover have "obs (flit F64 0.4)" "obs (flit F64 0.2)" by (intro obs_flit; simp)+
  moreover have "stats_ok (with_prior F64 (Num 150) (Num 80))"
    using \<open>obs (Num 150)\<close> prior_m2_nonneg [of 80 "Num 80"] by (simp add: with_prior_ok fsub_100)
  ultimately show ?thesis
    by (simp add: model_ok_def model_new_def prior_flit_ok)
qed

lemma observed_ok: "observed m \<Longrightarrow> model_ok m"
  by (induction rule: observed.induct) (simp_all add: model_new_ok model_update_ok anomaly_update_def)

lemma z_scores_nonneg: "model_ok m \<Longrightarrow> features_ok f \<Longrightarrow> z \<in> set (z_scores m f) \<Longrightarrow> fle (Num 0) z"
  by (auto simp: z_scores_def model_ok_def features_ok_def intro!: z_score_nonneg obs_fcast)

lemma fcast_unit: "frange 0 1 x \<Longrightarrow> frange 0 1 (fcast F32 x)"
proof (cases x)
  case (Num y)
  moreover assume "frange 0 1 x"
  ultimately have "frange (rnd F32 0) (rnd F32 1) (fround F32 (y < 0) y)"
    by (intro f32.frange_fround) auto
  then show ?thesis using Num by simp
qed auto

lemma sort_fp_ok: "NaN \<notin> set zs \<Longrightarrow> \<exists>ys. sort_fp zs = Inr ys"
  by (simp add: sort_fp_def)

context libm_laws
begin

lemma model_score_ok:
  assumes "model_ok m" "features_ok f"
  shows "\<exists>s. model_score M m f = Inr s \<and> unit_score s"
proof -
  have nn: "NaN \<notin> set (z_scores m f)" using z_scores_nonneg [OF assms] fle_not_NaN by blast
  then obtain ys where ys: "sort_fp (z_scores m f) = Inr ys" using sort_fp_ok by blast
  then have "ys ! 3 \<in> set ys" using sort_fp_Inr [OF ys] by simp
  then have "ys ! 3 \<noteq> NaN" using sort_fp_sorted [OF ys] by auto
  then have "frange 0 1 (fcast F32 (sigmoid M (ys ! 3)))" by (intro fcast_unit sigmoid_range)
  then show ?thesis using ys by (simp add: model_score_def fclamp_id)
qed

end

section \<open>Poisoning\<close>

definition has_NaN :: "feature_vector \<Rightarrow> bool" where
  "has_NaN f \<longleftrightarrow> NaN \<in> {ft_rpm f, ft_similarity f, ft_entropy_inv f, ft_prompt_len f, ft_duration_mins f}"

definition poisoned :: "anomaly_model \<Rightarrow> bool" where
  "poisoned m \<longleftrightarrow>
     NaN \<in> fs_mean ` {am_rpm m, am_similarity m, am_entropy_inv m, am_prompt_len m, am_duration_mins m}"

lemma stats_update_NaN: "v = NaN \<or> fs_mean s = NaN \<Longrightarrow> fs_mean (stats_update F s v) = NaN"
  by (auto simp: stats_update_def Let_def)

lemma poisoned_by: "has_NaN f \<or> poisoned m \<Longrightarrow> poisoned (anomaly_update f m)"
  by (auto simp: has_NaN_def poisoned_def anomaly_update_def model_update_def stats_update_NaN)

lemma poisoned_stays: "poisoned m \<Longrightarrow> poisoned (foldl (\<lambda>m f. anomaly_update f m) m fs)"
  by (induction fs arbitrary: m) (simp_all add: poisoned_by)

lemma poisoned_panics: "poisoned m \<Longrightarrow> model_score M m f = Inl UnwrapFailed"
proof -
  assume "poisoned m"
  then have "NaN \<in> set (z_scores m f)"
    by (auto simp: poisoned_def z_scores_def z_score_def)
  then show ?thesis by (simp add: model_score_def sort_fp_def)
qed

lemma fcast_mono: "fle a b \<Longrightarrow> fle (fcast F32 a) (fcast F32 b)"
proof -
  have *: "fle (Num 0) (fround F32 s x) \<longleftrightarrow> fle (fround F32 t 0) (fround F32 s x)"
    "fle (fround F32 s x) (Num 0) \<longleftrightarrow> fle (fround F32 s x) (fround F32 t 0)" for s t x
    by (cases "fround F32 s x"; simp add: zero_sign_def fle_def)+
  have "fcast F32 c = fround F32 (is_neg c) (fval c)" if "is_fin c" for c
    using that by (cases c) (auto simp: zero_sign_def)
  then have "is_fin a \<Longrightarrow> is_fin b \<Longrightarrow> fle a b \<Longrightarrow> ?thesis" by (simp add: fle_fin f32.fround_mono)
  moreover assume "fle a b"
  ultimately show ?thesis by (cases a; cases b) (auto simp: fle_def)
qed

context libm_laws
begin

lemma model_score_mono:
  assumes "sort_fp (z_scores m f) = Inr ys" "model_score M m f = Inr s"
  shows "fle (ys ! 3) (Num 2) \<Longrightarrow> fle s (Num (1 / 2))" "fle (Num 2) (ys ! 3) \<Longrightarrow> fle (Num (1 / 2)) s"
proof -
  have s: "s = fclamp (fcast F32 (sigmoid M (ys ! 3))) (Num 0) (Num 1)"
    using assms by (simp add: model_score_def)
  have half: "fclamp (fcast F32 (sigmoid M (Num 2))) (Num 0) (Num 1) = Num (1 / 2)"
    by (simp add: sigmoid_midpoint fp_eval)
  have mono: "fle p q \<Longrightarrow> fle (fclamp (fcast F32 (sigmoid M p)) (Num 0) (Num 1))
      (fclamp (fcast F32 (sigmoid M q)) (Num 0) (Num 1))" for p q
    by (intro fclamp_mono fcast_mono sigmoid_mono) simp_all
  show "fle (ys ! 3) (Num 2) \<Longrightarrow> fle s (Num (1 / 2))" "fle (Num 2) (ys ! 3) \<Longrightarrow> fle (Num (1 / 2)) s"
    using mono [of "ys ! 3" "Num 2"] mono [of "Num 2" "ys ! 3"] by (simp_all only: s half)
qed

lemma model_score_outliers:
  assumes "model_score M m f = Inr s"
  shows "(4 \<le> length (filter (\<lambda>z. fle z (Num 2)) (z_scores m f)) \<longrightarrow> fle s (Num (1 / 2))) \<and>
    (2 \<le> length (filter (fle (Num 2)) (z_scores m f)) \<longrightarrow> fle (Num (1 / 2)) s)"
proof -
  obtain ys where ys: "sort_fp (z_scores m f) = Inr ys" using assms by (auto simp: model_score_def)
  then show ?thesis
    using model_score_mono [OF ys assms] p75_le [OF ys] p75_ge [OF ys] by simp
qed

end

section \<open>Properties\<close>

text \<open>
  C15. Welford's update, run in exact arithmetic from the prior (100 virtual observations of
  mean \<open>mu\<close> and standard deviation \<open>sd\<close>), keeps the count, the pooled mean and the pooled
  sum of squared deviations of the prior and everything observed.
\<close>

theorem welford_pooled:
  assumes "is_fin mu" "is_fin sd" "\<forall>x \<in> set xs. is_fin x"
  shows "fval (fs_count (update_all Exact (with_prior Exact mu sd) xs)) = 100 + real (length xs) \<and>
    (100 + real (length xs)) * fval (fs_mean (update_all Exact (with_prior Exact mu sd) xs)) =
      100 * fval mu + (\<Sum>x \<leftarrow> xs. fval x) \<and>
    fval (fs_m2 (update_all Exact (with_prior Exact mu sd) xs)) =
      99 * (fval sd)\<^sup>2 + 100 * (fval mu)\<^sup>2 + (\<Sum>x \<leftarrow> xs. (fval x)\<^sup>2) -
      (100 + real (length xs)) * (fval (fs_mean (update_all Exact (with_prior Exact mu sd) xs)))\<^sup>2"
  using update_all_Exact [OF assms] by simp

theorem welford_pooled_witness:
  "101 * fval (fs_mean (update_all Exact (with_prior Exact (Num 2) (Num 1)) [Num 3])) = 203"
  using welford_pooled [of "Num 2" "Num 1" "[Num 3]"] by simp

text \<open>
  C16. In \<open>f64\<close>, with the count at least 100, an update moves a feature's mean towards the
  observation and never past it, and leaves the sum of squares non-negative, so neither the
  running mean nor the variance can drift out of the observed range through rounding.
\<close>

theorem welford_mean_between:
  assumes "stats_ok s" "obs v"
  shows "stats_ok (stats_update F64 s v) \<and>
    frange (min (fval (fs_mean s)) (fval v)) (max (fval (fs_mean s)) (fval v)) (fs_mean (stats_update F64 s v))"
  using stats_update_ok [OF assms] by simp

theorem welford_mean_between_witness:
  "frange 2 7 (fs_mean (stats_update F64 (with_prior F64 (Num 2) (Num 1)) (Num 7)))"
proof -
  have o: "obs (Num 2)" "obs (Num 7)" by (intro obs_Num; simp add: fp_eval)+
  then have "stats_ok (with_prior F64 (Num 2) (Num 1))"
    using prior_m2_nonneg [of 1 "Num 1"] by (simp add: with_prior_ok fsub_100)
  from welford_mean_between [OF this o(2)] show ?thesis by (simp add: with_prior_def)
qed

text \<open>
  C14. As long as every feature vector ever reported is finite (below \<open>2^40\<close> in size), the
  A-Score never panics: the \<open>partial_cmp().unwrap()\<close> of the sort meets no NaN, and the score
  is a number of \<open>[0, 1]\<close>. Scoring does not change the model.
\<close>

theorem anomaly_score_safe:
  assumes "libm_laws M" "observed m" "features_ok f"
  shows "\<exists>s. anomaly_score M f m = (Inr s, m) \<and> unit_score s"
  using libm_laws.model_score_ok [OF assms(1) observed_ok [OF assms(2)] assms(3)]
  by (simp add: anomaly_score_def)

definition sample_features :: feature_vector where
  "sample_features =
     \<lparr>ft_rpm = Num 2, ft_similarity = Num (13421773 / 33554432),
      ft_entropy_inv = Num (13421773 / 67108864),
      ft_prompt_len = Num 150, ft_duration_mins = Num 2\<rparr>"

theorem anomaly_score_safe_witness:
  "\<exists>s. anomaly_score cr_libm sample_features (anomaly_update sample_features model_new) =
     (Inr s, anomaly_update sample_features model_new) \<and> unit_score s"
proof -
  have f: "features_ok sample_features" by (simp add: features_ok_def sample_features_def)
  from observed.update [OF observed.start f] show ?thesis
    by (rule anomaly_score_safe [OF cr.libm_laws_axioms _ f])
qed

text \<open>
  C38. One NaN feature is enough to break the detector for good: after an update with it,
  whatever is reported later, every score panics. (A velocity score of a configuration with
  \<open>max_rpm = 0\<close>, or a drift score of an embedding with a NaN, is such a feature.)
\<close>

theorem NaN_poisons_the_model:
  assumes "has_NaN f"
  shows "fst (anomaly_score M g (foldl (\<lambda>m f. anomaly_update f m) (anomaly_update f m) later)) = Inl UnwrapFailed"
  using assms by (simp add: anomaly_score_def poisoned_panics poisoned_stays poisoned_by)

theorem NaN_poisons_the_model_witness:
  "fst (anomaly_score cr_libm sample_features
     (foldl (\<lambda>m f. anomaly_update f m) (anomaly_update (sample_features\<lparr>ft_similarity := NaN\<rparr>) model_new)
        [sample_features, sample_features])) = Inl UnwrapFailed"
  by (rule NaN_poisons_the_model) (simp add: has_NaN_def)

text \<open>
  The fourth-smallest z-score makes the detector ignore a single outlier: with at least
  four features within two standard deviations the score is at most \<open>1/2\<close>, however far the
  fifth is; two features at two standard deviations or more bring it to at least \<open>1/2\<close>.
\<close>

theorem one_outlier_is_ignored:
  assumes "libm_laws M" "model_score M m f = Inr s"
  shows "(4 \<le> length (filter (\<lambda>z. fle z (Num 2)) (z_scores m f)) \<longrightarrow> fle s (Num (1 / 2))) \<and>
    (2 \<le> length (filter (fle (Num 2)) (z_scores m f)) \<longrightarrow> fle (Num (1 / 2)) s)"
  using libm_laws.model_score_outliers [OF assms] .

theorem one_outlier_is_ignored_witness:
  "\<exists>s. model_score cr_libm model_new (sample_features\<lparr>ft_prompt_len := Num 100000\<rparr>) = Inr s \<and> fle s (Num (1 / 2))"
proof -
  let ?f = "sample_features\<lparr>ft_prompt_len := Num 100000\<rparr>"
  have f: "features_ok ?f" by (simp add: features_ok_def sample_features_def)
  then obtain s where s: "model_score cr_libm model_new ?f = Inr s"
    using cr.model_score_ok [OF model_new_ok] by blast
  have near: "near_mean (am_rpm model_new) (fcast F64 (ft_rpm ?f))"
    "near_mean (am_similarity model_new) (fcast F64 (ft_similarity ?f))"
    "near_mean (am_entropy_inv model_new) (fcast F64 (ft_entropy_inv ?f))"
    "near_mean (am_duration_mins model_new) (fcast F64 (ft_duration_mins ?f))"
    unfolding near_mean_def model_new_def with_prior_def sample_features_def by (simp_all add: fp_eval)
  have "4 \<le> length (filter (\<lambda>z. fle z (Num 2)) (z_scores model_new ?f))"
    unfolding z_scores_def using near [THEN near_z_score] f model_new_ok
    by (simp add: model_ok_def features_ok_def obs_fcast)
  with one_outlier_is_ignored [OF cr.libm_laws_axioms s] s show ?thesis by blast
qed

end
