(* ===== verification/Signals.thy ===== *)
theory Signals
  imports Velocity Divergence Entropy Anomaly
begin

text \<open>
  The four signals and the hybrid score together: the type every score has, with no assumption on
  what it was computed from.
\<close>

section \<open>Operations return data of the format\<close>

context rounding
begin

lemma fp_valid_special: "fp_valid F NaN" "fp_valid F PInf" "fp_valid F NInf" "fp_valid F NZero" "fp_valid F (Num 0)"
  using no_overflow [of 0] by (simp_all add: fp_valid_def)

lemma fp_valid_signed: "fp_valid F (inf_sign s)" "fp_valid F (zero_sign s)"
  by (simp_all add: inf_sign_def zero_sign_def fp_valid_special)

lemma fp_valid_fadd: "fp_valid F (fadd F a b)"
  by (cases a; cases b) (simp_all add: fadd_def fp_valid_special fp_valid_signed fp_valid_fround)

lemma fp_valid_fsub: "fp_valid F (fsub F a b)"
  by (simp add: fsub_def fp_valid_fadd)

lemma fp_valid_fmul: "fp_valid F (fmul F a b)"
  by (simp add: fmul_def Let_def fp_valid_special fp_valid_signed fp_valid_fround)

lemma fp_valid_fdiv: "fp_valid F (fdiv F a b)"
  by (simp add: fdiv_def Let_def fp_valid_special fp_valid_signed fp_valid_fround)

lemma fp_valid_fcast: "fp_valid F (fcast F a)"
  by (cases a) (simp_all add: fp_valid_special fp_valid_fround)

lemma fp_valid_1: "fp_valid F (Num 1)"
  using rnd_int [of 1] no_overflow [of 1] by (simp add: fp_valid_def)

lemmas fp_valid_ops = fp_valid_special fp_valid_1 fp_valid_fadd fp_valid_fsub fp_valid_fmul fp_valid_fdiv fp_valid_fcast

end

section \<open>The type of a score\<close>

definition score_typed :: "fp \<Rightarrow> bool" where
  "score_typed x \<longleftrightarrow> fp_valid F32 x \<and> (x = NaN \<or> unit_score x)"

definition run_typed :: "fp run \<Rightarrow> bool" where
  "run_typed m = (case m of Inl p \<Rightarrow> True | Inr x \<Rightarrow> score_typed x)"

definition stats_typed :: "feature_stats \<Rightarrow> bool" where
  "stats_typed s \<longleftrightarrow> fp_valid F64 (fs_count s) \<and> fp_valid F64 (fs_mean s) \<and> fp_valid F64 (fs_m2 s)"

definition model_typed :: "anomaly_model \<Rightarrow> bool" where
  "model_typed m \<longleftrightarrow>
     (\<forall>s \<in> {am_rpm m, am_similarity m, am_entropy_inv m, am_prompt_len m, am_duration_mins m}. stats_typed s)"

lemma clamped_typed: "fp_valid F32 x \<Longrightarrow> score_typed (fclamp x (Num 0) (Num 1))"
  using frange_fclamp [of x 0 1]
  by (cases "x = NaN") (auto simp: score_typed_def fclamp_def f32.fp_valid_ops)

lemma score_typed_0: "score_typed (Num 0)"
  by (simp add: score_typed_def f32.fp_valid_ops)

lemma complement_typed: "score_typed x \<Longrightarrow> score_typed (fsub F32 (Num 1) x)"
  using f32.frange_fsub [of 1 1 "Num 1" 0 1 x] f32.rnd_int [of 1]
  by (cases "x = NaN") (auto simp: score_typed_def f32.fp_valid_fsub fsub_NaN)

lemma run_typed_map: "(\<And>x. score_typed (f x)) \<Longrightarrow> run_typed (map_run f m)"
  by (cases m) (simp_all add: run_typed_def)

lemma hybrid_typed: "score_typed (compute_hybrid v d e a cfg)"
  by (simp add: compute_hybrid_def Let_def clamped_typed f32.fp_valid_ops)

lemma velocity_typed: "run_typed (velocity_compute M C now ts w rpm)"
  unfolding velocity_compute_def by (rule run_typed_map) (simp add: clamped_typed f32.fp_valid_ops)

lemma divergence_typed: "run_typed (divergence_compute debug a b)"
  by (simp add: divergence_compute_def run_typed_def cosine_similarity_def cosine_similarity_in_def Let_def
      clamped_typed score_typed_0 f32.fp_valid_ops)

lemma entropy_typed: "score_typed (inverse_bigram_entropy M U order history window)"
  by (simp add: inverse_bigram_entropy_def entropy_score_def Let_def complement_typed clamped_typed
      score_typed_0 f32.fp_valid_ops split: prod.split)

lemma anomaly_typed: "run_typed (fst (anomaly_score M f m))"
  unfolding anomaly_score_def fst_conv model_score_def Let_def
  by (rule run_typed_map) (simp add: clamped_typed f32.fp_valid_ops)

lemma model_update_typed: "model_typed (anomaly_update f m)"
  by (simp add: model_typed_def stats_typed_def anomaly_update_def model_update_def stats_update_def Let_def f64.fp_valid_ops)

section \<open>Properties\<close>

text \<open>
  C13. Every score is typed. Whatever the inputs, NaN, infinities and rejected configurations
  included: each of the four signals and the hybrid score is a datum of \<open>f32\<close> that is NaN or lies in
  \<open>[0, 1]\<close> (or its computation panics), and one update makes every statistic of the anomaly model a
  datum of \<open>f64\<close>, whatever the model held. No score is infinite or outside the unit interval.
\<close>

theorem scores_are_typed:
  "score_typed (compute_hybrid v d e a cfg) \<and>
   run_typed (velocity_compute M C now ts w rpm) \<and>
   run_typed (divergence_compute debug xs ys) \<and>
   score_typed (inverse_bigram_entropy M U order history window) \<and>
   run_typed (fst (anomaly_score M f m)) \<and>
   model_typed (anomaly_update f m)"
  by (intro conjI hybrid_typed velocity_typed divergence_typed entropy_typed anomaly_typed model_update_typed)

end
