(* ===== verification/Rng.thy ===== *)
theory Rng
  imports Prelude
begin

text \<open>
  The random generator. \<open>StdRng\<close> and the traits that use it come from the \<open>rand\<close> crate: the
  record \<open>rng\<close> has the four operations the engine calls, over a type of generator states
  that is threaded explicitly, and the locale \<open>rng_laws\<close> what they promise whatever the
  stream of bits is. The Fisher-Yates loop is the engine's own, from \<open>reorder_sentences\<close> in
  \<open>engine/src/defence/mod.rs\<close>.
\<close>

record 'g rng =
  seed_from_u64 :: "64 word \<Rightarrow> 'g"
  gen_range_to :: "nat \<Rightarrow> 'g \<Rightarrow> nat \<times> 'g"                  \<comment> \<open>\<open>rng.gen_range(0..=i)\<close>\<close>
  shuffle_with :: "nat list \<Rightarrow> 'g \<Rightarrow> nat list \<times> 'g"        \<comment> \<open>\<open>xs.shuffle(rng)\<close>\<close>
  choose_index :: "nat \<Rightarrow> 'g \<Rightarrow> nat option \<times> 'g"           \<comment> \<open>\<open>xs.choose(rng)\<close>, by the length of \<open>xs\<close>\<close>

locale rng_laws =
  fixes R :: "'g rng"
  assumes gen_range_le: "fst (gen_range_to R i g) \<le> i"
    and shuffle_perm: "mset (fst (shuffle_with R xs g)) = mset xs"
    and choose_some: "0 < n \<Longrightarrow> \<exists>k < n. fst (choose_index R n g) = Some k"
    and choose_none: "fst (choose_index R 0 g) = None"

section \<open>Fisher-Yates\<close>

definition swap :: "'a list \<Rightarrow> nat \<Rightarrow> nat \<Rightarrow> 'a list" where
  "swap xs i j = xs[i := xs ! j, j := xs ! i]"

text \<open>\<open>for i in (1..n).rev() { let j = rng.gen_range(0..=i); xs.swap(i, j); }\<close>, from \<open>i = n - 1\<close>.\<close>

fun fy_loop :: "(nat \<Rightarrow> 'g \<Rightarrow> nat \<times> 'g) \<Rightarrow> nat \<Rightarrow> 'a list \<Rightarrow> 'g \<Rightarrow> 'a list \<times> 'g" where
  "fy_loop gen 0 xs g = (xs, g)"
| "fy_loop gen (Suc i) xs g =
     (let (j, g') = gen (Suc i) g in fy_loop gen i (swap xs (Suc i) j) g')"

lemma length_swap [simp]: "length (swap xs i j) = length xs"
  by (simp add: swap_def)

lemma mset_swap_list: "i < length xs \<Longrightarrow> j < length xs \<Longrightarrow> mset (swap xs i j) = mset xs"
  by (simp add: swap_def mset_swap)

lemma fy_loop_perm:
  assumes "\<And>i g. fst (gen i g) \<le> i" "i < length xs \<or> i = 0"
  shows "mset (fst (fy_loop gen i xs g)) = mset xs"
  using assms(2)
proof (induction i arbitrary: xs g)
  case (Suc i)
  obtain j g' where j: "gen (Suc i) g = (j, g')" by fastforce
  then have "j \<le> Suc i" using assms(1) [of "Suc i" g] by simp
  with Suc j show ?case by (simp add: mset_swap_list)
qed simp

section \<open>An instance\<close>

text \<open>
  A linear congruential generator, with the engine's own shuffle.
\<close>

definition lcg_next :: "64 word \<Rightarrow> 64 word" where
  "lcg_next g = g * 6364136223846793005 + 1442695040888963407"

definition lcg_range :: "nat \<Rightarrow> 64 word \<Rightarrow> nat \<times> 64 word" where
  "lcg_range i g = (unat (drop_bit 33 g) mod Suc i, lcg_next g)"

definition lcg_rng :: "64 word rng" where
  "lcg_rng =
     \<lparr>seed_from_u64 = lcg_next,
      gen_range_to = lcg_range,
      shuffle_with = (\<lambda>xs g. fy_loop lcg_range (length xs - 1) xs g),
      choose_index = (\<lambda>n g. if n = 0 then (None, g)
                            else (Some (fst (lcg_range (n - 1) g)), snd (lcg_range (n - 1) g)))\<rparr>"

lemma lcg_range_le: "fst (lcg_range i g) \<le> i"
  using mod_less_divisor [of "Suc i" "unat (drop_bit 33 g)"] by (simp add: lcg_range_def less_Suc_eq_le)

interpretation lcg: rng_laws lcg_rng
proof
  show "mset (fst (shuffle_with lcg_rng xs g)) = mset xs" for xs g
    using fy_loop_perm [of lcg_range "length xs - 1" xs g, OF lcg_range_le] by (cases xs) (auto simp: lcg_rng_def)
  show "\<exists>k < n. fst (choose_index lcg_rng n g) = Some k" if "0 < n" for n g
    using that lcg_range_le [of "n - 1" g] by (auto simp: lcg_rng_def)
qed (simp_all add: lcg_rng_def lcg_range_le)

end
