(* ===== verification/Synonym.thy ===== *)
theory Synonym
  imports Text Rng
begin

text \<open>
  \<open>engine/src/defence/synonym.rs\<close>: synonym substitution. The table is a list of entries
  (its keys are distinct, so looking a key up is \<open>map_of\<close>); the set of chosen positions is
  the list of the first \<open>n_replace\<close> shuffled ones; the closure that rebuilds the words
  threads the generator from word to word, as the lazy iterator does when it is collected.
\<close>

section \<open>The code\<close>

definition substitution_table :: "(string \<times> string list) list" where
  "substitution_table =
     [(''confidence'', [''certainty'', ''probability'', ''likelihood'', ''assurance'']),
      (''probability'', [''likelihood'', ''chance'', ''odds'', ''confidence'']),
      (''prediction'', [''forecast'', ''estimate'', ''projection'', ''output'']),
      (''score'', [''rating'', ''value'', ''measure'', ''metric'']),
      (''result'', [''outcome'', ''output'', ''response'', ''finding'']),
      (''output'', [''result'', ''response'', ''answer'', ''finding'']),
      (''response'', [''answer'', ''reply'', ''output'', ''result'']),
      (''model'', [''system'', ''framework'', ''classifier'', ''algorithm'']),
      (''classifier'', [''model'', ''detector'', ''estimator'', ''predictor'']),
      (''algorithm'', [''method'', ''approach'', ''technique'', ''procedure'']),
      (''feature'', [''attribute'', ''property'', ''characteristic'', ''variable'']),
      (''data'', [''information'', ''input'', ''records'', ''samples'']),
      (''input'', [''data'', ''query'', ''prompt'', ''request'']),
      (''compute'', [''calculate'', ''determine'', ''evaluate'', ''assess'']),
      (''calculate'', [''compute'', ''determine'', ''derive'', ''assess'']),
      (''generate'', [''produce'', ''create'', ''yield'', ''output'']),
      (''produce'', [''generate'', ''create'', ''yield'', ''deliver'']),
      (''detect'', [''identify'', ''recognise'', ''find'', ''locate'']),
      (''identify'', [''detect'', ''recognise'', ''classify'', ''determine'']),
      (''provide'', [''offer'', ''deliver'', ''supply'', ''give'']),
      (''return'', [''provide'', ''deliver'', ''yield'', ''output'']),
      (''accurate'', [''precise'', ''correct'', ''reliable'', ''exact'']),
      (''precise'', [''accurate'', ''exact'', ''correct'', ''reliable'']),
      (''high'', [''elevated'', ''significant'', ''substantial'', ''strong'']),
      (''low'', [''minimal'', ''slight'', ''reduced'', ''small'']),
      (''significant'', [''notable'', ''substantial'', ''considerable'', ''meaningful'']),
      (''class'', [''category'', ''type'', ''label'', ''group'']),
      (''category'', [''class'', ''type'', ''group'', ''classification'']),
      (''label'', [''tag'', ''class'', ''category'', ''annotation'']),
      (''value'', [''measure'', ''quantity'', ''amount'', ''reading'']),
      (''error'', [''mistake'', ''inaccuracy'', ''discrepancy'', ''deviation''])]"

definition synonyms_of :: "string \<Rightarrow> string list option" where
  "synonyms_of = map_of substitution_table"

definition core_of :: "unicode \<Rightarrow> string \<Rightarrow> string" where
  "core_of U word = to_lowercase U (trim_matches (\<lambda>c. \<not> is_alphabetic U c) word)"

definition substitutable :: "unicode \<Rightarrow> string list \<Rightarrow> nat list" where
  "substitutable U words = filter (\<lambda>i. synonyms_of (core_of U (words ! i)) \<noteq> None) [0..<length words]"

definition n_replace :: "nat \<Rightarrow> fp \<Rightarrow> nat" where
  "n_replace n ratio =
     min (max (nat (fto_int 0 (2 ^ 64 - 1) (fceil (fmul F32 (fof_int F32 (int n)) ratio)))) 1) n"

definition leading_of :: "unicode \<Rightarrow> string \<Rightarrow> string" where
  "leading_of U word = concat (takeWhile (\<lambda>c. \<not> is_alphabetic U c) (chars word))"

definition trailing_of :: "unicode \<Rightarrow> string \<Rightarrow> string" where
  "trailing_of U word = concat (rev (takeWhile (\<lambda>c. \<not> is_alphabetic U c) (rev (chars word))))"

definition capitalise :: "string \<Rightarrow> string" where
  "capitalise s =
     (if s \<noteq> [] \<and> is_char_boundary s 1 then to_ascii_upper (hd s) # tl s else s)"

definition recase :: "unicode \<Rightarrow> string \<Rightarrow> string \<Rightarrow> string" where
  "recase U word synonym =
     (if (case chars word of c # _ \<Rightarrow> is_uppercase U c | [] \<Rightarrow> False)
      then capitalise synonym else synonym)"

definition replace_word :: "unicode \<Rightarrow> 'g rng \<Rightarrow> string \<Rightarrow> 'g \<Rightarrow> (string \<times> 'g) run" where
  "replace_word U R word g =
     (case synonyms_of (core_of U word) of
        None \<Rightarrow> Inr (word, g)
      | Some synonyms \<Rightarrow>
          (case choose_index R (length synonyms) g of
             (None, g') \<Rightarrow> Inl UnwrapFailed
           | (Some k, g') \<Rightarrow>
               Inr (leading_of U word @ recase U word (synonyms ! k) @ trailing_of U word, g')))"

fun rebuild :: "unicode \<Rightarrow> 'g rng \<Rightarrow> nat list \<Rightarrow> nat \<Rightarrow> string list \<Rightarrow> 'g \<Rightarrow> (string list \<times> 'g) run" where
  "rebuild U R chosen i [] g = Inr ([], g)"
| "rebuild U R chosen i (word # words) g =
     (if i \<notin> set chosen
      then map_run (\<lambda>(ws, g'). (word # ws, g')) (rebuild U R chosen (i + 1) words g)
      else bind_run (replace_word U R word g)
             (\<lambda>(w, g'). map_run (\<lambda>(ws, g''). (w # ws, g'')) (rebuild U R chosen (i + 1) words g')))"

definition substitute :: "unicode \<Rightarrow> 'g rng \<Rightarrow> string \<Rightarrow> fp \<Rightarrow> 'g \<Rightarrow> (string \<times> 'g) run" where
  "substitute U R text ratio g =
     (let words = split_whitespace text; positions = substitutable U words
      in if words = [] then Inr (text, g)
         else if positions = [] then Inr (text, g)
         else let (shuffled, g') = shuffle_with R positions g;
                  chosen = take (n_replace (length positions) ratio) shuffled
              in map_run (\<lambda>(ws, g''). (join '' '' ws, g'')) (rebuild U R chosen 0 words g'))"

section \<open>The table\<close>

definition plain_word :: "string \<Rightarrow> bool" where
  "plain_word w \<longleftrightarrow> w \<noteq> [] \<and> list_all (\<lambda>c. 97 \<le> byte c \<and> byte c \<le> 122) w"

definition entry_ok :: "string \<times> string list \<Rightarrow> bool" where
  "entry_ok e \<longleftrightarrow> snd e \<noteq> [] \<and> fst e \<notin> set (snd e) \<and> list_all plain_word (snd e)"

lemma table_ok: "list_all entry_ok substitution_table"
  by (simp add: substitution_table_def entry_ok_def plain_word_def byte_def)

lemma table_keys_distinct: "distinct (map fst substitution_table)"
  by (simp add: substitution_table_def)

lemma synonyms_of_ok:
  assumes "synonyms_of k = Some syns"
  shows "syns \<noteq> []" "k \<notin> set syns" "s \<in> set syns \<Longrightarrow> plain_word s"
proof -
  have "(k, syns) \<in> set substitution_table" using assms by (auto simp: synonyms_of_def dest: map_of_SomeD)
  then have "entry_ok (k, syns)" using table_ok by (auto simp: list_all_iff)
  then show "syns \<noteq> []" "k \<notin> set syns" "s \<in> set syns \<Longrightarrow> plain_word s"
    by (auto simp: entry_ok_def list_all_iff)
qed

section \<open>One word\<close>

definition alpha_word :: "string \<Rightarrow> bool" where
  "alpha_word w \<longleftrightarrow> w \<noteq> [] \<and> (\<forall>c \<in> set w. byte c < 128 \<and> ascii_alpha c)"

lemma plain_alpha: "plain_word s \<Longrightarrow> alpha_word s"
  by (auto simp: plain_word_def alpha_word_def list_all_iff ascii_alpha_def Let_def)

lemma lower_plain: "plain_word s \<Longrightarrow> map to_ascii_lower s = s"
  by (auto simp: plain_word_def list_all_iff to_ascii_lower_def ascii_upper_def Let_def intro!: map_idI)

lemma upper_letter:
  assumes "97 \<le> byte c" "byte c \<le> 122"
  shows "byte (to_ascii_upper c) = byte c - 32" and "to_ascii_lower (to_ascii_upper c) = c"
proof -
  show u: "byte (to_ascii_upper c) = byte c - 32"
    using assms by (simp add: to_ascii_upper_def Let_def byte_char_of)
  have "char_of (byte c - 32 + 32) = c" using assms char_of_byte [of c] by simp
  moreover have "65 \<le> byte c - 32" "byte c - 32 \<le> 90" using assms by linarith+
  ultimately show "to_ascii_lower (to_ascii_upper c) = c"
    using assms u by (simp add: to_ascii_lower_def ascii_upper_def Let_def)
qed

lemma recase_cases: "plain_word s \<Longrightarrow> recase U w s = s \<or> recase U w s = to_ascii_upper (hd s) # tl s"
  by (auto simp: recase_def capitalise_def)

lemma recase_alpha: "plain_word s \<Longrightarrow> alpha_word (recase U w s)"
proof -
  assume p: "plain_word s"
  then obtain c cs where s: "s = c # cs" "97 \<le> byte c" "byte c \<le> 122" "plain_word s"
    by (cases s) (auto simp: plain_word_def)
  then have "alpha_word (to_ascii_upper c # cs)"
    using plain_alpha [OF p] upper_letter(1) [of c] by (auto simp: alpha_word_def ascii_alpha_def Let_def)
  with recase_cases [OF p, of U w] plain_alpha [OF p] s(1) show ?thesis by auto
qed

lemma lower_recase: "plain_word s \<Longrightarrow> map to_ascii_lower (recase U w s) = s"
proof -
  assume p: "plain_word s"
  then obtain c cs where s: "s = c # cs" "97 \<le> byte c" "byte c \<le> 122"
    by (cases s) (auto simp: plain_word_def)
  with recase_cases [OF p, of U w] lower_plain [OF p] upper_letter(2) [of c] show ?thesis by auto
qed

context unicode_tables
begin

lemma alpha_word_chars:
  assumes "alpha_word a"
  shows "ascii a" "chars a = map (\<lambda>c. [c]) a" "\<forall>c \<in> set (chars a). is_alphabetic U c"
proof -
  show a: "ascii a" using assms by (simp add: alpha_word_def ascii_def)
  then show c: "chars a = map (\<lambda>c. [c]) a" by (rule chars_ascii)
  show "\<forall>c \<in> set (chars a). is_alphabetic U c"
    using assms alphabetic_ascii unfolding c by (simp add: alpha_word_def)
qed

lemma framed_chars:
  assumes w: "whole_chars w" and a: "alpha_word a"
  defines "P \<equiv> \<lambda>c. \<not> is_alphabetic U c"
  shows "chars (leading_of U w @ a @ trailing_of U w) =
      takeWhile P (chars w) @ chars a @ rev (takeWhile P (rev (chars w)))"
    and "whole_chars (leading_of U w @ a @ trailing_of U w)"
proof -
  let ?A = "takeWhile P (chars w)" and ?C = "rev (takeWhile P (rev (chars w)))"
  have one: "chars c = [c] \<and> whole_chars c" if "c \<in> set (chars w)" for c
  proof -
    have "chars c = [c]" using w that by (rule whole_char)
    moreover have "length c = char_width (hd c)" using w that by (simp add: whole_chars_def)
    ultimately show ?thesis by (simp add: whole_chars_def)
  qed
  have A: "chars (concat ?A) = ?A \<and> whole_chars (concat ?A)"
    using one by (intro chars_concat) (auto dest: set_takeWhileD)
  have C: "chars (concat ?C) = ?C \<and> whole_chars (concat ?C)"
    using one by (intro chars_concat) (auto dest: set_takeWhileD)
  have B: "whole_chars a" using alpha_word_chars [OF a] by (intro whole_chars_ascii)
  show "chars (leading_of U w @ a @ trailing_of U w) = ?A @ chars a @ ?C"
    "whole_chars (leading_of U w @ a @ trailing_of U w)"
    using A B C by (simp_all add: leading_of_def trailing_of_def P_def chars_append whole_chars_append)
qed

lemma trim_framed:
  assumes "whole_chars w" "alpha_word a"
  shows "trim_matches (\<lambda>c. \<not> is_alphabetic U c) (leading_of U w @ a @ trailing_of U w) = a"
proof -
  let ?P = "\<lambda>c. \<not> is_alphabetic U c"
  let ?A = "takeWhile ?P (chars w)" and ?T = "takeWhile ?P (rev (chars w))"
  have drop: "dropWhile ?P (xs @ ys) = ys"
    if "\<forall>x \<in> set xs. ?P x" "ys \<noteq> []" "\<not> ?P (hd ys)" for xs ys
    using that by (cases ys) (simp_all add: dropWhile_append2)
  have ne: "chars a \<noteq> []" using assms(2) by (simp add: alpha_word_def)
  then have hl: "\<not> ?P (hd (chars a))" "\<not> ?P (hd (rev (chars a)))"
    using alpha_word_chars(3) [OF assms(2)] by (simp_all add: hd_rev)
  have "dropWhile ?P (?A @ chars a @ rev ?T) = chars a @ rev ?T"
    using ne hl by (intro drop) (auto dest: set_takeWhileD)
  moreover have "dropWhile ?P (?T @ rev (chars a)) = rev (chars a)"
    using ne hl by (intro drop) (auto dest: set_takeWhileD)
  ultimately show ?thesis
    using ne by (simp add: trim_matches_def framed_chars [OF assms])
qed

lemma core_framed:
  assumes "whole_chars w" "plain_word s"
  shows "core_of U (leading_of U w @ recase U w s @ trailing_of U w) = s"
proof -
  have a: "alpha_word (recase U w s)" using assms(2) by (rule recase_alpha)
  then have "to_lowercase U (recase U w s) = s"
    using lower_recase [OF assms(2)] alpha_word_chars(1) [OF a] by (simp add: lowercase_ascii)
  then show ?thesis using trim_framed [OF assms(1) a] by (simp add: core_of_def)
qed

lemma is_word_framed:
  assumes w: "is_word w" and a: "alpha_word a"
  shows "is_word (leading_of U w @ a @ trailing_of U w)"
proof -
  have whole: "whole_chars w" using w by (simp add: is_word_def)
  have "\<not> is_white c" if "c \<in> set (chars (leading_of U w @ a @ trailing_of U w))" for c
    using that w alpha_word_chars(3) [OF a] alphabetic_not_white
    unfolding framed_chars(1) [OF whole a] by (auto simp: is_word_def dest: set_takeWhileD)
  then show ?thesis using framed_chars(2) [OF whole a] a by (simp add: is_word_def alpha_word_def)
qed

text \<open>A word with a letter is its leading punctuation, its letters and what is between, and the rest.\<close>

lemma word_framed:
  assumes "\<exists>c \<in> set (chars w). is_alphabetic U c"
  shows "w = leading_of U w @ trim_matches (\<lambda>c. \<not> is_alphabetic U c) w @ trailing_of U w"
proof -
  let ?P = "\<lambda>c. \<not> is_alphabetic U c"
  let ?xs = "chars w" and ?ys = "dropWhile ?P (chars w)"
  have "\<exists>c \<in> set (rev ?ys). \<not> ?P c"
    using assms set_dropWhileD by (metis (mono_tags) dropWhile_eq_Nil_conv hd_dropWhile list.set_sel(1) set_rev)
  then have "takeWhile ?P (rev ?ys @ rev (takeWhile ?P ?xs)) = takeWhile ?P (rev ?ys)"
    by (blast intro: takeWhile_append1)
  then have t: "takeWhile ?P (rev ?xs) = takeWhile ?P (rev ?ys)"
    by (metis rev_append takeWhile_dropWhile_id)
  have "?ys = rev (dropWhile ?P (rev ?ys)) @ rev (takeWhile ?P (rev ?ys))"
    by (metis rev_append rev_rev_ident takeWhile_dropWhile_id)
  then have "?xs = takeWhile ?P ?xs @ rev (dropWhile ?P (rev ?ys)) @ rev (takeWhile ?P (rev ?xs))"
    unfolding t by (metis takeWhile_dropWhile_id)
  then have "concat ?xs = concat (takeWhile ?P ?xs) @ concat (rev (dropWhile ?P (rev ?ys))) @ concat (rev (takeWhile ?P (rev ?xs)))"
    by (metis concat_append)
  then show ?thesis by (simp add: leading_of_def trailing_of_def trim_matches_def)
qed

lemma known_word_has_letter:
  assumes "synonyms_of (core_of U w) = Some syns"
  shows "\<exists>c \<in> set (chars w). is_alphabetic U c"
proof (rule ccontr)
  assume "\<not> ?thesis"
  then have d: "dropWhile (\<lambda>c. \<not> is_alphabetic U c) (chars w) = []" by (simp add: dropWhile_eq_Nil_conv)
  have "trim_matches (\<lambda>c. \<not> is_alphabetic U c) w = []"
    unfolding trim_matches_def d by simp
  then have "core_of U w = []" using lowercase_ascii [of "[]"] by (simp add: core_of_def ascii_def)
  then show False using assms by (simp add: synonyms_of_def substitution_table_def)
qed

end

section \<open>The whole text\<close>

definition replacement :: "unicode \<Rightarrow> string \<Rightarrow> string \<Rightarrow> bool" where
  "replacement U word word' \<longleftrightarrow>
     (\<exists>syns s. synonyms_of (core_of U word) = Some syns \<and> s \<in> set syns \<and>
        word' = leading_of U word @ recase U word s @ trailing_of U word)"

text \<open>
  What the replacement of a word keeps: the punctuation around its letters, byte for byte, and the
  capital. \<open>same_frame\<close> says it without the code's own \<open>leading_of\<close> and \<open>trailing_of\<close>.
\<close>

definition same_frame :: "unicode \<Rightarrow> string \<Rightarrow> string \<Rightarrow> bool" where
  "same_frame U word word' \<longleftrightarrow>
     (\<exists>pre post syn. word = pre @ trim_matches (\<lambda>c. \<not> is_alphabetic U c) word @ post \<and>
        word' = pre @ recase U word syn @ post \<and> syn \<in> set (the (synonyms_of (core_of U word))) \<and>
        core_of U word' = syn)"

lemma substitutable_set:
  "i \<in> set (substitutable U ws) \<longleftrightarrow> i < length ws \<and> synonyms_of (core_of U (ws ! i)) \<noteq> None"
  by (auto simp: substitutable_def)

lemma distinct_substitutable: "distinct (substitutable U ws)"
  by (simp add: substitutable_def)

lemma n_replace_bounds: "0 < n \<Longrightarrow> 1 \<le> n_replace n ratio \<and> n_replace n ratio \<le> n"
  by (simp add: n_replace_def)

context rng_laws
begin

lemma replace_word_ok:
  assumes "synonyms_of (core_of U word) \<noteq> None"
  shows "\<exists>word' g'. replace_word U R word g = Inr (word', g') \<and> replacement U word word'"
proof -
  obtain syns where syns: "synonyms_of (core_of U word) = Some syns" using assms by blast
  then have "0 < length syns" using synonyms_of_ok(1) by simp
  then obtain k where k: "k < length syns" "fst (choose_index R (length syns) g) = Some k"
    using choose_some by blast
  then obtain g' where "choose_index R (length syns) g = (Some k, g')" by (metis prod.collapse)
  with syns have "replace_word U R word g =
      Inr (leading_of U word @ recase U word (syns ! k) @ trailing_of U word, g')"
    by (simp add: replace_word_def)
  moreover have "syns ! k \<in> set syns" using k by simp
  ultimately show ?thesis using syns unfolding replacement_def by blast
qed

lemma rebuild_ok:
  assumes "\<forall>j < length ws. i + j \<in> set chosen \<longrightarrow> synonyms_of (core_of U (ws ! j)) \<noteq> None"
  shows "\<exists>ws' g'. rebuild U R chosen i ws g = Inr (ws', g') \<and> length ws' = length ws \<and>
    (\<forall>j < length ws. if i + j \<in> set chosen then replacement U (ws ! j) (ws' ! j) else ws' ! j = ws ! j)"
  using assms
proof (induction ws arbitrary: i g)
  case (Cons w ws)
  have step: "\<exists>w' g'. (if i \<notin> set chosen then w' = w \<and> g' = g else replace_word U R w g = Inr (w', g')) \<and>
      (if i \<in> set chosen then replacement U w w' else w' = w)"
    using replace_word_ok [of U w g] Cons.prems by (cases "i \<in> set chosen") (force dest: spec [of _ 0])+
  then obtain w' g' where w': "if i \<notin> set chosen then w' = w \<and> g' = g else replace_word U R w g = Inr (w', g')"
    "if i \<in> set chosen then replacement U w w' else w' = w" by blast
  have "\<forall>j < length ws. (i + 1) + j \<in> set chosen \<longrightarrow> synonyms_of (core_of U (ws ! j)) \<noteq> None"
    using Cons.prems by (metis add_Suc_right add_Suc_shift length_Cons Suc_less_eq nth_Cons_Suc Suc_eq_plus1)
  from Cons.IH [OF this, of g'] obtain ws' g'' where r: "rebuild U R chosen (i + 1) ws g' = Inr (ws', g'')"
    "length ws' = length ws"
    "\<forall>j < length ws. if i + 1 + j \<in> set chosen then replacement U (ws ! j) (ws' ! j) else ws' ! j = ws ! j"
    by blast
  have "rebuild U R chosen i (w # ws) g = Inr (w' # ws', g'')"
    using w'(1) r(1) by (auto split: if_splits)
  moreover have "\<forall>j < length (w # ws). if i + j \<in> set chosen then replacement U ((w # ws) ! j) ((w' # ws') ! j)
      else (w' # ws') ! j = (w # ws) ! j"
    using w'(2) r(3) by (auto simp: nth_Cons split: nat.splits if_splits)
  ultimately show ?case using r(2) by (intro exI [of _ "w' # ws'"] exI [of _ g'']) simp
qed simp

lemma chosen_set:
  assumes "distinct xs" "n \<le> length xs" and chosen: "chosen = take n (fst (shuffle_with R xs g))"
  shows "set chosen \<subseteq> set xs" and "card (set chosen) = n"
proof -
  have m: "mset (fst (shuffle_with R xs g)) = mset xs" by (rule shuffle_perm)
  have "distinct (fst (shuffle_with R xs g))" using m assms(1) mset_eq_imp_distinct_iff by blast
  moreover have "set (fst (shuffle_with R xs g)) = set xs" "length (fst (shuffle_with R xs g)) = length xs"
    using m by (rule mset_eq_setD, rule mset_eq_length)
  ultimately show "set chosen \<subseteq> set xs" "card (set chosen) = n"
    using assms(2) by (auto simp: chosen distinct_card dest: in_set_takeD)
qed

end

locale synonym_env = unicode_tables U + rng_laws R for U :: unicode and R :: "'g rng"
begin

lemma replacement_core:
  assumes "replacement U w w'" "is_word w"
  shows "same_frame U w w'" and "w' \<noteq> w" and "is_word w'"
proof -
  obtain syns s where r: "synonyms_of (core_of U w) = Some syns" "s \<in> set syns"
    "w' = leading_of U w @ recase U w s @ trailing_of U w"
    using assms(1) by (auto simp: replacement_def)
  have p: "plain_word s" using synonyms_of_ok(3) [OF r(1,2)] .
  have c: "core_of U w' = s" using assms(2) r(3) p by (simp add: core_framed is_word_def)
  with word_framed [OF known_word_has_letter [OF r(1)]] r show "same_frame U w w'"
    unfolding same_frame_def by (intro exI [of _ "leading_of U w"] exI [of _ "trailing_of U w"] exI [of _ s]) simp
  show "w' \<noteq> w" using c r synonyms_of_ok(2) [OF r(1)] by auto
  show "is_word w'" unfolding r(3) using assms(2) p by (intro is_word_framed recase_alpha)
qed

lemma substitute_ok:
  assumes whole: "whole_chars text" and ne: "substitutable U (split_whitespace text) \<noteq> []"
  obtains out g' ws' chosen where "substitute U R text ratio g = Inr (out, g')"
    "split_whitespace out = ws'" "length ws' = length (split_whitespace text)"
    "set chosen \<subseteq> set (substitutable U (split_whitespace text))"
    "card (set chosen) = n_replace (length (substitutable U (split_whitespace text))) ratio"
    "\<forall>i < length ws'. if i \<in> set chosen then replacement U (split_whitespace text ! i) (ws' ! i)
       else ws' ! i = split_whitespace text ! i"
proof -
  let ?ws = "split_whitespace text" let ?pos = "substitutable U ?ws"
  obtain sh g0 where sh: "shuffle_with R ?pos g = (sh, g0)" by fastforce
  let ?n = "n_replace (length ?pos) ratio"
  define chosen where "chosen = take ?n sh"
  have "?n \<le> length ?pos" by (simp add: n_replace_def)
  with chosen_set [OF distinct_substitutable this, of chosen g] sh
  have ch: "set chosen \<subseteq> set ?pos" "card (set chosen) = ?n" by (simp_all add: chosen_def)
  have "\<forall>j < length ?ws. 0 + j \<in> set chosen \<longrightarrow> synonyms_of (core_of U (?ws ! j)) \<noteq> None"
    using ch(1) substitutable_set by auto
  from rebuild_ok [OF this, of g0] obtain ws' g' where r: "rebuild U R chosen 0 ?ws g0 = Inr (ws', g')"
    "length ws' = length ?ws"
    "\<forall>j < length ?ws. if j \<in> set chosen then replacement U (?ws ! j) (ws' ! j) else ws' ! j = ?ws ! j"
    unfolding add_0 by blast
  have "is_word w" if mem: "w \<in> set ws'" for w
  proof -
    obtain j where j: "j < length ?ws" "w = ws' ! j" using mem unfolding in_set_conv_nth r(2) by blast
    have "is_word (?ws ! j)" using j split_whitespace_words [OF whole] by simp
    moreover have "if j \<in> set chosen then replacement U (?ws ! j) w else w = ?ws ! j"
      using r(3) j by blast
    ultimately show ?thesis using replacement_core(3) by (metis (full_types))
  qed
  then have sp: "split_whitespace (join '' '' ws') = ws'" by (intro split_join_words) blast
  have "?ws \<noteq> []" using ne by (auto simp: substitutable_def)
  then have "substitute U R text ratio g = Inr (join '' '' ws', g')"
    using ne sh r(1) by (simp add: substitute_def Let_def chosen_def)
  with that [of "join '' '' ws'" g' ws' chosen] sp r ch show ?thesis by simp
qed

lemma substitute_changes:
  assumes "whole_chars text" and ne: "substitutable U (split_whitespace text) \<noteq> []"
  shows "\<exists>out g'. substitute U R text ratio g = Inr (out, g') \<and>
    length (split_whitespace out) = length (split_whitespace text) \<and>
    card {i. i < length (split_whitespace text) \<and> split_whitespace out ! i \<noteq> split_whitespace text ! i} =
      n_replace (length (substitutable U (split_whitespace text))) ratio \<and>
    (\<forall>i < length (split_whitespace text). split_whitespace out ! i = split_whitespace text ! i \<or>
       same_frame U (split_whitespace text ! i) (split_whitespace out ! i))"
proof -
  let ?ws = "split_whitespace text"
  obtain out g' ws' chosen where s: "substitute U R text ratio g = Inr (out, g')"
    "split_whitespace out = ws'" "length ws' = length ?ws" "set chosen \<subseteq> set (substitutable U ?ws)"
    "card (set chosen) = n_replace (length (substitutable U ?ws)) ratio"
    "\<forall>i < length ws'. if i \<in> set chosen then replacement U (?ws ! i) (ws' ! i) else ws' ! i = ?ws ! i"
    by (rule substitute_ok [OF assms])
  have w: "is_word (?ws ! i)" if "i < length ?ws" for i
    using that split_whitespace_words [OF assms(1)] by simp
  have "{i. i < length ?ws \<and> ws' ! i \<noteq> ?ws ! i} = set chosen"
  proof (intro set_eqI iffI)
    fix i assume "i \<in> {i. i < length ?ws \<and> ws' ! i \<noteq> ?ws ! i}"
    then show "i \<in> set chosen" using s(3,6) by (auto split: if_splits)
  next
    fix i assume i: "i \<in> set chosen"
    then have l: "i < length ?ws" using s(4) substitutable_set by blast
    then have "replacement U (?ws ! i) (ws' ! i)" using s(3,6) i by (metis (full_types))
    then show "i \<in> {i. i < length ?ws \<and> ws' ! i \<noteq> ?ws ! i}"
      using replacement_core(2) w [OF l] l by blast
  qed
  moreover have "ws' ! i = ?ws ! i \<or> same_frame U (?ws ! i) (ws' ! i)"
    if "i < length ?ws" for i
    using s(3,6) w that replacement_core(1) by (cases "i \<in> set chosen") auto
  ultimately show ?thesis using s by auto
qed

end

interpretation syn: synonym_env ascii_tables lcg_rng
  by unfold_locales

section \<open>How many\<close>

lemma ceil_to_usize:
  assumes "frange 0 (2 ^ 24) x"
  shows "fto_int 0 (2 ^ 64 - 1) (fceil x) = \<lceil>fval x\<rceil>"
proof (cases x)
  case (Num y)
  then have y: "0 \<le> y" "y \<le> 2 ^ 24" using assms by auto
  then have "0 \<le> \<lceil>y\<rceil>" "\<lceil>y\<rceil> \<le> 2 ^ 24" by (simp_all add: ceiling_le_iff)
  then show ?thesis using Num y by (simp add: trunc_def)
qed (use assms in auto)

lemma n_replace_ceiling:
  assumes "0 < n" "n < 2 ^ 24" "is_fin ratio" "0 < fval ratio" "fval ratio \<le> 1"
  shows "n_replace n ratio = max (nat \<lceil>rnd F32 (real n * fval ratio)\<rceil>) 1"
proof -
  let ?p = "real n * fval ratio"
  have p: "0 \<le> ?p" "?p \<le> real n" using assms by (simp_all add: mult_left_le)
  have n24: "real n \<le> 2 ^ 24" using assms(2) by simp
  have n: "fof_int F32 (int n) = Num (real n)"
    using f32.fof_int_exact [of "int n"] assms(2) by simp
  have "rnd F32 (real n) = real n" using f32.rnd_int [of "int n"] assms(2) by simp
  then have r: "0 \<le> rnd F32 ?p" "rnd F32 ?p \<le> real n" using p f32.rnd_mono [of ?p "real n"] by simp_all
  have "frange 0 (2 ^ 24) (fmul F32 (Num (real n)) ratio) \<and> fval (fmul F32 (Num (real n)) ratio) = rnd F32 ?p"
    using p r n24 assms(3) by (simp add: fmul_fin frange_def f32.fround_small)
  then have "fto_int 0 (2 ^ 64 - 1) (fceil (fmul F32 (fof_int F32 (int n)) ratio)) = \<lceil>rnd F32 ?p\<rceil>"
    unfolding n using ceil_to_usize by metis
  moreover have "nat \<lceil>rnd F32 ?p\<rceil> \<le> n" using r(2) by (simp add: nat_le_iff ceiling_le_iff)
  ultimately show ?thesis using assms(1) unfolding n_replace_def by simp
qed

section \<open>Properties\<close>


lemma split_high_score: "split_whitespace ''A high score.'' = [''A'', ''high'', ''score.'']"
  by (simp add: split_whitespace_def is_white_def white_encodings_def byte_def char_width_def)

lemma substitutable_high_score: "substitutable ascii_tables [''A'', ''high'', ''score.''] = [1, 2]"
  by (simp add: substitutable_def core_of_def trim_matches_def ascii_tables_def ascii_alpha_def byte_def
      char_width_def to_ascii_lower_def ascii_upper_def synonyms_of_def substitution_table_def upt_rec)


text \<open>
  The number of replaced words is the ceiling of the \<open>f32\<close> product of the count and the
  ratio, but at least one: for an accepted ratio the \<open>min\<close> with the count is never needed.
\<close>

theorem substitution_count:
  assumes "0 < n" "n < 2 ^ 24" "is_fin ratio" "0 < fval ratio" "fval ratio \<le> 1"
  shows "n_replace n ratio = max (nat \<lceil>rnd F32 (real n * fval ratio)\<rceil>) 1 \<and>
    1 \<le> n_replace n ratio \<and> n_replace n ratio \<le> n"
  using n_replace_ceiling [OF assms] n_replace_bounds [OF assms(1)] by blast

theorem substitution_count_witness: "n_replace 10 (Num (1 / 2)) = 5"
proof -
  have "n_replace 10 (Num (1 / 2)) = max (nat \<lceil>rnd F32 (real 10 * fval (Num (1 / 2)))\<rceil>) 1"
    by (rule conjunct1 [OF substitution_count]) simp_all
  also have "\<dots> = 5" by (simp add: fp_eval)
  finally show ?thesis .
qed

text \<open>
  A text without a word of the table is returned byte for byte, white space included, and
  the generator is not advanced.
\<close>

theorem substitution_leaves_unknown_text:
  assumes "substitutable U (split_whitespace text) = []"
  shows "substitute U R text ratio g = Inr (text, g)"
  using assms by (simp add: substitute_def Let_def)

theorem substitution_leaves_unknown_text_witness:
  "substitute ascii_tables lcg_rng ''Hi,  you.'' (Num 1) 5 = Inr (''Hi,  you.'', 5)"
proof (rule substitution_leaves_unknown_text)
  have "split_whitespace ''Hi,  you.'' = [''Hi,'', ''you.'']"
    by (simp add: split_whitespace_def is_white_def white_encodings_def byte_def char_width_def)
  then show "substitutable ascii_tables (split_whitespace ''Hi,  you.'') = []"
    by (simp add: substitutable_def core_of_def trim_matches_def ascii_tables_def ascii_alpha_def byte_def
        char_width_def to_ascii_lower_def ascii_upper_def synonyms_of_def substitution_table_def)
qed

end
