(* ===== verification/Numeric.thy ===== *)
theory Numeric
  imports Config
begin

text \<open>
  \<open>engine/src/defence/numeric.rs\<close>: numeric perturbation. Words are 64 bits wide and wrap, as
  the source's \<open>wrapping_mul\<close> and \<open>wrapping_add\<close> do. Regular expressions are the \<open>regex\<close>
  crate's: the record \<open>regex_engine\<close>, whose \<open>re_captures\<close> gives, for each successive match,
  the byte spans of the whole match and of group 1.
\<close>

section \<open>The code\<close>

type_synonym u64 = "64 word"

type_synonym span = "nat \<times> nat"

record 're regex_engine =
  re_new :: "string \<Rightarrow> 're option"
  re_captures :: "'re \<Rightarrow> string \<Rightarrow> (span \<times> span) list"

definition number_pattern :: string where
  "number_pattern = ''(?<![a-zA-Z])(-?'' @ [CHR 0x5C] @ ''d+(?:'' @ [CHR 0x5C] @ ''.'' @ [CHR 0x5C] @ ''d+)?)(?![a-zA-Z%])''"

definition seed_to_u64 :: "string \<Rightarrow> u64" where
  "seed_to_u64 seed = foldl (\<lambda>acc b. acc * 31 + of_nat (byte b)) 0 (take 8 seed)"

definition lcg :: "u64 \<Rightarrow> u64 \<Rightarrow> u64" where
  "lcg seed position =
     (let mixed = seed * 0x9e3779b97f4a7c15 + position * 0x6c62272e07bb0142
      in mixed * 6364136223846793005 + 1442695040888963407)"

definition perturbation_factor :: "u64 \<Rightarrow> u64 \<Rightarrow> fp \<Rightarrow> fp" where
  "perturbation_factor seed position fraction =
     (let t = fdiv F64 (fof_int F64 (uint (drop_bit 32 (lcg seed position)))) (fof_int F64 (2 ^ 32 - 1))
      in fadd F64 (Num 1) (fmul F64 (fsub F64 (fmul F64 (Num 2) t) (Num 1)) (fcast F64 fraction)))"

definition perturb_int :: "fp \<Rightarrow> int \<Rightarrow> int" where
  "perturb_int factor val =
     fto_int (- (2 ^ 63)) (2 ^ 63 - 1) (fround_away (fmul F64 (fof_int F64 val) factor))"

definition decimals_of :: "string \<Rightarrow> nat" where
  "decimals_of matched = min (length matched - length (takeWhile (\<lambda>c. c \<noteq> CHR ''.'') matched) - 1) 6"

definition perturb_number :: "fp \<Rightarrow> string \<Rightarrow> string" where
  "perturb_number factor matched =
     (if CHR ''.'' \<in> set matched
      then (case parse_f64 matched of
              Some val \<Rightarrow> show_fixed (decimals_of matched) (fmul F64 val factor)
            | None \<Rightarrow> matched)
      else (case parse_i64 matched of
              Some val \<Rightarrow> show_int (perturb_int factor val)
            | None \<Rightarrow> matched))"

definition sub_text :: "string \<Rightarrow> nat \<Rightarrow> nat \<Rightarrow> string" where
  "sub_text s a b = take (b - a) (drop a s)"

text \<open>\<open>Regex::replace_all\<close>: the text between the matches is copied, each match is replaced.\<close>

fun replace_all :: "(nat \<Rightarrow> string \<Rightarrow> string) \<Rightarrow> string \<Rightarrow> nat \<Rightarrow> (span \<times> span) list \<Rightarrow> string" where
  "replace_all f s last_end [] = drop last_end s"
| "replace_all f s last_end (((a, b), (c, d)) # ms) =
     sub_text s last_end a @ f c (sub_text s c d) @ replace_all f s b ms"

definition perturb :: "'re regex_engine \<Rightarrow> string \<Rightarrow> fp \<Rightarrow> string \<Rightarrow> string run" where
  "perturb E s fraction seed =
     (if fle fraction (Num 0) \<or> s = [] then Inr s
      else let seed_int = seed_to_u64 seed
           in case re_new E number_pattern of
                None \<Rightarrow> Inl UnwrapFailed
              | Some re \<Rightarrow>
                  Inr (replace_all
                         (\<lambda>pos matched. perturb_number (perturbation_factor seed_int (of_nat pos) fraction) matched)
                         s 0 (re_captures E re s)))"

section \<open>The factor\<close>

lemma f64_of_int: "\<bar>n\<bar> < 2 ^ 53 \<Longrightarrow> fof_int F64 n = Num (of_int n)"
proof (cases "n = 0")
  case False
  assume n: "\<bar>n\<bar> < 2 ^ 53"
  have r: "rnd F64 (of_int n * 2 powi 0) = of_int n * 2 powi 0"
    unfolding F64_def using n by (intro rnd_dyadic) auto
  have "real_of_int \<bar>n\<bar> \<le> of_int (2 ^ 53)" using n by (simp only: of_int_le_iff)
  then have "\<bar>real_of_int n\<bar> \<le> 2 ^ 100" by simp
  then show ?thesis
    using r False by (simp add: fof_int_def f64.fround_Num)
qed (simp add: fof_int_def zero_sign_def)

lemma high_bits: "0 \<le> uint (drop_bit 32 (w :: u64)) \<and> uint (drop_bit 32 w) \<le> 2 ^ 32 - 1"
proof -
  have w: "0 \<le> uint w" "uint w < 2 ^ 64" using uint_lt2p [of w] by simp_all
  then have "take_bit 64 (uint w) = uint w" by (rule take_bit_int_eq_self)
  then have "uint (drop_bit 32 w) = uint w div 2 ^ 32"
    by (simp only: unsigned_drop_bit_eq) (simp add: drop_bit_eq_div)
  moreover have "0 \<le> uint w div 2 ^ 32" 
    using w(1) by (intro iffD2 [OF pos_imp_zdiv_nonneg_iff]) simp_all
  ultimately show ?thesis using w by (simp only:) auto
qed

lemma unit_quotient:
  assumes "0 \<le> k" "k \<le> 2 ^ 32 - 1"
  shows "frange 0 1 (fdiv F64 (fof_int F64 k) (fof_int F64 (2 ^ 32 - 1)))"
proof -
  have n: "fof_int F64 k = Num (of_int k)" "fof_int F64 (2 ^ 32 - 1) = Num (2 ^ 32 - 1)"
    using assms f64_of_int [of k] f64_of_int [of "2 ^ 32 - 1"] by simp_all
  have "real_of_int k \<le> of_int (2 ^ 32 - 1)" using assms(2) by (simp only: of_int_le_iff)
  then have q: "0 \<le> of_int k / (2 ^ 32 - 1 :: real)" "of_int k / (2 ^ 32 - 1 :: real) \<le> 1"
    using assms(1) by simp_all
  have "frange (rnd F64 0) (rnd F64 1) (fround F64 b (of_int k / (2 ^ 32 - 1)))" for b
    using q by (intro f64.frange_fround) auto
  then show ?thesis unfolding n by (simp add: fdiv_fin)
qed

lemma unit_draw:
  "frange 0 1 (fdiv F64 (fof_int F64 (uint (drop_bit 32 (w :: u64)))) (fof_int F64 (2 ^ 32 - 1)))"
  using high_bits [of w] by (intro unit_quotient) blast+

lemma factor_range:
  assumes "is_fin fraction" "0 \<le> fval fraction" "fval fraction \<le> 1"
  defines "f \<equiv> fval (fcast F64 fraction)"
  shows "frange (rnd F64 (1 - f)) (rnd F64 (1 + f)) (perturbation_factor seed position fraction)"
    and "0 \<le> f" and "f \<le> 1"
proof -
  let ?f = "fcast F64 fraction"
  let ?t = "fdiv F64 (fof_int F64 (uint (drop_bit 32 (lcg seed position)))) (fof_int F64 (2 ^ 32 - 1))"
  let ?u = "fsub F64 (fmul F64 (Num 2) ?t) (Num 1)"
  have F: "frange 0 1 ?f \<and> rnd F64 f = f"
  proof (cases fraction)
    case (Num x)
    have "frange (rnd F64 0) (rnd F64 1) (fround F64 (x < 0) x)"
      using assms Num by (intro f64.frange_fround) auto
    then show ?thesis
      using Num f64.fp_valid_fround [of "x < 0" x] by (simp add: fp_valid_def f_def)
  qed (use assms in auto)
  then show f: "0 \<le> f" "f \<le> 1" by (auto simp: f_def frange_def)
  have "frange (rnd F64 (2 * 0)) (rnd F64 (2 * 1)) (fmul F64 (Num 2) ?t)"
    using unit_draw by (intro f64.frange_fmul_nonneg) auto
  moreover have "rnd F64 2 = 2" by (simp add: fp_eval)
  ultimately have "frange 0 2 (fmul F64 (Num 2) ?t)" by simp
  then have "frange (rnd F64 (0 - 1)) (rnd F64 (2 - 1)) ?u" by (intro f64.frange_fsub) auto
  then have u: "is_fin ?u" "\<bar>fval ?u\<bar> \<le> 1" by (auto simp: frange_def rnd_uminus abs_le_iff)
  then have "\<bar>fval ?u * f\<bar> \<le> 1 * f" unfolding abs_mult using f by (intro mult_mono) auto
  then have "frange (rnd F64 (- f)) (rnd F64 f) (fround F64 b (fval ?u * f))" for b
    using f by (intro f64.frange_fround) (auto simp: abs_le_iff)
  then have "frange (- f) f (fmul F64 ?u ?f)"
    using F u by (simp add: fmul_fin frange_def rnd_uminus f_def)
  then have "frange (rnd F64 (1 + - f)) (rnd F64 (1 + f)) (fadd F64 (Num 1) (fmul F64 ?u ?f))"
    using f by (intro f64.frange_fadd) auto
  then show "frange (rnd F64 (1 - f)) (rnd F64 (1 + f)) (perturbation_factor seed position fraction)"
    by (simp add: perturbation_factor_def Let_def)
qed

section \<open>Integers\<close>

lemma F64_error:
  assumes "\<bar>x\<bar> < 2 powi e" "- 1000 \<le> e"
  shows "\<bar>rnd F64 x - x\<bar> \<le> 2 powi (e - 54)"
proof (cases "x = 0")
  case False
  have "2 powi floor_log2 \<bar>x\<bar> < (2::real) powi e"
    using floor_log2_bounds(1) [of "\<bar>x\<bar>"] False assms(1) by simp
  then have "floor_log2 \<bar>x\<bar> < e" by (simp only: powi_less_iff)
  then have "quantum 53 (- 1074) x \<le> e - 53" using assms(2) by (simp add: quantum_def)
  then have "(2::real) powi quantum 53 (- 1074) x \<le> 2 powi (e - 53)" by (simp only: powi_le_iff)
  also have "(2::real) powi (e - 53) = 2 * 2 powi (e - 54)" using powi_Suc [of "e - 54"] by simp
  finally have "2 powi quantum 53 (- 1074) x / 2 \<le> (2::real) powi (e - 54)" by simp
  then show ?thesis
    using rnd_error [of 53 "- 1074" "(2 ^ 53 - 1) * 2 ^ 971" x] unfolding F64_def rnd.simps by linarith
qed simp

lemma round_half_away:
  assumes "is_fin y" "\<bar>fval y\<bar> \<le> 2 ^ 60"
  shows "\<bar>of_int (fto_int (- (2 ^ 63)) (2 ^ 63 - 1) (fround_away y)) - fval y\<bar> \<le> 1 / 2"
proof (cases y)
  case (Num x)
  define n where "n = \<lfloor>\<bar>x\<bar> + 1 / 2\<rfloor>"
  have n: "of_int n \<le> \<bar>x\<bar> + 1 / 2" "\<bar>x\<bar> + 1 / 2 < of_int n + 1" "0 \<le> n"
    unfolding n_def by linarith+
  have "of_int n < (2::real) ^ 61" using n(1) assms(2) Num by simp
  then have "of_int n < real_of_int (2 ^ 61)" by simp
  then have u: "n < 2 ^ 61" by (simp only: of_int_less_iff)
  have a: "fround_away y = (if x < 0 then (if n = 0 then NZero else Num (- of_int n)) else Num (of_int n))"
    by (simp only: Num fround_away.simps Let_def n_def)
  have k: "fto_int (- (2 ^ 63)) (2 ^ 63 - 1) (Num (of_int k)) = k" if "\<bar>k\<bar> < 2 ^ 61" for k
    using that by (simp add: trunc_def)
  have t: "fto_int (- (2 ^ 63)) (2 ^ 63 - 1) (fround_away y) = (if x < 0 then - n else n)"
    using k [of n] k [of "- n"] u n(3) unfolding a by auto
  show ?thesis unfolding t abs_le_iff using Num n by (cases "x < 0") simp_all
qed (use assms in auto)

lemma factor_near_1:
  assumes "is_fin fraction" "0 \<le> fval fraction" "fval fraction \<le> 1"
  shows "is_fin (perturbation_factor seed position fraction)"
    and "\<bar>fval (perturbation_factor seed position fraction) - 1\<bar> \<le> fval (fcast F64 fraction) + 2 powi - 52"
proof -
  let ?f = "fval (fcast F64 fraction)"
  note r = factor_range [OF assms]
  have "\<bar>rnd F64 (1 - ?f) - (1 - ?f)\<bar> \<le> 2 powi - 52" "\<bar>rnd F64 (1 + ?f) - (1 + ?f)\<bar> \<le> 2 powi - 52"
    using F64_error [of "1 - ?f" 2] F64_error [of "1 + ?f" 2] r(2,3) by (simp_all add: power_int_numeral)
  then show "is_fin (perturbation_factor seed position fraction)"
    "\<bar>fval (perturbation_factor seed position fraction) - 1\<bar> \<le> ?f + 2 powi - 52"
    using r(1) [of seed position] unfolding frange_def abs_le_iff by linarith+
qed

lemma perturb_int_bound:
  assumes f: "is_fin fraction" "0 \<le> fval fraction" "fval fraction \<le> 1" and v: "\<bar>val\<bar> \<le> 2 ^ 40"
  shows "\<bar>of_int (perturb_int (perturbation_factor seed position fraction) val) - of_int val\<bar>
      \<le> \<bar>of_int val\<bar> * fval (fcast F64 fraction) + 501 / 1000"
proof -
  let ?F = "perturbation_factor seed position fraction" and ?f = "fval (fcast F64 fraction)"
  let ?v = "real_of_int val" let ?x = "?v * fval ?F"
  note F = factor_near_1 [OF f, of seed position]
  have f1: "?f \<le> 1" "0 \<le> ?f" using factor_range [OF f] by simp_all
  have "of_int \<bar>val\<bar> \<le> real_of_int (2 ^ 40)" using v by (simp only: of_int_le_iff)
  then have v40: "\<bar>?v\<bar> \<le> 2 ^ 40" by simp
  have "\<bar>?x - ?v\<bar> = \<bar>?v\<bar> * \<bar>fval ?F - 1\<bar>" by (simp add: abs_mult [symmetric] algebra_simps)
  also have "\<dots> \<le> \<bar>?v\<bar> * (?f + 2 powi - 52)" using F(2) by (intro mult_left_mono) auto
  also have "\<dots> = \<bar>?v\<bar> * ?f + \<bar>?v\<bar> * 2 powi - 52" by (rule distrib_left)
  also have "\<dots> \<le> \<bar>?v\<bar> * ?f + 2 ^ 40 * 2 powi - 52" using v40 by (intro add_left_mono mult_right_mono) auto
  also have "(2::real) ^ 40 * 2 powi - 52 = 1 / 2 ^ 12" by (simp add: power_int_minus)
  finally have d: "\<bar>?x - ?v\<bar> \<le> \<bar>?v\<bar> * ?f + 1 / 2 ^ 12" .
  have "\<bar>?v\<bar> * ?f \<le> 2 ^ 40 * 1" using v40 f1 by (intro mult_mono) auto
  with d v40 have x: "\<bar>?x\<bar> < 2 ^ 42" by (simp add: abs_le_iff abs_less_iff)
  have "\<bar>rnd F64 ?x - ?x\<bar> \<le> 2 powi (42 - 54)" using x by (intro F64_error) (simp_all add: power_int_numeral)
  then have e: "\<bar>rnd F64 ?x - ?x\<bar> \<le> 1 / 2 ^ 12" by (simp add: power_int_minus)
  have small: "\<bar>?x\<bar> \<le> 2 ^ 100" "\<bar>rnd F64 ?x\<bar> \<le> 2 ^ 60"
    using x e unfolding abs_le_iff abs_less_iff by simp_all
  have n: "fof_int F64 val = Num ?v" using v by (intro f64_of_int) simp
  have p: "is_fin (fmul F64 (fof_int F64 val) ?F)" "fval (fmul F64 (fof_int F64 val) ?F) = rnd F64 ?x"
    unfolding n using F(1) small(1) by (simp_all add: fmul_fin f64.fround_small)
  have "\<bar>of_int (perturb_int ?F val) - rnd F64 ?x\<bar> \<le> 1 / 2"
    using round_half_away [of "fmul F64 (fof_int F64 val) ?F"] p small(2) by (simp add: perturb_int_def)
  with d e show ?thesis unfolding abs_le_iff by simp
qed

lemma perturb_int_small:
  assumes f: "is_fin fraction" "0 \<le> fval fraction" "fval fraction \<le> 1"
    and v: "\<bar>val\<bar> \<le> 2 ^ 40" "\<bar>of_int val\<bar> * fval (fcast F64 fraction) < 499 / 1000"
  shows "perturb_int (perturbation_factor seed position fraction) val = val"
proof -
  have "\<bar>of_int (perturb_int (perturbation_factor seed position fraction) val) - real_of_int val\<bar> < 1"
    using perturb_int_bound [OF f v(1), of seed position] v(2) by linarith
  then show ?thesis by linarith
qed

lemma show_fixed_digits:
  assumes "is_fin x" "0 < p"
  shows "\<exists>pre post. show_fixed p x = pre @ ''.'' @ post \<and> length post = p \<and> list_all is_digit post"
proof -
  have r: "\<exists>pre post. show_fixed_real p y = pre @ ''.'' @ post \<and> length post = p \<and> list_all is_digit post" for y
  proof -
    let ?m = "nat (rne (y * 10 ^ p)) mod 10 ^ p"
    have "length (show_nat ?m) \<le> p" using assms(2) by (intro show_nat_length) simp_all
    moreover have "is_digit CHR ''0''" by (simp add: is_digit_def byte_def)
    ultimately have "length (pad_left p (show_nat ?m)) = p" "list_all is_digit (pad_left p (show_nat ?m))"
      using show_nat_digits [of ?m] by (auto simp: list_all_iff)
    moreover have "show_fixed_real p y =
        show_nat (nat (rne (y * 10 ^ p)) div 10 ^ p) @ ''.'' @ pad_left p (show_nat ?m)"
      using assms(2) by (simp add: show_fixed_real_def Let_def del: pad_left.simps)
    ultimately show ?thesis by blast
  qed
  have "show_fixed p x = (if x = NZero \<or> fval x < 0 then ''-'' else []) @ show_fixed_real p \<bar>fval x\<bar>"
    using assms(1) by (cases x) auto
  then show ?thesis using r [of "\<bar>fval x\<bar>"] by (metis append.assoc)
qed

section \<open>Decimals\<close>

text \<open>The shape of a matched decimal number: an optional minus sign, digits, a point, digits.\<close>

definition decimal :: "bool \<Rightarrow> string \<Rightarrow> string \<Rightarrow> string" where
  "decimal neg ip fp = (if neg then ''-'' else []) @ ip @ ''.'' @ fp"

lemma decimal_split:
  assumes "is_number ip" "is_number fp"
  shows "split_sign (decimal neg ip fp) = (neg, ip @ ''.'' @ fp)"
    and "takeWhile (\<lambda>c. c \<noteq> CHR ''.'') (ip @ ''.'' @ fp) = ip"
    and "decimals_of (decimal neg ip fp) = min (length fp) 6"
proof -
  obtain c cs where ip: "ip = c # cs" "is_digit c" using assms(1) by (cases ip) (auto simp: is_number_def)
  then show "split_sign (decimal neg ip fp) = (neg, ip @ ''.'' @ fp)"
    using digit_not_sign by (auto simp: decimal_def split_sign_def)
  have nd: "\<forall>c \<in> set ip. c \<noteq> CHR ''.''"
    using assms(1) digit_not_sign by (auto simp: is_number_def list_all_iff)
  then show "takeWhile (\<lambda>c. c \<noteq> CHR ''.'') (ip @ ''.'' @ fp) = ip" by (simp add: takeWhile_append2)
  have "takeWhile (\<lambda>c. c \<noteq> CHR ''.'') (decimal neg ip fp) = (if neg then ''-'' else []) @ ip"
    using nd by (simp add: decimal_def takeWhile_append2)
  then show "decimals_of (decimal neg ip fp) = min (length fp) 6"
    by (simp add: decimals_of_def decimal_def)
qed

lemma parse_decimal:
  assumes "is_number ip" "is_number fp" "length ip \<le> 29"
  shows "\<exists>x. parse_f64 (decimal neg ip fp) = Some x \<and> is_fin x \<and> \<bar>fval x\<bar> \<le> 2 ^ 97"
proof -
  let ?v = "real (read_digits (ip @ fp)) / 10 ^ length fp"
  have "list_all is_digit (ip @ fp)" using assms by (simp add: is_number_def)
  then have "read_digits (ip @ fp) < 10 ^ length (ip @ fp)" by (rule read_digits_bound)
  then have "real (read_digits (ip @ fp)) \<le> 10 ^ length ip * 10 ^ length fp"
    by (metis length_append of_nat_le_iff of_nat_numeral of_nat_power power_add less_imp_le)
  then have "?v \<le> 10 ^ length ip" by (simp add: divide_le_eq)
  also have "(10::real) ^ length ip \<le> 10 ^ 29" using assms(3) by (intro power_increasing) auto
  finally have v: "\<bar>?v\<bar> \<le> 2 ^ 97" "\<bar>- ?v\<bar> \<le> 2 ^ 97" by simp_all
  have s: "is_fin (fround F64 neg w) \<and> \<bar>fval (fround F64 neg w)\<bar> \<le> 2 ^ 97" if "\<bar>w\<bar> \<le> 2 ^ 97" for w
    using that f64.rnd_bound_pow2 [OF that] by (simp add: f64.fround_small)
  have "parse_f64 (decimal neg ip fp) = Some (fround F64 neg (if neg then - ?v else ?v))"
    using assms unfolding parse_f64_def decimal_split [OF assms(1,2)]
    by (simp add: Let_def decimal_split [OF assms(1,2), simplified] is_number_def)
  then show ?thesis using s [of ?v] s [of "- ?v"] v by (cases neg) auto
qed

lemma perturb_decimal:
  assumes "is_number ip" "is_number fp" "length ip \<le> 29" "frange 0 2 factor"
  shows "\<exists>pre post. perturb_number factor (decimal neg ip fp) = pre @ ''.'' @ post \<and>
    length post = min (length fp) 6 \<and> list_all is_digit post"
proof -
  obtain x where x: "parse_f64 (decimal neg ip fp) = Some x" "is_fin x" "\<bar>fval x\<bar> \<le> 2 ^ 97"
    using parse_decimal [OF assms(1-3)] by blast
  have f: "is_fin factor" "\<bar>fval factor\<bar> \<le> 2" using assms(4) by (auto simp: frange_def)
  have "\<bar>fval x * fval factor\<bar> \<le> 2 ^ 97 * 2"
    unfolding abs_mult using x(3) f(2) by (intro mult_mono) auto
  then have "is_fin (fmul F64 x factor)" using x f by (simp add: fmul_fin f64.fround_small)
  moreover have "0 < min (length fp) 6" using assms(2) by (simp add: is_number_def)
  moreover have "CHR ''.'' \<in> set (decimal neg ip fp)" by (simp add: decimal_def)
  ultimately show ?thesis
    using x(1) show_fixed_digits [of "fmul F64 x factor"] by (simp add: perturb_number_def decimal_split(3) [OF assms(1,2)])
qed

section \<open>Matches\<close>

text \<open>What is relied on of a regular-expression engine: successive matches do not overlap, lie
  in the text, and group 1 (which is not optional in the pattern) lies in the match.\<close>

fun spans_ok :: "nat \<Rightarrow> nat \<Rightarrow> (span \<times> span) list \<Rightarrow> bool" where
  "spans_ok len n [] = (n \<le> len)"
| "spans_ok len n (((a, b), (c, d)) # ms) =
     (n \<le> a \<and> a \<le> c \<and> c \<le> d \<and> d \<le> b \<and> b \<le> len \<and> spans_ok len b ms)"

locale regex_laws =
  fixes E :: "'re regex_engine"
  assumes captures_ok: "re_new E p = Some re \<Longrightarrow> spans_ok (length s) 0 (re_captures E re s)"
    and group_is_match:
      "re_new E number_pattern = Some re \<Longrightarrow> (m, g) \<in> set (re_captures E re s) \<Longrightarrow> m = g"

fun gaps :: "string \<Rightarrow> nat \<Rightarrow> (span \<times> span) list \<Rightarrow> string list" where
  "gaps s n [] = [drop n s]"
| "gaps s n (((a, b), g) # ms) = sub_text s n a # gaps s b ms"

fun weave :: "string list \<Rightarrow> string list \<Rightarrow> string" where
  "weave (x # xs) (y # ys) = x @ y @ weave xs ys"
| "weave xs ys = concat xs"

definition matched_texts :: "string \<Rightarrow> (span \<times> span) list \<Rightarrow> string list" where
  "matched_texts s ms = map (\<lambda>(m, (c, d)). sub_text s c d) ms"

lemma replace_all_weave:
  "replace_all f s n ms = weave (gaps s n ms) (map (\<lambda>(m, (c, d)). f c (sub_text s c d)) ms)"
  by (induction f s n ms rule: replace_all.induct) simp_all

lemma sub_text_append: "a \<le> b \<Longrightarrow> sub_text s a b @ drop b s = drop a s"
  by (metis sub_text_def append_take_drop_id drop_drop le_add_diff_inverse2)

lemma weave_original:
  assumes "spans_ok (length s) n ms" "\<forall>(m, g) \<in> set ms. m = g"
  shows "weave (gaps s n ms) (matched_texts s ms) = drop n s"
  using assms
proof (induction s n ms rule: gaps.induct)
  case (2 s n a b g ms)
  then have le: "n \<le> a" "a \<le> b" and g: "g = (a, b)" by auto
  then have "weave (gaps s n (((a, b), g) # ms)) (matched_texts s (((a, b), g) # ms)) =
      sub_text s n a @ sub_text s a b @ drop b s"
    using 2 by (simp add: matched_texts_def)
  also have "\<dots> = drop n s" using le by (simp only: sub_text_append)
  finally show ?case .
qed (simp add: matched_texts_def)

context regex_laws
begin

lemma perturb_frame:
  assumes "re_new E number_pattern = Some re" "\<not> fle fraction (Num 0)" "s \<noteq> []"
  shows "perturb E s fraction seed =
      Inr (weave (gaps s 0 (re_captures E re s))
        (map (\<lambda>(m, (c, d)). perturb_number (perturbation_factor (seed_to_u64 seed) (of_nat c) fraction) (sub_text s c d))
           (re_captures E re s)))"
    and "weave (gaps s 0 (re_captures E re s)) (matched_texts s (re_captures E re s)) = s"
proof -
  show "weave (gaps s 0 (re_captures E re s)) (matched_texts s (re_captures E re s)) = s"
    using weave_original [OF captures_ok [OF assms(1)]] group_is_match [OF assms(1)] by fastforce
  show "perturb E s fraction seed =
      Inr (weave (gaps s 0 (re_captures E re s))
        (map (\<lambda>(m, (c, d)). perturb_number (perturbation_factor (seed_to_u64 seed) (of_nat c) fraction) (sub_text s c d))
           (re_captures E re s)))"
    using assms by (simp add: perturb_def Let_def replace_all_weave)
qed

end

section \<open>A reference matcher\<close>

text \<open>
  The pattern with its look-around, as a backtracking engine would match it: the first
  candidate, in order of preference, that is not followed by a letter or a percent sign.
\<close>

fun prefixes_down :: "nat \<Rightarrow> nat list" where
  "prefixes_down 0 = []"
| "prefixes_down (Suc n) = Suc n # prefixes_down n"

definition digits_run :: "string \<Rightarrow> nat" where
  "digits_run s = length (takeWhile is_digit s)"

definition fraction_run :: "string \<Rightarrow> nat" where
  "fraction_run s = (case s of c # cs \<Rightarrow> if c = CHR ''.'' then digits_run cs else 0 | [] \<Rightarrow> 0)"

definition number_candidates :: "string \<Rightarrow> nat list" where
  "number_candidates s =
     (let signs = (if s \<noteq> [] \<and> hd s = CHR ''-'' then [1, 0] else [0])
      in concat (map (\<lambda>sg.
           concat (map (\<lambda>k. map (\<lambda>e. sg + k + 1 + e) (prefixes_down (fraction_run (drop (sg + k) s))) @ [sg + k])
             (prefixes_down (digits_run (drop sg s))))) signs))"

definition may_follow :: "string \<Rightarrow> bool" where
  "may_follow s = (case s of [] \<Rightarrow> True | c # _ \<Rightarrow> \<not> ascii_alpha c \<and> c \<noteq> CHR ''%'')"

definition number_match :: "string \<Rightarrow> nat option" where
  "number_match s = find (\<lambda>n. n \<le> length s \<and> 0 < n \<and> may_follow (drop n s)) (number_candidates s)"

function scan_numbers :: "nat \<Rightarrow> bool \<Rightarrow> string \<Rightarrow> (span \<times> span) list" where
  "scan_numbers pos after_letter [] = []"
| "scan_numbers pos after_letter (c # cs) =
     (case (if after_letter then None else number_match (c # cs)) of
        Some n \<Rightarrow> ((pos, pos + n), (pos, pos + n)) # scan_numbers (pos + n) False (drop (n - 1) cs)
      | None \<Rightarrow> scan_numbers (pos + 1) (ascii_alpha c) cs)"
  by pat_completeness auto
termination
  by (relation "measure (\<lambda>(p, l, s). length s)") auto

definition reference_engine :: "unit regex_engine" where
  "reference_engine =
     \<lparr>re_new = (\<lambda>p. if p = number_pattern then Some () else None),
      re_captures = (\<lambda>_ s. scan_numbers 0 False s)\<rparr>"

lemma scan_numbers_ok:
  "spans_ok (pos + length s) pos (scan_numbers pos l s) \<and> (\<forall>(m, g) \<in> set (scan_numbers pos l s). m = g)"
proof (induction pos l s rule: scan_numbers.induct)
  case (2 pos l c cs)
  show ?case
  proof (cases "if l then None else number_match (c # cs)")
    case None
    have "spans_ok len n ms \<Longrightarrow> n' \<le> n \<Longrightarrow> spans_ok len n' ms" for len n n' ms
      by (induction ms) auto
    then show ?thesis using 2(1) [OF None] None by fastforce
  next
    case (Some n)
    then have "n \<le> length (c # cs)" "0 < n"
      by (auto simp: number_match_def find_Some_iff split: if_splits)
    then show ?thesis using 2(2) [OF Some] Some by (auto simp: add.assoc)
  qed
qed simp

interpretation reference: regex_laws reference_engine
proof
  show "spans_ok (length s) 0 (re_captures reference_engine re s)" for re s
    using scan_numbers_ok [of 0 s False] by (simp add: reference_engine_def)
  show "m = g" if "(m, g) \<in> set (re_captures reference_engine re s)" for m g re s
    using that scan_numbers_ok [of 0 s False] by (auto simp: reference_engine_def)
qed

section \<open>The seed\<close>

definition seed_value :: "string \<Rightarrow> nat" where
  "seed_value s = foldl (\<lambda>n b. 31 * n + byte b) 0 s"

lemma seed_value_bound: "seed_value s + 9 \<le> 9 * 31 ^ length s"
proof (induction s rule: rev_induct)
  case (snoc c s)
  have c: "byte c < 256" by (rule byte_less)
  have "seed_value (s @ [c]) = 31 * seed_value s + byte c" by (simp add: seed_value_def)
  then show ?case using snoc.IH c by simp
qed (simp add: seed_value_def)

lemma seed_to_u64_value: "seed_to_u64 seed = of_nat (seed_value (take 8 seed))"
proof -
  have "foldl (\<lambda>acc b. acc * 31 + of_nat (byte b)) (of_nat n) s = (of_nat (foldl (\<lambda>n b. 31 * n + byte b) n s) :: u64)"
    for n s
  proof (induction s arbitrary: n)
    case (Cons b s)
    then show ?case using Cons.IH [of "31 * n + byte b"] by (simp add: mult.commute)
  qed simp
  from this [of 0] show ?thesis by (simp add: seed_to_u64_def seed_value_def)
qed

lemma uint_seed: "uint (seed_to_u64 seed) = int (seed_value (take 8 seed)) \<and> seed_value (take 8 seed) < 2 ^ 43"
proof -
  have "(31::nat) ^ length (take 8 seed) \<le> 31 ^ 8" by (intro power_increasing) simp_all
  then have b: "seed_value (take 8 seed) < 2 ^ 43" using seed_value_bound [of "take 8 seed"] by simp
  then have "take_bit 64 (seed_value (take 8 seed)) = seed_value (take 8 seed)"
    by (intro take_bit_nat_eq_self) simp
  then show ?thesis unfolding seed_to_u64_value using b by (simp add: unsigned_of_nat)
qed

section \<open>Properties\<close>

text \<open>
  Numeric perturbation rewrites the matched numbers and nothing else: the result is the
  original text with each match replaced by its perturbed value (a function of the seed, of
  the match's byte offset and of the match alone), and the gaps between the matches kept.
\<close>

theorem numeric_frame:
  assumes "regex_laws E" "re_new E number_pattern = Some re" "\<not> fle fraction (Num 0)" "s \<noteq> []"
  shows "perturb E s fraction seed =
      Inr (weave (gaps s 0 (re_captures E re s))
        (map (\<lambda>(m, (c, d)). perturb_number (perturbation_factor (seed_to_u64 seed) (of_nat c) fraction) (sub_text s c d))
           (re_captures E re s))) \<and>
    weave (gaps s 0 (re_captures E re s)) (matched_texts s (re_captures E re s)) = s"
  using regex_laws.perturb_frame [OF assms] by blast

lemma scan_sample: "scan_numbers 0 False ''mp3 v 12'' = [((6, 8), (6, 8))]"
  by (simp add: number_match_def number_candidates_def digits_run_def is_digit_def byte_def fraction_run_def
      may_follow_def ascii_alpha_def)

theorem numeric_frame_witness:
  "perturb reference_engine ''mp3 v 12'' (Num (1 / 2)) ''seed'' =
   Inr (''mp3 v '' @ perturb_number (perturbation_factor (seed_to_u64 ''seed'') 6 (Num (1 / 2))) ''12'')"
proof -
  have "re_new reference_engine number_pattern = Some ()" by (simp add: reference_engine_def)
  moreover have "\<not> fle (Num (1 / 2)) (Num 0)" by (simp add: fle_def)
  moreover have "re_captures reference_engine () ''mp3 v 12'' = [((6, 8), (6, 8))]"
    unfolding reference_engine_def by (simp del: scan_numbers.simps add: scan_sample)
  ultimately show ?thesis
    using numeric_frame [OF reference.regex_laws_axioms, of "()" "Num (1 / 2)" "''mp3 v 12''" "''seed''"]
    by (simp add: sub_text_def)
qed

text \<open>
  The factor stays in its interval: for a fraction of \<open>[0, 1]\<close> it is an \<open>f64\<close> between the
  rounded \<open>1 - fraction\<close> and \<open>1 + fraction\<close>, for every seed and position; the two wrapping
  multiplications cannot push it out.
\<close>

theorem numeric_factor_range:
  assumes "is_fin fraction" "0 \<le> fval fraction" "fval fraction \<le> 1"
  shows "frange (rnd F64 (1 - fval (fcast F64 fraction))) (rnd F64 (1 + fval (fcast F64 fraction)))
    (perturbation_factor seed position fraction)"
  using factor_range(1) [OF assms] .

theorem numeric_factor_range_witness: "frange (1 / 2) (3 / 2) (perturbation_factor 7 3 (Num (1 / 2)))"
proof -
  have e: "fval (fcast F64 (Num (1 / 2))) = 1 / 2" "rnd F64 (1 - 1 / 2) = 1 / 2" "rnd F64 (1 + 1 / 2) = 3 / 2"
    by (simp_all add: fp_eval)
  show ?thesis using numeric_factor_range [of "Num (1 / 2)" 7 3] unfolding e by simp
qed

text \<open>
  C24. A perturbed integer is an integer, within the fraction of the original up to the final
  rounding (\<open>0.501\<close>, which covers the rounding of the factor and of the product for values
  up to \<open>2^40\<close>), and it reads back as printed. An integer too small for the fraction to reach
  one half is never changed: with the default 5 per cent, every single digit.
\<close>

theorem integer_perturbation:
  assumes "is_fin fraction" "0 \<le> fval fraction" "fval fraction \<le> 1"
    and "CHR ''.'' \<notin> set m" "parse_i64 m = Some v" "\<bar>v\<bar> \<le> 2 ^ 40"
  shows "\<exists>v'. perturb_number (perturbation_factor seed position fraction) m = show_int v' \<and>
    parse_i64 (show_int v') = Some v' \<and>
    \<bar>of_int v' - of_int v\<bar> \<le> \<bar>of_int v\<bar> * fval (fcast F64 fraction) + 501 / 1000 \<and>
    (\<bar>of_int v\<bar> * fval (fcast F64 fraction) < 499 / 1000 \<longrightarrow> v' = v)"
proof (intro exI conjI impI)
  let ?v' = "perturb_int (perturbation_factor seed position fraction) v"
  show "perturb_number (perturbation_factor seed position fraction) m = show_int ?v'"
    using assms(4,5) by (simp add: perturb_number_def)
  show "parse_i64 (show_int ?v') = Some ?v'"
  proof (rule parse_show_int)
    have "- (2 ^ 63) \<le> fto_int (- (2 ^ 63)) (2 ^ 63 - 1) y \<and> fto_int (- (2 ^ 63)) (2 ^ 63 - 1) y < 2 ^ 63" for y
      by (cases y) auto
    then show "- (2 ^ 63) \<le> ?v'" "?v' < 2 ^ 63" by (simp_all add: perturb_int_def)
  qed
  show "\<bar>of_int ?v' - of_int v\<bar> \<le> \<bar>of_int v\<bar> * fval (fcast F64 fraction) + 501 / 1000"
    by (rule perturb_int_bound [OF assms(1-3,6)])
  show "?v' = v" if "\<bar>of_int v\<bar> * fval (fcast F64 fraction) < 499 / 1000"
    by (rule perturb_int_small [OF assms(1-3,6) that])
qed

lemma cast_5_percent: "fval (fcast F64 (Num (13421773 / 268435456))) = 13421773 / 268435456"
  by (simp add: fp_eval)

theorem integer_perturbation_witness:
  "perturb_number (perturbation_factor 7 3 (Num (13421773 / 268435456))) ''9'' = ''9''"
proof -
  have "parse_i64 ''9'' = Some 9"
    by (simp add: parse_i64_def split_sign_def read_digits_def is_number_def is_digit_def digit_val_def byte_def)
  moreover have "char_of (57::nat) = CHR ''9''" using char_of_byte [of "CHR ''9''"] by (simp add: byte_def)
  then have "show_int 9 = ''9''" by (simp add: show_int_def show_nat.simps digit_char_def)
  ultimately show ?thesis
    using integer_perturbation [of "Num (13421773 / 268435456)" "''9''" 9 7 3] unfolding cast_5_percent by auto
qed

text \<open>
  A perturbed decimal keeps its number of decimals, up to the cap of six: the result has a
  point followed by exactly that many digits, for every factor of \<open>[0, 2]\<close>.
\<close>

theorem decimals_preserved:
  assumes "is_number ip" "is_number fp" "length ip \<le> 29" "frange 0 2 factor"
  shows "\<exists>pre post. perturb_number factor (decimal neg ip fp) = pre @ ''.'' @ post \<and>
    length post = min (length fp) 6 \<and> list_all is_digit post"
  by (rule perturb_decimal [OF assms])

theorem decimals_preserved_witness:
  "\<exists>pre post. perturb_number (Num (3 / 2)) ''-0.923'' = pre @ ''.'' @ post \<and> length post = 3"
proof -
  have "is_number ''0''" "is_number ''923''" by (simp_all add: is_number_def is_digit_def byte_def)
  from decimals_preserved [OF this, of "Num (3 / 2)" True] obtain pre post
    where "perturb_number (Num (3 / 2)) ''-0.923'' = pre @ ''.'' @ post" "length post = 3"
    by (auto simp: decimal_def)
  then show ?thesis by blast
qed

text \<open>
  Only the first eight bytes of the seed count, and they reach the mixer as a number below
  \<open>2^43\<close>: two sessions whose seeds share eight hexadecimal digits perturb every text alike.
\<close>

theorem seed_prefix_only:
  assumes "take 8 seed = take 8 seed'"
  shows "perturb E s fraction seed = perturb E s fraction seed' \<and> uint (seed_to_u64 seed) < 2 ^ 43"
proof
  have "seed_to_u64 seed = seed_to_u64 seed'" using assms by (simp add: seed_to_u64_def)
  then show "perturb E s fraction seed = perturb E s fraction seed'" by (simp add: perturb_def)
  have "int (seed_value (take 8 seed)) < int (2 ^ 43)" using uint_seed [of seed] by (simp only: of_nat_less_iff)
  then show "uint (seed_to_u64 seed) < 2 ^ 43" using uint_seed [of seed] by simp
qed

theorem seed_prefix_only_witness:
  "perturb reference_engine ''12'' (Num (1 / 2)) ''deadbeef01'' = perturb reference_engine ''12'' (Num (1 / 2)) ''deadbeef99''"
  using seed_prefix_only [of "''deadbeef01''" "''deadbeef99''" reference_engine] by simp

fun has_look_around :: "string \<Rightarrow> bool" where
  "has_look_around [] = False"
| "has_look_around (c # cs) =
     (starts_with (c # cs) ''(?!'' \<or> starts_with (c # cs) ''(?='' \<or> starts_with (c # cs) ''(?<!'' \<or>
      starts_with (c # cs) ''(?<='' \<or> has_look_around cs)"

lemma number_pattern_looks_around: "has_look_around number_pattern"
  by (simp add: number_pattern_def starts_with_def)

text \<open>
  With an engine that rejects look-around, as the \<open>regex\<close> crate documents of itself, the
  pattern does not compile and the \<open>unwrap\<close> in the initialiser panics: every non-empty text,
  with or without a number, makes \<open>perturb\<close> panic for every positive fraction.
\<close>

theorem numeric_panics_without_look_around:
  assumes "\<forall>p. has_look_around p \<longrightarrow> re_new E p = None" "s \<noteq> []" "\<not> fle fraction (Num 0)"
  shows "perturb E s fraction seed = Inl UnwrapFailed"
  using assms number_pattern_looks_around by (simp add: perturb_def)

theorem numeric_panics_without_look_around_witness:
  "perturb \<lparr>re_new = (\<lambda>p. if has_look_around p then None else Some p), re_captures = (\<lambda>_ _. [])\<rparr>
     ''Hello'' (numeric_perturb_pct default_defence) ''seed'' = Inl UnwrapFailed"
  by (rule numeric_panics_without_look_around) (simp_all add: fle_def)

end
