(* ===== verification/Pipeline.thy ===== *)
theory Pipeline
  imports Scoring Synonym Numeric
begin

text \<open>
  \<open>engine/src/defence/mod.rs\<close>: the defence pipeline. HMAC-SHA256 and hexadecimal encoding come
  from crates and are the record \<open>crypto\<close>. The pipeline calls
  \<open>numeric::perturb(&text, pct, &mut rng)\<close> and expects a text and a flag, a function that
  \<open>defence/numeric.rs\<close> does not have (its \<open>perturb\<close> takes a seed string and returns a text), so
  the numeric step is an argument of \<open>run_pipeline\<close>.
\<close>

section \<open>The code\<close>

record crypto =
  hmac_sha256 :: "string \<Rightarrow> string \<Rightarrow> u8 list"      \<comment> \<open>key, message\<close>
  hex_encode :: "u8 list \<Rightarrow> string"

record pipeline_result =
  served_response :: string
  steps_applied :: "string list"
  noise_seed_hex :: string

type_synonym 'g numeric_step = "string \<Rightarrow> fp \<Rightarrow> 'g \<Rightarrow> ((string \<times> bool) \<times> 'g) run"

definition derive_session_seed :: "crypto \<Rightarrow> string \<Rightarrow> int \<Rightarrow> u8 list" where
  "derive_session_seed C session_id_hash session_start_unix =
     hmac_sha256 C session_id_hash (show_int session_start_unix)"

fun from_le_bytes :: "u8 list \<Rightarrow> u64" where
  "from_le_bytes [] = 0"
| "from_le_bytes (b # bs) = ucast b + 256 * from_le_bytes bs"

definition sentences_of :: "string \<Rightarrow> string list" where
  "sentences_of s = filter (\<lambda>t. \<not> trim_is_empty t) (split_str ''. '' s)"

definition reorder_sentences :: "'g rng \<Rightarrow> string \<Rightarrow> 'g \<Rightarrow> (string \<times> bool) \<times> 'g" where
  "reorder_sentences R s g =
     (let sentences = sentences_of s; n = length sentences
      in if n < 3 then ((s, False), g)
         else let (indices, g') = fy_loop (gen_range_to R) (n - 1) [0..<n] g
              in ((join ''. '' (map (\<lambda>i. sentences ! i) indices), True), g'))"

definition synonym_step_name :: "fp \<Rightarrow> string" where
  "synonym_step_name ratio = ''synonym_substitution(ratio='' @ show_fixed 2 ratio @ '')''"

definition numeric_step_name :: "fp \<Rightarrow> string" where
  "numeric_step_name pct = ''numeric_perturb(pct='' @ show_fixed 2 pct @ '')''"

text \<open>The three steps, each on the text, the names of the steps so far and the generator.\<close>

type_synonym 'g progress = "string \<times> string list \<times> 'g"

definition synonym_step :: "unicode \<Rightarrow> 'g rng \<Rightarrow> u8 \<Rightarrow> defence_config \<Rightarrow> 'g progress \<Rightarrow> 'g progress run" where
  "synonym_step U R tier cfg = (\<lambda>(txt, steps, g).
     let ratio = (if tier = 3 then tier3_synonym_ratio cfg else tier2_synonym_ratio cfg)
     in map_run (\<lambda>(txt', g'). (txt', steps @ [synonym_step_name ratio], g')) (substitute U R txt ratio g))"

definition perturb_step :: "'g numeric_step \<Rightarrow> defence_config \<Rightarrow> 'g progress \<Rightarrow> 'g progress run" where
  "perturb_step numeric cfg = (\<lambda>(txt, steps, g).
     map_run (\<lambda>((perturbed, changed), g').
         if changed then (perturbed, steps @ [numeric_step_name (numeric_perturb_pct cfg)], g')
         else (txt, steps, g'))
       (numeric txt (numeric_perturb_pct cfg) g))"

definition reorder_step :: "'g rng \<Rightarrow> u8 \<Rightarrow> defence_config \<Rightarrow> 'g progress \<Rightarrow> 'g progress" where
  "reorder_step R tier cfg = (\<lambda>(txt, steps, g).
     if tier = 3 \<and> reorder_sentences_on cfg then
       (let ((reordered, changed), g') = reorder_sentences R txt g
        in if changed then (reordered, steps @ [''sentence_reorder''], g') else (txt, steps, g'))
     else (txt, steps, g))"

definition run_steps :: "unicode \<Rightarrow> 'g rng \<Rightarrow> 'g numeric_step \<Rightarrow> u8 \<Rightarrow> defence_config \<Rightarrow> string \<Rightarrow> 'g \<Rightarrow> 'g progress run" where
  "run_steps U R numeric tier cfg clean g =
     map_run (reorder_step R tier cfg)
       (bind_run (synonym_step U R tier cfg (clean, [], g)) (perturb_step numeric cfg))"

definition run_pipeline ::
    "unicode \<Rightarrow> 'g rng \<Rightarrow> crypto \<Rightarrow> 'g numeric_step \<Rightarrow> string \<Rightarrow> u8 \<Rightarrow> string \<Rightarrow> int \<Rightarrow> defence_config \<Rightarrow>
     pipeline_result run" where
  "run_pipeline U R C numeric clean tier session_id_hash session_start_unix cfg =
     (if tier = 1 then Inr \<lparr>served_response = clean, steps_applied = [], noise_seed_hex = []\<rparr>
      else
        let seed_bytes = derive_session_seed C session_id_hash session_start_unix
        in if length seed_bytes < 8 then Inl SliceOutOfRange
           else
             let seed_hex = hex_encode C (take 8 seed_bytes);
                 g = seed_from_u64 R (from_le_bytes (take 8 seed_bytes))
             in map_run (\<lambda>(txt, steps, g).
                    \<lparr>served_response = txt, steps_applied = steps, noise_seed_hex = seed_hex\<rparr>)
                  (run_steps U R numeric tier cfg clean g))"

section \<open>Sentence reordering\<close>

lemma length_join: "xs \<noteq> [] \<Longrightarrow> length (join sep xs) = sum_list (map length xs) + (length xs - 1) * length sep"
  by (induction sep xs rule: join.induct) auto

context rng_laws
begin

lemma reorder_perm:
  assumes "3 \<le> length (sentences_of s)"
  obtains ys g' where "reorder_sentences R s g = ((join ''. '' ys, True), g')"
    "mset ys = mset (sentences_of s)"
proof -
  let ?S = "sentences_of s" let ?n = "length ?S"
  obtain ix g' where fy: "fy_loop (gen_range_to R) (?n - 1) [0..<?n] g = (ix, g')" by fastforce
  have "mset (fst (fy_loop (gen_range_to R) (?n - 1) [0..<?n] g)) = mset [0..<?n]"
    using assms by (intro fy_loop_perm gen_range_le) auto
  then have "mset ix = mset [0..<?n]" using fy by simp
  then have "mset (map (\<lambda>i. ?S ! i) ix) = mset (map (\<lambda>i. ?S ! i) [0..<?n])" by (metis mset_map)
  then have "mset (map (\<lambda>i. ?S ! i) ix) = mset ?S" by (simp add: map_nth)
  moreover have "reorder_sentences R s g = ((join ''. '' (map (\<lambda>i. ?S ! i) ix), True), g')"
    using fy assms by (simp add: reorder_sentences_def Let_def)
  ultimately show ?thesis using that by blast
qed

lemma reorder_length:
  assumes "mset ys = mset (split_str ''. '' s)"
  shows "length (join ''. '' ys) = length s"
proof -
  have ne: "split_str ''. '' s \<noteq> []" by (simp add: split_str_def split_str_aux_nonempty)
  then have "ys \<noteq> []" using assms by auto
  moreover have "sum_list (map length ys) = sum_list (map length (split_str ''. '' s))"
    using assms by (metis mset_map sum_mset_sum_list)
  moreover have "length ys = length (split_str ''. '' s)" using assms by (rule mset_eq_length)
  ultimately have "length (join ''. '' ys) = length (join ''. '' (split_str ''. '' s))"
    using ne by (simp add: length_join)
  then show ?thesis by (simp add: join_split_str)
qed

end

section \<open>Running the pipeline\<close>

text \<open>
  The part of the run after the seed: everything else depends on the session only through
  the first eight bytes of its HMAC.
\<close>

lemma run_pipeline_tail:
  assumes "tier \<noteq> 1" "8 \<le> length (derive_session_seed C h t)" "8 \<le> length (derive_session_seed C h' t')"
    and "take 8 (derive_session_seed C h t) = take 8 (derive_session_seed C h' t')"
  shows "run_pipeline U R C num clean tier h t cfg = run_pipeline U R C num clean tier h' t' cfg"
  using assms by (simp add: run_pipeline_def Let_def)

lemma run_pipeline_Inr:
  assumes "run_pipeline U R C num clean tier h t cfg = Inr r" "tier \<noteq> 1"
  obtains g out steps g' where "run_steps U R num tier cfg clean g = Inr (out, steps, g')"
    "r = \<lparr>served_response = out, steps_applied = steps,
          noise_seed_hex = hex_encode C (take 8 (derive_session_seed C h t))\<rparr>"
  using assms by (auto simp: run_pipeline_def Let_def split: if_splits)

lemma run_pipeline_hex:
  assumes "run_pipeline U R C num clean tier h t cfg = Inr r" "tier \<noteq> 1"
  shows "noise_seed_hex r = hex_encode C (take 8 (derive_session_seed C h t))"
  by (rule run_pipeline_Inr [OF assms]) simp

lemma synonym_step_steps:
  "synonym_step U R tier cfg (txt, steps, g) = Inr (txt', steps', g') \<Longrightarrow>
   steps' = steps @ [synonym_step_name (if tier = 3 then tier3_synonym_ratio cfg else tier2_synonym_ratio cfg)]"
  by (auto simp: synonym_step_def Let_def)

lemma perturb_step_steps:
  "perturb_step num cfg (txt, steps, g) = Inr (txt', steps', g') \<Longrightarrow>
   steps' = steps \<and> txt' = txt \<or> steps' = steps @ [numeric_step_name (numeric_perturb_pct cfg)]"
  by (auto simp: perturb_step_def split: if_splits)

lemma reorder_step_steps:
  "reorder_step R tier cfg (txt, steps, g) = (txt', steps', g') \<Longrightarrow>
   steps' = steps \<and> txt' = txt \<or>
   tier = 3 \<and> reorder_sentences_on cfg \<and> steps' = steps @ [''sentence_reorder'']"
  by (auto simp: reorder_step_def split: if_splits prod.splits)

lemma run_steps_steps:
  assumes "run_steps U R num tier cfg clean g = Inr (out, steps, g')"
  shows "\<exists>numeric reorder. steps =
    [synonym_step_name (if tier = 3 then tier3_synonym_ratio cfg else tier2_synonym_ratio cfg)] @
    (if numeric then [numeric_step_name (numeric_perturb_pct cfg)] else []) @
    (if reorder \<and> tier = 3 \<and> reorder_sentences_on cfg then [''sentence_reorder''] else [])"
proof -
  obtain t1 s1 g1 t2 s2 g2 where a: "synonym_step U R tier cfg (clean, [], g) = Inr (t1, s1, g1)"
    "perturb_step num cfg (t1, s1, g1) = Inr (t2, s2, g2)"
    "reorder_step R tier cfg (t2, s2, g2) = (out, steps, g')"
    using assms(1) by (auto simp: run_steps_def)
  let ?syn = "synonym_step_name (if tier = 3 then tier3_synonym_ratio cfg else tier2_synonym_ratio cfg)"
  let ?num = "\<lambda>n. if n then [numeric_step_name (numeric_perturb_pct cfg)] else []"
  let ?reo = "\<lambda>r. if r \<and> tier = 3 \<and> reorder_sentences_on cfg then [''sentence_reorder''] else []"
  have "s2 = s1 @ ?num False \<or> s2 = s1 @ ?num True" using perturb_step_steps [OF a(2)] by auto
  then obtain n where n: "s2 = s1 @ ?num n" by blast
  have "steps = s2 @ ?reo False \<or> steps = s2 @ ?reo True" using reorder_step_steps [OF a(3)] by auto
  then obtain m where m: "steps = s2 @ ?reo m" by blast
  have "s1 = [?syn]" using synonym_step_steps [OF a(1)] by simp
  then have "steps = [?syn] @ ?num n @ ?reo m" using n m by (simp only: append_assoc)
  then show ?thesis by blast
qed

context synonym_env
begin

lemma substitute_no_panic: "\<exists>r. substitute U R text ratio g = Inr r"
proof (cases "substitutable U (split_whitespace text) = []")
  case False
  let ?ws = "split_whitespace text"
  obtain sh g0 where sh: "shuffle_with R (substitutable U ?ws) g = (sh, g0)" by fastforce
  let ?n = "n_replace (length (substitutable U ?ws)) ratio"
  have "?n \<le> length (substitutable U ?ws)" by (simp add: n_replace_def)
  from chosen_set(1) [OF distinct_substitutable this refl, of g]
  have "set (take ?n sh) \<subseteq> set (substitutable U ?ws)" using sh by simp
  then have "\<forall>j < length ?ws. 0 + j \<in> set (take ?n sh) \<longrightarrow> synonyms_of (core_of U (?ws ! j)) \<noteq> None"
    unfolding add_0 using substitutable_set by blast
  from rebuild_ok [OF this, of g0] sh show ?thesis
    by (auto simp: substitute_def Let_def)
qed (simp add: substitute_def Let_def)

lemma run_steps_no_panic:
  assumes "\<forall>t p g. \<exists>x. num t p g = Inr x"
  shows "\<exists>p. run_steps U R num tier cfg clean g = Inr p"
proof -
  obtain t1 s1 g1 where s: "synonym_step U R tier cfg (clean, [], g) = Inr (t1, s1, g1)"
  proof -
    let ?ratio = "if tier = 3 then tier3_synonym_ratio cfg else tier2_synonym_ratio cfg"
    obtain t1 g1 where "substitute U R clean ?ratio g = Inr (t1, g1)"
      using substitute_no_panic [of clean ?ratio g] by fast
    then show ?thesis using that by (simp add: synonym_step_def Let_def)
  qed
  obtain x where "num t1 (numeric_perturb_pct cfg) g1 = Inr x" using assms by blast
  then obtain p where "perturb_step num cfg (t1, s1, g1) = Inr p" by (simp add: perturb_step_def)
  with s have "run_steps U R num tier cfg clean g = Inr (reorder_step R tier cfg p)" by (simp add: run_steps_def)
  then show ?thesis by (rule exI)
qed

end

section \<open>Cryptography\<close>

locale crypto_laws =
  fixes C :: crypto
  assumes hmac_length: "length (hmac_sha256 C k m) = 32"
    and hex_inj: "length xs = length ys \<Longrightarrow> hex_encode C xs = hex_encode C ys \<Longrightarrow> xs = ys"
begin

lemma seed_length: "length (derive_session_seed C h t) = 32"
  by (simp add: derive_session_seed_def hmac_length)

lemma replay:
  assumes "run_pipeline U R C num clean tier h t cfg = Inr r" "run_pipeline U R C num clean tier h' t' cfg = Inr r'"
    and "tier \<noteq> 1" "noise_seed_hex r = noise_seed_hex r'"
  shows "r = r'"
proof -
  let ?a = "take 8 (derive_session_seed C h t)" and ?b = "take 8 (derive_session_seed C h' t')"
  have "hex_encode C ?a = hex_encode C ?b"
    using run_pipeline_hex [OF assms(1,3)] run_pipeline_hex [OF assms(2,3)] assms(4) by simp
  then have "?a = ?b" by (intro hex_inj) (simp_all add: seed_length)
  then have "run_pipeline U R C num clean tier h t cfg = run_pipeline U R C num clean tier h' t' cfg"
    by (intro run_pipeline_tail) (simp_all add: assms(3) seed_length)
  then show ?thesis using assms(1,2) by simp
qed

lemma run_pipeline_no_panic:
  assumes "synonym_env U R" "\<forall>t p g. \<exists>x. num t p g = Inr x"
  shows "\<exists>r. run_pipeline U R C num clean tier h t cfg = Inr r"
proof (cases "tier = 1")
  case False
  obtain p where "run_steps U R num tier cfg clean (seed_from_u64 R (from_le_bytes (take 8 (derive_session_seed C h t)))) = Inr p"
    using synonym_env.run_steps_no_panic [OF assms] by blast
  then show ?thesis using False by (simp add: run_pipeline_def Let_def seed_length)
qed (simp add: run_pipeline_def)

end

text \<open>
  An instance: lower-case hexadecimal, and a keyed mixing of the bytes in place of the hash.
\<close>

definition hex_digit :: "nat \<Rightarrow> char" where
  "hex_digit n = char_of (if n < 10 then 48 + n else 87 + n)"

definition hex_lower :: "u8 list \<Rightarrow> string" where
  "hex_lower bs = concat (map (\<lambda>b. [hex_digit (unat b div 16), hex_digit (unat b mod 16)]) bs)"

definition mix_crypto :: crypto where
  "mix_crypto =
     \<lparr>hmac_sha256 = (\<lambda>k m. map (\<lambda>i. foldl (\<lambda>acc c. acc * 31 + of_nat (byte c) + of_nat i) 7 (k @ m)) [0..<32]),
      hex_encode = hex_lower\<rparr>"

lemma hex_digit_inj: "hex_digit m = hex_digit n \<Longrightarrow> m < 16 \<Longrightarrow> n < 16 \<Longrightarrow> m = n"
proof -
  assume a: "hex_digit m = hex_digit n" "m < 16" "n < 16"
  then have "byte (hex_digit m) = byte (hex_digit n)" by simp
  with a(2,3) show ?thesis by (auto simp: hex_digit_def byte_def split: if_splits)
qed

lemma hex_lower_inj: "length xs = length ys \<Longrightarrow> hex_lower xs = hex_lower ys \<Longrightarrow> xs = ys"
proof (induction xs ys rule: list_induct2)
  case (Cons x xs y ys)
  have b: "unat x < 256" "unat y < 256" using unsigned_less [of x] unsigned_less [of y] by simp_all
  have "hex_digit (unat x div 16) = hex_digit (unat y div 16)" "hex_digit (unat x mod 16) = hex_digit (unat y mod 16)"
    using Cons.prems by (simp_all add: hex_lower_def)
  then have "unat x div 16 = unat y div 16" "unat x mod 16 = unat y mod 16"
    using b by (auto intro!: hex_digit_inj)
  then have "x = y" by (metis div_mult_mod_eq word_unat_eq_iff)
  then show ?case using Cons by (simp add: hex_lower_def)
qed simp

interpretation mix: crypto_laws mix_crypto
  by unfold_locales (simp_all add: mix_crypto_def hex_lower_inj)

section \<open>Properties\<close>

text \<open>A numeric step that finds no number: the text unchanged, the flag false.\<close>

definition no_numbers :: "'g numeric_step" where
  "no_numbers t pct g = Inr ((t, False), g)"

text \<open>
  C21. The audit log is enough to replay a response: two runs on the same clean text, tier and
  settings that logged the same noise seed served the same text by the same steps, whatever
  the sessions were. Nothing but the eight logged bytes of the HMAC reaches the generator.
\<close>

theorem replay_from_the_log:
  assumes "crypto_laws C" "tier \<noteq> 1" "noise_seed_hex r = noise_seed_hex r'"
    and "run_pipeline U R C num clean tier h t cfg = Inr r"
    and "run_pipeline U R C num clean tier h' t' cfg = Inr r'"
  shows "r = r'"
  using crypto_laws.replay [OF assms(1,4,5,2,3)] .

theorem replay_from_the_log_witness:
  "run_pipeline ascii_tables lcg_rng mix_crypto no_numbers ''A high score.'' 2 ''a1'' 2 default_defence =
   run_pipeline ascii_tables lcg_rng mix_crypto no_numbers ''A high score.'' 2 ''a'' 12 default_defence"
proof -
  let ?run = "\<lambda>h t. run_pipeline ascii_tables lcg_rng mix_crypto no_numbers ''A high score.'' 2 h t default_defence"
  have ok: "\<exists>r. ?run h t = Inr r" for h t
    by (rule mix.run_pipeline_no_panic [OF syn.synonym_env_axioms]) (unfold no_numbers_def, blast)
  obtain r r' where r: "?run ''a1'' 2 = Inr r" "?run ''a'' 12 = Inr r'" using ok by blast
  have "char_of (49::nat) = CHR ''1''" "char_of (50::nat) = CHR ''2''"
    using char_of_byte [of "CHR ''1''"] char_of_byte [of "CHR ''2''"] by (simp_all add: byte_def)
  then have "''a1'' @ show_int 2 = ''a'' @ show_int 12"
    by (simp add: show_int_def show_nat.simps digit_char_def)
  then have "derive_session_seed mix_crypto ''a1'' 2 = derive_session_seed mix_crypto ''a'' 12"
    by (simp only: derive_session_seed_def mix_crypto_def crypto.simps)
  moreover have t: "(2 :: u8) \<noteq> 1" by simp
  ultimately have "noise_seed_hex r = noise_seed_hex r'"
    using run_pipeline_hex [OF r(1) t] run_pipeline_hex [OF r(2) t] by simp
  from replay_from_the_log [OF mix.crypto_laws_axioms t this r] r show ?thesis by simp
qed

text \<open>
  The steps of a run are determined by the tier and two flags. Tier 1 returns the clean text
  with no step and no seed; every other tier reports the synonym step first, even when no word
  was replaced, the numeric step only when its flag is set, and the reordering last and
  only in Tier 3 with reordering enabled.
\<close>

theorem steps_by_tier:
  assumes "run_pipeline U R C num clean tier h t cfg = Inr r"
  shows "if tier = 1 then r = \<lparr>served_response = clean, steps_applied = [], noise_seed_hex = []\<rparr>
    else \<exists>numeric reorder. steps_applied r =
        [synonym_step_name (if tier = 3 then tier3_synonym_ratio cfg else tier2_synonym_ratio cfg)] @
        (if numeric then [numeric_step_name (numeric_perturb_pct cfg)] else []) @
        (if reorder \<and> tier = 3 \<and> reorder_sentences_on cfg then [''sentence_reorder''] else [])"
proof (cases "tier = 1")
  case False
  obtain g out steps g' where s: "run_steps U R num tier cfg clean g = Inr (out, steps, g')" "steps_applied r = steps"
    by (rule run_pipeline_Inr [OF assms False]) simp
  then show ?thesis
    using run_steps_steps [OF s(1)] by (simp only: False if_False)
qed (use assms in \<open>simp add: run_pipeline_def\<close>)

theorem steps_by_tier_witness:
  "run_pipeline ascii_tables lcg_rng mix_crypto no_numbers ''Hi'' 1 ''a'' 12 default_defence =
     Inr \<lparr>served_response = ''Hi'', steps_applied = [], noise_seed_hex = []\<rparr>"
proof -
  obtain r where r: "run_pipeline ascii_tables lcg_rng mix_crypto no_numbers ''Hi'' 1 ''a'' 12 default_defence = Inr r"
    by (simp add: run_pipeline_def)
  with steps_by_tier [OF r] show ?thesis by simp
qed

text \<open>
  C22. Reordering rearranges the sentences and invents nothing: the result joins a permutation
  of the non-blank sentences; when no piece of the split is blank it has the length of the
  text. Texts of fewer than three sentences are returned unchanged.
\<close>

theorem reorder_is_a_permutation:
  assumes "rng_laws R"
  shows "if length (sentences_of s) < 3 then reorder_sentences R s g = ((s, False), g)
    else \<exists>ys g'. reorder_sentences R s g = ((join ''. '' ys, True), g') \<and> mset ys = mset (sentences_of s) \<and>
      (sentences_of s = split_str ''. '' s \<longrightarrow> length (join ''. '' ys) = length s)"
proof (cases "length (sentences_of s) < 3")
  case False
  then obtain ys g' where "reorder_sentences R s g = ((join ''. '' ys, True), g')" "mset ys = mset (sentences_of s)"
    using rng_laws.reorder_perm [OF assms, of s g] by auto
  then show ?thesis using False rng_laws.reorder_length [OF assms, of ys s] by auto
qed (simp add: reorder_sentences_def Let_def)

theorem reorder_is_a_permutation_witness:
  "\<exists>ys g'. reorder_sentences lcg_rng ''A. B. C.'' 5 = ((join ''. '' ys, True), g') \<and> mset ys = mset [''A'', ''B'', ''C.'']"
proof -
  have s: "sentences_of ''A. B. C.'' = [''A'', ''B'', ''C.'']"
    by (simp add: sentences_of_def split_str_def starts_with_def trim_is_empty_def is_white_def
        white_encodings_def byte_def char_width_def)
  have "\<not> length (sentences_of ''A. B. C.'') < 3" by (simp add: s)
  then show ?thesis
    using reorder_is_a_permutation [OF lcg.rng_laws_axioms, of "''A. B. C.''" 5] unfolding s by auto
qed

text \<open>
  The pipeline panics only where its numeric step does: slicing the HMAC to eight bytes and
  choosing a synonym cannot fail, for any text, session, tier number and ratio.
\<close>

theorem pipeline_panics_only_in_numeric:
  assumes "unicode_tables U" "rng_laws R" "crypto_laws C" "\<forall>t p g. \<exists>x. num t p g = Inr x"
  shows "\<exists>r. run_pipeline U R C num clean tier h t cfg = Inr r"
  by (rule crypto_laws.run_pipeline_no_panic [OF assms(3) synonym_env.intro [OF assms(1,2)] assms(4)])

theorem pipeline_panics_only_in_numeric_witness:
  "\<exists>r. run_pipeline ascii_tables lcg_rng mix_crypto no_numbers ''The model returns a result.'' 3 ''abc'' 1000 default_defence = Inr r"
  by (rule pipeline_panics_only_in_numeric [OF ascii_u.unicode_tables_axioms lcg.rng_laws_axioms mix.crypto_laws_axioms])
    (unfold no_numbers_def, blast)

end
