(* ===== verification/Json.thy ===== *)
theory Json
  imports Text
begin

text \<open>
  JSON between the structs of the engine and the text that \<open>serde_json\<close> writes and reads. The text
  is the library's: a type \<open>'j\<close>, and the record \<open>json\<close> of operations on it. What
  \<open>derive(Serialize, Deserialize)\<close> makes of a struct is not a text but a value of \<open>json_value\<close>; the
  reading of its fields, as the derived code does it, is modelled here, and the codec of the session
  in \<open>Session\<close>.
\<close>

section \<open>Values\<close>

text \<open>\<open>JFloat x\<close> is a number with a fraction or an exponent, as an \<open>f32\<close> field writes or reads it.\<close>

datatype json_value =
    JNull
  | JBool bool
  | JInt int
  | JFloat fp
  | JStr string
  | JArr "json_value list"
  | JObj "(string \<times> json_value) list"

primrec map_floats :: "(fp \<Rightarrow> json_value) \<Rightarrow> json_value \<Rightarrow> json_value" where
  "map_floats f JNull = JNull"
| "map_floats f (JBool b) = JBool b"
| "map_floats f (JInt n) = JInt n"
| "map_floats f (JFloat x) = f x"
| "map_floats f (JStr s) = JStr s"
| "map_floats f (JArr vs) = JArr (map (map_floats f) vs)"
| "map_floats f (JObj m) = JObj (map (map_prod id (map_floats f)) m)"

section \<open>Reading a field\<close>

text \<open>
  \<open>Deserialize\<close> of the types of the fields; \<open>None\<close> is an error. An integer is accepted where an
  \<open>f32\<close> is expected, but not the other way round, and \<open>null\<close> only where an \<open>Option\<close> is.
\<close>

fun read_string :: "json_value \<Rightarrow> string option" where
  "read_string (JStr s) = Some s"
| "read_string v = None"

fun read_bool :: "json_value \<Rightarrow> bool option" where
  "read_bool (JBool b) = Some b"
| "read_bool v = None"

fun read_i32 :: "json_value \<Rightarrow> 32 word option" where
  "read_i32 (JInt n) = (if - (2 ^ 31) \<le> n \<and> n < 2 ^ 31 then Some (word_of_int n) else None)"
| "read_i32 v = None"

fun read_u64 :: "json_value \<Rightarrow> 64 word option" where
  "read_u64 (JInt n) = (if 0 \<le> n \<and> n < 2 ^ 64 then Some (word_of_int n) else None)"
| "read_u64 v = None"

fun read_f32 :: "json_value \<Rightarrow> fp option" where
  "read_f32 (JFloat x) = Some x"
| "read_f32 (JInt n) = Some (fof_int F32 n)"
| "read_f32 v = None"

fun read_vec :: "(json_value \<Rightarrow> 'a option) \<Rightarrow> json_value \<Rightarrow> 'a list option" where
  "read_vec r (JArr vs) = those (map r vs)"
| "read_vec r v = None"

fun read_option :: "(json_value \<Rightarrow> 'a option) \<Rightarrow> json_value \<Rightarrow> 'a option option" where
  "read_option r JNull = Some None"
| "read_option r v = map_option Some (r v)"

text \<open>A missing field is an error, unless it is an \<open>Option\<close>.\<close>

definition required :: "(string \<times> json_value) list \<Rightarrow> string \<Rightarrow> (json_value \<Rightarrow> 'a option) \<Rightarrow> 'a option" where
  "required m k r = Option.bind (map_of m k) r"

definition optional :: "(string \<times> json_value) list \<Rightarrow> string \<Rightarrow> (json_value \<Rightarrow> 'a option) \<Rightarrow> 'a option option" where
  "optional m k r = (case map_of m k of None \<Rightarrow> Some None | Some v \<Rightarrow> read_option r v)"

text \<open>
  The fields of a struct, out of an object (unknown fields are ignored, a field that comes twice is
  an error) or out of an array that has them in their order.
\<close>

fun struct_fields :: "string list \<Rightarrow> json_value \<Rightarrow> (string \<times> json_value) list option" where
  "struct_fields names (JObj m) =
     (if distinct (filter (\<lambda>k. k \<in> set names) (map fst m)) then Some m else None)"
| "struct_fields names (JArr vs) = (if length vs = length names then Some (zip names vs) else None)"
| "struct_fields names v = None"

lemma read_i32_sint [simp]: "read_i32 (JInt (sint w)) = Some w"
  using sint_ge [of w] sint_lt [of w] by simp

lemma read_u64_uint [simp]: "read_u64 (JInt (uint w)) = Some w"
  using uint_lt2p [of w] by simp

lemma those_Some: "(\<And>x. x \<in> set xs \<Longrightarrow> f x = Some (g x)) \<Longrightarrow> those (map f xs) = Some (map g xs)"
  by (induction xs) auto

lemma those_map_Some [simp]: "those (map Some xs) = Some xs"
  by (induction xs) auto

lemma those_None: "x \<in> set xs \<Longrightarrow> f x = None \<Longrightarrow> those (map f xs) = None"
  by (induction xs) (auto split: option.splits)

section \<open>The library\<close>

text \<open>
  \<open>js_print\<close> and \<open>js_parse\<close> are the text, \<open>js_time\<close> and \<open>js_read_time\<close> the way \<open>chrono\<close> writes an
  instant into it, \<open>js_error\<close> the message for a value that does not have the shape.
\<close>

record ('d, 'j) json =
  js_print :: "json_value \<Rightarrow> string + 'j"
  js_parse :: "'j \<Rightarrow> string + json_value"
  js_time :: "'d \<Rightarrow> string"
  js_read_time :: "string \<Rightarrow> 'd option"
  js_error :: "json_value \<Rightarrow> string"

fun read_time :: "('d, 'j) json \<Rightarrow> json_value \<Rightarrow> 'd option" where
  "read_time J (JStr s) = js_read_time J s"
| "read_time J v = None"

text \<open>
  What becomes of one number: the value that parsing gives for it alone, and the \<open>f32\<close> that is read
  of it. \<open>serde_json\<close> parses floats to the best of its precision and promises no more (its
  feature \<open>float_roundtrip\<close> is off in \<open>Cargo.toml\<close>), so the laws only say that a finite number comes
  back as some finite number, and that NaN and the infinities are written as \<open>null\<close>.
\<close>

definition float_back :: "('d, 'j) json \<Rightarrow> fp \<Rightarrow> json_value" where
  "float_back J x =
     (case js_print J (JFloat x) of Inl m \<Rightarrow> JNull | Inr j \<Rightarrow> (case js_parse J j of Inl m \<Rightarrow> JNull | Inr v \<Rightarrow> v))"

definition f32_back :: "('d, 'j) json \<Rightarrow> fp \<Rightarrow> fp" where
  "f32_back J x = (case read_f32 (float_back J x) of Some y \<Rightarrow> y | None \<Rightarrow> NaN)"

locale json_laws =
  fixes J :: "('d, 'j) json"
  assumes parse_print: "js_print J v = Inr j \<Longrightarrow> js_parse J j = Inr (map_floats (float_back J) v)"
    and finite_back: "is_fin x \<Longrightarrow> \<exists>y. float_back J x = JFloat y \<and> is_fin y"
    and others_null: "\<not> is_fin x \<Longrightarrow> float_back J x = JNull"
    and time_back: "js_read_time J (js_time J t) = Some t"
begin

lemma read_f32_back: "is_fin x \<Longrightarrow> read_f32 (float_back J x) = Some (f32_back J x)"
  using finite_back [of x] by (auto simp: f32_back_def)

lemma f32_back_fin: "is_fin x \<Longrightarrow> is_fin (f32_back J x)"
  using finite_back [of x] by (auto simp: f32_back_def)

lemma read_f32_null: "\<not> is_fin x \<Longrightarrow> read_f32 (float_back J x) = None"
  by (simp add: others_null)

lemma read_time_back: "read_time J (JStr (js_time J t)) = Some t"
  by (simp add: time_back)

end

section \<open>An instance\<close>

text \<open>A text that is the value itself, with \<open>null\<close> for what is no number, and instants in decimal.\<close>

definition null_float :: "fp \<Rightarrow> json_value" where
  "null_float x = (if is_fin x then JFloat x else JNull)"

definition null_json :: "(int, json_value) json" where
  "null_json =
     \<lparr>js_print = (\<lambda>v. Inr (map_floats null_float v)), js_parse = Inr, js_time = show_int,
      js_read_time = (\<lambda>s. Some (read_int s)), js_error = (\<lambda>_. ''invalid type'')\<rparr>"

lemma null_back: "float_back null_json = null_float"
  by (simp add: float_back_def null_json_def fun_eq_iff)

interpretation nulls: json_laws null_json
  by unfold_locales (simp_all add: null_back, simp_all add: null_json_def null_float_def read_show_int)

end
