(* ===== verification/Session.thy ===== *)
theory Session
  imports Velocity Json "HOL-Library.AList"
begin

text \<open>
  \<open>engine/src/store/session.rs\<close> and \<open>store/mod.rs\<close>: the session profile, its JSON and its storage.
  Redis is the record \<open>redis\<close>, over a type \<open>'r\<close> of server states, a type \<open>'j\<close> of JSON texts and a
  type \<open>'e\<close> of errors (\<open>VyseError\<close>, whose definition is not in the repository); the text is
  \<open>serde_json\<close>'s, the record \<open>json\<close> of \<open>Json\<close>. An operation that fails is a value of \<open>'e + 'a\<close>, one
  that may also panic a value of \<open>('e, 'a) io\<close>. The locales \<open>redis_laws\<close> and \<open>json_laws\<close> are what the
  engine relies on.
\<close>

section \<open>The session\<close>

type_synonym i32 = "32 word"

type_synonym u64 = "64 word"

record 'd session =
  s_id_hash :: string
  s_tier :: i32
  s_first_seen_at :: 'd
  s_last_active_at :: 'd
  s_tracking_started_at :: "'d option"
  s_request_count :: u64
  s_dynamic_mean_rpm :: fp
  s_current_hybrid_score :: fp
  s_timestamps :: "'d list"
  s_prompt_history :: "string list"
  s_last_embedding :: "fp list option"
  s_is_banned :: bool
  s_noise_seed :: "string option"

definition session_new :: "'d \<Rightarrow> string \<Rightarrow> 'd session" where
  "session_new now hash =
     \<lparr>s_id_hash = hash, s_tier = 1, s_first_seen_at = now, s_last_active_at = now,
      s_tracking_started_at = None, s_request_count = 0, s_dynamic_mean_rpm = Num 0,
      s_current_hybrid_score = Num 0, s_timestamps = [], s_prompt_history = [],
      s_last_embedding = None, s_is_banned = False, s_noise_seed = None\<rparr>"

definition tracking_duration_mins :: "'d chrono \<Rightarrow> 'd \<Rightarrow> 'd session \<Rightarrow> fp" where
  "tracking_duration_mins C now s =
     (case s_tracking_started_at s of
        Some started \<Rightarrow> fdiv F32 (fof_int F32 (num_seconds C now started)) (Num 60)
      | None \<Rightarrow> Num 0)"

definition keep_last :: "nat \<Rightarrow> 'a list \<Rightarrow> 'a list" where
  "keep_last n xs = (if n < length xs then drop (length xs - n) xs else xs)"

definition session_trim :: "nat \<Rightarrow> nat \<Rightarrow> 'd session \<Rightarrow> 'd session" where
  "session_trim timestamps_max history_max s =
     s\<lparr>s_timestamps := keep_last timestamps_max (s_timestamps s),
       s_prompt_history := keep_last history_max (s_prompt_history s)\<rparr>"

lemma keep_last_spec: "length (keep_last n xs) = min n (length xs) \<and> (\<exists>old. xs = old @ keep_last n xs)"
  unfolding keep_last_def by (auto intro: exI [of _ "take (length xs - n) xs"])

section \<open>The session as JSON\<close>

text \<open>
  What \<open>derive(Serialize, Deserialize)\<close> makes of \<open>Session\<close>: an object with the fields under their
  names, an \<open>Option\<close> as the value or \<open>null\<close>, a list as an array.
\<close>

definition session_fields :: "string list" where
  "session_fields =
     [''session_id_hash'', ''tier'', ''first_seen_at'', ''last_active_at'', ''tracking_started_at'',
      ''request_count'', ''dynamic_mean_rpm'', ''current_hybrid_score'', ''timestamps'',
      ''prompt_history'', ''last_embedding'', ''is_banned'', ''noise_seed'']"

definition option_value :: "('a \<Rightarrow> json_value) \<Rightarrow> 'a option \<Rightarrow> json_value" where
  "option_value f x = (case x of None \<Rightarrow> JNull | Some y \<Rightarrow> f y)"

definition session_value :: "('d, 'j) json \<Rightarrow> 'd session \<Rightarrow> json_value" where
  "session_value J s =
     JObj [(''session_id_hash'', JStr (s_id_hash s)),
           (''tier'', JInt (sint (s_tier s))),
           (''first_seen_at'', JStr (js_time J (s_first_seen_at s))),
           (''last_active_at'', JStr (js_time J (s_last_active_at s))),
           (''tracking_started_at'', option_value (\<lambda>t. JStr (js_time J t)) (s_tracking_started_at s)),
           (''request_count'', JInt (uint (s_request_count s))),
           (''dynamic_mean_rpm'', JFloat (s_dynamic_mean_rpm s)),
           (''current_hybrid_score'', JFloat (s_current_hybrid_score s)),
           (''timestamps'', JArr (map (\<lambda>t. JStr (js_time J t)) (s_timestamps s))),
           (''prompt_history'', JArr (map JStr (s_prompt_history s))),
           (''last_embedding'', option_value (\<lambda>xs. JArr (map JFloat xs)) (s_last_embedding s)),
           (''is_banned'', JBool (s_is_banned s)),
           (''noise_seed'', option_value JStr (s_noise_seed s))]"

definition read_session_fields :: "('d, 'j) json \<Rightarrow> (string \<times> json_value) list \<Rightarrow> 'd session option" where
  "read_session_fields J m =
     Option.bind (required m ''session_id_hash'' read_string) (\<lambda>hash.
     Option.bind (required m ''tier'' read_i32) (\<lambda>tier.
     Option.bind (required m ''first_seen_at'' (read_time J)) (\<lambda>first_seen.
     Option.bind (required m ''last_active_at'' (read_time J)) (\<lambda>last_active.
     Option.bind (optional m ''tracking_started_at'' (read_time J)) (\<lambda>tracking.
     Option.bind (required m ''request_count'' read_u64) (\<lambda>count.
     Option.bind (required m ''dynamic_mean_rpm'' read_f32) (\<lambda>rpm.
     Option.bind (required m ''current_hybrid_score'' read_f32) (\<lambda>score.
     Option.bind (required m ''timestamps'' (read_vec (read_time J))) (\<lambda>timestamps.
     Option.bind (required m ''prompt_history'' (read_vec read_string)) (\<lambda>history.
     Option.bind (optional m ''last_embedding'' (read_vec read_f32)) (\<lambda>embedding.
     Option.bind (required m ''is_banned'' read_bool) (\<lambda>banned.
     Option.bind (optional m ''noise_seed'' read_string) (\<lambda>seed.
       Some \<lparr>s_id_hash = hash, s_tier = tier, s_first_seen_at = first_seen, s_last_active_at = last_active,
         s_tracking_started_at = tracking, s_request_count = count, s_dynamic_mean_rpm = rpm,
         s_current_hybrid_score = score, s_timestamps = timestamps, s_prompt_history = history,
         s_last_embedding = embedding, s_is_banned = banned, s_noise_seed = seed\<rparr>)))))))))))))"

definition read_session :: "('d, 'j) json \<Rightarrow> json_value \<Rightarrow> 'd session option" where
  "read_session J v = Option.bind (struct_fields session_fields v) (read_session_fields J)"

text \<open>\<open>serde_json::to_string\<close> and \<open>serde_json::from_str\<close> at the type \<open>Session\<close>.\<close>

definition to_json :: "('d, 'j) json \<Rightarrow> 'd session \<Rightarrow> string + 'j" where
  "to_json J s = js_print J (session_value J s)"

definition from_json :: "('d, 'j) json \<Rightarrow> 'j \<Rightarrow> string + 'd session" where
  "from_json J j =
     (case js_parse J j of
        Inl m \<Rightarrow> Inl m
      | Inr v \<Rightarrow> (case read_session J v of None \<Rightarrow> Inl (js_error J v) | Some s \<Rightarrow> Inr s))"

definition floats_finite :: "'d session \<Rightarrow> bool" where
  "floats_finite s \<longleftrightarrow>
     is_fin (s_dynamic_mean_rpm s) \<and> is_fin (s_current_hybrid_score s) \<and>
     (case s_last_embedding s of None \<Rightarrow> True | Some xs \<Rightarrow> list_all is_fin xs)"

text \<open>A session as it comes back: its floats as they are read again, everything else as it was.\<close>

definition session_back :: "('d, 'j) json \<Rightarrow> 'd session \<Rightarrow> 'd session" where
  "session_back J s =
     s\<lparr>s_dynamic_mean_rpm := f32_back J (s_dynamic_mean_rpm s),
       s_current_hybrid_score := f32_back J (s_current_hybrid_score s),
       s_last_embedding := map_option (map (f32_back J)) (s_last_embedding s)\<rparr>"

lemmas back_simps = session_back_def floats_finite_def

lemma session_back_fields [simp]:
  "s_id_hash (session_back J s) = s_id_hash s" "s_tier (session_back J s) = s_tier s"
  "s_first_seen_at (session_back J s) = s_first_seen_at s" "s_last_active_at (session_back J s) = s_last_active_at s"
  "s_tracking_started_at (session_back J s) = s_tracking_started_at s"
  "s_request_count (session_back J s) = s_request_count s" "s_timestamps (session_back J s) = s_timestamps s"
  "s_prompt_history (session_back J s) = s_prompt_history s" "s_is_banned (session_back J s) = s_is_banned s"
  "s_noise_seed (session_back J s) = s_noise_seed s"
  by (simp_all add: session_back_def)

context json_laws
begin

lemma embedding_back:
  "list_all is_fin xs \<Longrightarrow> read_vec read_f32 (JArr (map (float_back J) xs)) = Some (map (f32_back J) xs)"
  "\<not> list_all is_fin xs \<Longrightarrow> read_vec read_f32 (JArr (map (float_back J) xs)) = None"
proof -
  show "list_all is_fin xs \<Longrightarrow> read_vec read_f32 (JArr (map (float_back J) xs)) = Some (map (f32_back J) xs)"
    by (simp add: o_def list_all_iff read_f32_back those_Some)
  show "\<not> list_all is_fin xs \<Longrightarrow> read_vec read_f32 (JArr (map (float_back J) xs)) = None"
    by (auto simp: o_def list_all_iff read_f32_null intro: those_None)
qed

lemma read_session_value:
  "read_session J (map_floats (float_back J) (session_value J s)) =
     (if floats_finite s then Some (session_back J s) else None)"
proof (cases "is_fin (s_dynamic_mean_rpm s) \<and> is_fin (s_current_hybrid_score s)")
  case True
  note emb = embedding_back [unfolded read_vec.simps list.map_comp o_def]
  show ?thesis
    using True emb
    by (cases s) (auto simp: read_session_def session_value_def session_fields_def read_session_fields_def
        required_def optional_def option_value_def time_back o_def read_f32_back back_simps
        simp del: read_i32.simps read_u64.simps split: option.split)
next
  case False
  then have "read_session_fields J (map (map_prod id (map_floats (float_back J)))
      (case session_value J s of JObj m \<Rightarrow> m | _ \<Rightarrow> [])) = None"
    by (auto simp: session_value_def read_session_fields_def required_def read_f32_null bind_eq_None_conv
        simp del: read_i32.simps read_u64.simps)
  then show ?thesis
    using False by (auto simp: read_session_def session_value_def session_fields_def floats_finite_def
        simp del: read_i32.simps read_u64.simps)
qed

lemma json_finite: "to_json J s = Inr j \<Longrightarrow> floats_finite s \<Longrightarrow> from_json J j = Inr (session_back J s)"
  by (simp add: to_json_def from_json_def parse_print read_session_value)

lemma json_null: "to_json J s = Inr j \<Longrightarrow> \<not> floats_finite s \<Longrightarrow> \<exists>m. from_json J j = Inl m"
  by (simp add: to_json_def from_json_def parse_print read_session_value)

end

section \<open>Storage\<close>

type_synonym ('e, 'a) io = "('e + 'a) run"

record ('r, 'e, 'j) redis =
  rd_get :: "string \<Rightarrow> 'r \<Rightarrow> 'e + 'j option"
  rd_set_ex :: "string \<Rightarrow> 'j \<Rightarrow> u64 \<Rightarrow> 'r \<Rightarrow> ('e + unit) \<times> 'r"
  rd_del :: "string \<Rightarrow> 'r \<Rightarrow> ('e + nat) \<times> 'r"
  rd_keys :: "string \<Rightarrow> 'r \<Rightarrow> 'e + string list"

definition session_key :: "string \<Rightarrow> string" where
  "session_key hash = ''vyse:session:'' @ hash"

text \<open>
  The span of \<open>get\<close> and \<open>set\<close> records the first eight bytes of the hash: a slice, taken when
  spans of that level are enabled (\<open>traced\<close>), which panics inside an encoded character.
  \<open>internal\<close> is \<open>VyseError::Internal\<close>.
\<close>

definition trace_prefix :: "bool \<Rightarrow> string \<Rightarrow> unit run" where
  "trace_prefix traced hash =
     (if traced then map_run (\<lambda>_. ()) (slice_to hash (min 8 (length hash))) else Inr ())"

definition session_get ::
    "bool \<Rightarrow> (string \<Rightarrow> 'e) \<Rightarrow> ('r, 'e, 'j) redis \<Rightarrow> ('d, 'j) json \<Rightarrow> string \<Rightarrow> 'r \<Rightarrow> ('e, 'd session option) io" where
  "session_get traced internal D J hash r =
     bind_run (trace_prefix traced hash) (\<lambda>_. Inr
       (case rd_get D (session_key hash) r of
          Inl e \<Rightarrow> Inl e
        | Inr None \<Rightarrow> Inr None
        | Inr (Some j) \<Rightarrow>
            (case from_json J j of
               Inl m \<Rightarrow> Inl (internal (''deserialise session: '' @ m))
             | Inr s \<Rightarrow> Inr (Some s))))"

definition session_set ::
    "bool \<Rightarrow> (string \<Rightarrow> 'e) \<Rightarrow> ('r, 'e, 'j) redis \<Rightarrow> ('d, 'j) json \<Rightarrow> 'd session \<Rightarrow> u64 \<Rightarrow> 'r \<Rightarrow> ('e, unit) io \<times> 'r" where
  "session_set traced internal D J s ttl r =
     (case trace_prefix traced (s_id_hash s) of
        Inl p \<Rightarrow> (Inl p, r)
      | Inr _ \<Rightarrow>
          (case to_json J s of
             Inl m \<Rightarrow> (Inr (Inl (internal (''serialise session: '' @ m))), r)
           | Inr j \<Rightarrow> (case rd_set_ex D (session_key (s_id_hash s)) j ttl r of (res, r') \<Rightarrow> (Inr res, r'))))"

definition session_delete :: "('r, 'e, 'j) redis \<Rightarrow> string \<Rightarrow> 'r \<Rightarrow> ('e + bool) \<times> 'r" where
  "session_delete D hash r =
     (case rd_del D (session_key hash) r of
        (Inl e, r') \<Rightarrow> (Inl e, r')
      | (Inr n, r') \<Rightarrow> (Inr (0 < n), r'))"

definition list_hashes :: "('r, 'e, 'j) redis \<Rightarrow> 'r \<Rightarrow> 'e + string list" where
  "list_hashes D r =
     (case rd_keys D (''vyse:session:'' @ ''*'') r of
        Inl e \<Rightarrow> Inl e
      | Inr keys \<Rightarrow>
          Inr (map (\<lambda>k. case strip_prefix k ''vyse:session:'' of Some h \<Rightarrow> h | None \<Rightarrow> k) keys))"

text \<open>
  \<open>Stores::health_check\<close>: \<open>conn\<close> tells whether the pool gave a connection, \<open>ping\<close> is the answer
  to \<open>PING\<close>, \<open>select\<close> whether \<open>SELECT 1\<close> succeeded.
\<close>

definition stores_health_check :: "bool \<Rightarrow> string option \<Rightarrow> bool \<Rightarrow> bool \<times> bool" where
  "stores_health_check conn ping select =
     (if conn then (case ping of None \<Rightarrow> False | Some pong \<Rightarrow> pong = ''PONG'') else False, select)"

text \<open>
  \<open>Stores::connect\<close>: the Redis manager, its pool, the PostgreSQL pool and the migrations, each an
  argument; the first failure is returned, that of the pool as \<open>VyseError::Internal\<close>.
\<close>

definition stores_connect ::
    "(string \<Rightarrow> 'e) \<Rightarrow> (string \<Rightarrow> 'e + 'm) \<Rightarrow> (nat \<Rightarrow> 'm \<Rightarrow> string + 'p) \<Rightarrow> (nat \<Rightarrow> string \<Rightarrow> 'e + 'q) \<Rightarrow>
     ('q \<Rightarrow> 'e + unit) \<Rightarrow> string \<Rightarrow> string \<Rightarrow> nat \<Rightarrow> nat \<Rightarrow> 'e + 'p \<times> 'q" where
  "stores_connect internal manager pool postgres migrate redis_at postgres_at redis_size postgres_size =
     (case manager redis_at of
        Inl e \<Rightarrow> Inl e
      | Inr m \<Rightarrow>
          (case pool redis_size m of
             Inl msg \<Rightarrow> Inl (internal msg)
           | Inr redis \<Rightarrow>
               (case postgres postgres_size postgres_at of
                  Inl e \<Rightarrow> Inl e
                | Inr db \<Rightarrow> (case migrate db of Inl e \<Rightarrow> Inl e | Inr _ \<Rightarrow> Inr (redis, db)))))"

text \<open>No handler ever sees a database whose migrations did not run.\<close>

lemma stores_connect_migrated:
  "stores_connect internal manager pool postgres migrate redis_at postgres_at n m = Inr (redis, db) \<Longrightarrow>
   migrate db = Inr ()"
  by (auto simp: stores_connect_def split: sum.splits)

section \<open>The contracts\<close>

definition plain_glob :: "string \<Rightarrow> bool" where
  "plain_glob p \<longleftrightarrow> list_all (\<lambda>c. c \<notin> {CHR ''*'', CHR ''?'', CHR ''['', CHR '']'', CHR 0x5C}) p"

locale redis_laws =
  fixes D :: "('r, 'e, 'j) redis" and content :: "'r \<Rightarrow> string \<Rightarrow> 'j option"
  assumes get_content: "rd_get D k r = Inr v \<Longrightarrow> v = content r k"
    and set_frame: "rd_set_ex D k j ttl r = (res, r') \<Longrightarrow> k' \<noteq> k \<Longrightarrow> content r' k' = content r k'"
    and set_ok: "rd_set_ex D k j ttl r = (Inr u, r') \<Longrightarrow> content r' k = Some j"
    and set_err: "rd_set_ex D k j ttl r = (Inl e, r') \<Longrightarrow> content r' k \<in> {content r k, Some j}"
    and del_frame: "rd_del D k r = (res', r') \<Longrightarrow> k' \<noteq> k \<Longrightarrow> content r' k' = content r k'"
    and del_ok: "rd_del D k r = (Inr n, r') \<Longrightarrow> content r' k = None \<and> (0 < n \<longleftrightarrow> content r k \<noteq> None)"
    and del_err: "rd_del D k r = (Inl e, r') \<Longrightarrow> content r' k \<in> {content r k, None}"
    and keys_content: "rd_keys D (p @ ''*'') r = Inr ks \<Longrightarrow> plain_glob p \<Longrightarrow>
      distinct ks \<and> set ks = {k. content r k \<noteq> None \<and> starts_with k p}"

lemma session_key_inj [simp]: "session_key a = session_key b \<longleftrightarrow> a = b"
  by (simp add: session_key_def)

lemma bind_trace: "bind_run (trace_prefix traced h) f = Inr x \<Longrightarrow> f () = Inr x"
  by (cases "trace_prefix traced h") auto

lemma trace_ascii: "ascii h \<Longrightarrow> trace_prefix traced h = Inr ()"
  by (simp add: trace_prefix_def slice_to_def is_char_boundary_ascii)

context redis_laws
begin

lemma delete_content:
  assumes "session_delete D hash r = (Inr b, r')"
  shows "content r' = (content r)(session_key hash := None)"
    and "b \<longleftrightarrow> content r (session_key hash) \<noteq> None"
  using assms del_ok [of "session_key hash" r _ r'] del_frame [of "session_key hash" r _ r']
  by (auto simp: session_delete_def fun_eq_iff split: sum.splits prod.splits)

lemma list_hashes_content:
  assumes "list_hashes D r = Inr hs"
  shows "distinct hs \<and> set hs = {h. content r (session_key h) \<noteq> None}"
proof -
  let ?p = "''vyse:session:''" let ?f = "\<lambda>k. case strip_prefix k ?p of Some h \<Rightarrow> h | None \<Rightarrow> k"
  obtain ks where ks: "rd_keys D (?p @ ''*'') r = Inr ks" "hs = map ?f ks"
    using assms by (auto simp: list_hashes_def split: sum.splits)
  have "plain_glob ?p" by (simp add: plain_glob_def)
  note k = keys_content [OF ks(1) this]
  have f: "?f (session_key h) = h" for h by (simp add: session_key_def del: append.simps)
  have keys: "set ks = session_key ` {h. content r (session_key h) \<noteq> None}"
  proof -
    have "starts_with k ?p \<longleftrightarrow> (\<exists>h. k = session_key h)" for k
      unfolding session_key_def starts_with_def by (metis append_eq_conv_conj append_take_drop_id)
    then show ?thesis using k by auto
  qed
  have inv: "session_key (?f k) = k" if "k \<in> set ks" for k
    using that unfolding keys by (elim imageE) (simp only: f)
  have "inj_on ?f (set ks)" by (rule inj_on_inverseI [where g = session_key]) (rule inv)
  moreover have "?f ` set ks = {h. content r (session_key h) \<noteq> None}"
    unfolding keys image_image f by (rule image_ident)
  ultimately show ?thesis using k ks(2) by (simp add: distinct_map)
qed

end

locale session_store = redis_laws D content + json_laws J
  for D :: "('r, 'e, 'j) redis" and content :: "'r \<Rightarrow> string \<Rightarrow> 'j option" and J :: "('d, 'j) json"
begin

lemma set_content:
  assumes "session_set traced internal D J s ttl r = (Inr (Inr u), r')"
  obtains j where "to_json J s = Inr j" "content r' = (content r)(session_key (s_id_hash s) \<mapsto> j)"
proof -
  obtain j where j: "to_json J s = Inr j" "rd_set_ex D (session_key (s_id_hash s)) j ttl r = (Inr u, r')"
    using assms by (auto simp: session_set_def split: sum.splits prod.splits)
  then have "content r' = (content r)(session_key (s_id_hash s) \<mapsto> j)"
    using set_ok [OF j(2)] set_frame [OF j(2)] by (auto simp: fun_eq_iff)
  with j(1) that show ?thesis by blast
qed

lemma get_cases:
  assumes "session_get traced internal D J hash r = Inr (Inr v)"
  obtains "v = None" "content r (session_key hash) = None"
  | j s where "v = Some s" "content r (session_key hash) = Some j" "from_json J j = Inr s"
  using bind_trace [OF assms [unfolded session_get_def]] get_content [of "session_key hash" r]
  by (auto split: sum.splits option.splits)

lemma set_get:
  assumes set: "session_set traced internal D J s ttl r = (Inr (Inr u), r')" and fin: "floats_finite s"
    and get: "session_get traced' internal' D J (s_id_hash s) r' = Inr (Inr v)"
  shows "v = Some (session_back J s)"
proof -
  obtain j where j: "to_json J s = Inr j" "content r' = (content r)(session_key (s_id_hash s) \<mapsto> j)"
    by (rule set_content [OF set])
  then have "from_json J j = Inr (session_back J s)" using fin json_finite by blast
  then show ?thesis using j by (cases rule: get_cases [OF get]) auto
qed

lemma set_frame_get:
  assumes set: "session_set traced internal D J s ttl r = (res, r')" and "h \<noteq> s_id_hash s"
  shows "content r' (session_key h) = content r (session_key h)"
  using assms set_frame [where k = "session_key (s_id_hash s)" and k' = "session_key h"]
  by (auto simp: session_set_def split: sum.splits prod.splits)

lemma set_NaN_get:
  assumes set: "session_set traced internal D J s ttl r = (Inr (Inr u), r')" and "\<not> floats_finite s"
  shows "session_get traced' internal' D J (s_id_hash s) r' \<noteq> Inr (Inr v)"
proof
  assume get: "session_get traced' internal' D J (s_id_hash s) r' = Inr (Inr v)"
  obtain j where j: "to_json J s = Inr j" "content r' = (content r)(session_key (s_id_hash s) \<mapsto> j)"
    by (rule set_content [OF set])
  then obtain m where "from_json J j = Inl m" using assms(2) json_null by blast
  then show False using j by (cases rule: get_cases [OF get]) auto
qed

end

section \<open>An instance\<close>

text \<open>
  A server whose state is an association list, over the texts of \<open>null_json\<close>; \<open>stored_text s\<close> is
  what it holds of the session \<open>s\<close>.
\<close>

definition mem_redis :: "((string \<times> 'j) list, 'e, 'j) redis" where
  "mem_redis =
     \<lparr>rd_get = (\<lambda>k r. Inr (map_of r k)),
      rd_set_ex = (\<lambda>k j ttl r. (Inr (), AList.update k j r)),
      rd_del = (\<lambda>k r. (Inr (if map_of r k = None then 0 else 1), AList.delete k r)),
      rd_keys = (\<lambda>p r. Inr (remdups (filter (\<lambda>k. starts_with k (butlast p)) (map fst r))))\<rparr>"

definition stored_text :: "int session \<Rightarrow> json_value" where
  "stored_text s = map_floats null_float (session_value null_json s)"

lemma to_json_nulls [simp]: "to_json null_json s = Inr (stored_text s)"
  by (simp add: to_json_def stored_text_def null_json_def)

lemma nulls_back [simp]: "floats_finite s \<Longrightarrow> session_back null_json s = s"
  by (cases s) (auto simp: back_simps f32_back_def null_back null_float_def list_all_iff map_idI split: option.splits)

lemma from_json_nulls [simp]:
  "from_json null_json (stored_text s) = (if floats_finite s then Inr s else Inl ''invalid type'')"
proof -
  have "js_parse null_json (stored_text s) = Inr (map_floats (float_back null_json) (session_value null_json s))"
    by (simp add: stored_text_def null_back) (simp add: null_json_def)
  moreover have "js_error null_json v = ''invalid type''" for v by (simp add: null_json_def)
  ultimately show ?thesis by (simp add: from_json_def nulls.read_session_value)
qed

interpretation mem_server: redis_laws mem_redis map_of
proof
  show "distinct ks \<and> set ks = {k. map_of r k \<noteq> None \<and> starts_with k p}"
    if "rd_keys mem_redis (p @ ''*'') r = Inr ks" "plain_glob p" for p and r :: "(string \<times> 'j) list" and ks
  proof -
    have "{k. map_of r k \<noteq> None \<and> starts_with k p} = set (remdups (filter (\<lambda>k. starts_with k p) (map fst r)))"
      unfolding map_of_eq_None_iff not_not by (simp add: conj_commute)
    moreover have "ks = remdups (filter (\<lambda>k. starts_with k p) (map fst r))"
      using that by (simp add: mem_redis_def butlast_append)
    ultimately show ?thesis by (simp only: distinct_remdups)
  qed
qed (auto simp: mem_redis_def update_conv' delete_conv' split: if_splits)

interpretation mem: session_store mem_redis map_of null_json
  by unfold_locales

section \<open>Properties\<close>

text \<open>
  C25. What \<open>set\<close> stores, \<open>get\<close> returns, field by field: after a successful \<open>set\<close> of a session
  whose floats are finite, \<open>get\<close> of its hash, unless it fails, is that session with each float as JSON
  gives it back; of a session with a NaN or an infinite float \<open>get\<close> always fails. What is stored
  under every other hash is unchanged.
\<close>

theorem session_roundtrip:
  assumes "session_store D content J" "session_set traced internal D J s ttl r = (Inr (Inr u), r')"
  shows "(if floats_finite s
       then \<forall>v. session_get traced' internal' D J (s_id_hash s) r' = Inr (Inr v) \<longrightarrow>
              v = Some (s\<lparr>s_dynamic_mean_rpm := f32_back J (s_dynamic_mean_rpm s),
                s_current_hybrid_score := f32_back J (s_current_hybrid_score s),
                s_last_embedding := map_option (map (f32_back J)) (s_last_embedding s)\<rparr>)
       else \<nexists>v. session_get traced' internal' D J (s_id_hash s) r' = Inr (Inr v)) \<and>
    (\<forall>h. h = s_id_hash s \<or> content r' (session_key h) = content r (session_key h))"
  using session_store.set_get [OF assms] session_store.set_NaN_get [OF assms] session_store.set_frame_get [OF assms]
  unfolding session_back_def by (cases "floats_finite s") (simp, blast, simp, blast)

definition sample_session :: "int session" where
  "sample_session = (session_new 5 ''abc'')\<lparr>s_request_count := 7, s_timestamps := [3, 4]\<rparr>"

lemma sample_trace: "trace_prefix traced ''abc'' = Inr ()"
  by (rule trace_ascii) (simp add: byte_def)

lemma sample_facts: "floats_finite sample_session" "s_id_hash sample_session = ''abc''"
  by (simp_all add: sample_session_def session_new_def floats_finite_def)

lemma sample_set:
  obtains r' where "session_set True id mem_redis null_json sample_session 60 [] = (Inr (Inr ()), r')"
    "\<exists>v. session_get True id mem_redis null_json ''abc'' r' = Inr (Inr v)"
  by (simp add: session_set_def session_get_def sample_trace sample_facts mem_redis_def)

theorem session_roundtrip_witness:
  "\<exists>r'. session_set True id mem_redis null_json sample_session 60 [] = (Inr (Inr ()), r') \<and>
     session_get True id mem_redis null_json ''abc'' r' = Inr (Inr (Some sample_session))"
proof (rule sample_set)
  fix r'
  assume set: "session_set True id mem_redis null_json sample_session 60 [] = (Inr (Inr ()), r')"
    and got: "\<exists>v. session_get True id mem_redis null_json ''abc'' r' = Inr (Inr v)"
  from got obtain v where get: "session_get True id mem_redis null_json ''abc'' r' = Inr (Inr v)" by blast
  then have "v = Some (session_back null_json sample_session)"
    using session_roundtrip [OF mem.session_store_axioms set, where traced' = True and internal' = id] sample_facts
    unfolding session_back_def by simp
  then have "v = Some sample_session" using sample_facts by simp
  then show ?thesis using set get by blast
qed

text \<open>
  \<open>delete\<close> tells whether the session existed, and afterwards the listing is exactly the
  other sessions, each once: the prefix of the keys is stripped, and no other key leaks in.
\<close>

theorem delete_then_list:
  assumes "redis_laws D content" "session_delete D hash r = (Inr b, r')" "list_hashes D r' = Inr hs"
  shows "(b \<longleftrightarrow> content r (session_key hash) \<noteq> None) \<and> distinct hs \<and>
    set hs = {h. content r (session_key h) \<noteq> None} - {hash}"
  using redis_laws.delete_content [OF assms(1,2)] redis_laws.list_hashes_content [OF assms(1,3)] by auto

theorem delete_then_list_witness:
  "\<exists>r' hs. session_delete (mem_redis :: (_, string, nat) redis) ''a'' [(session_key ''a'', 1), (''other'', 2), (session_key ''b'', 3)] = (Inr True, r') \<and>
     list_hashes (mem_redis :: (_, string, nat) redis) r' = Inr hs \<and> set hs = {''b''}"
proof -
  let ?r = "[(session_key ''a'', 1), (''other'', 2), (session_key ''b'', 3 :: nat)]"
  let ?D = "mem_redis :: (_, string, nat) redis"
  obtain r' where d: "session_delete ?D ''a'' ?r = (Inr True, r')"
    by (simp add: session_delete_def mem_redis_def)
  obtain hs where l: "list_hashes ?D r' = Inr hs" by (simp add: list_hashes_def mem_redis_def)
  have "set hs = {h. map_of ?r (session_key h) \<noteq> None} - {''a''}"
    using delete_then_list [OF mem_server.redis_laws_axioms d l] by blast
  also have "\<dots> = {''b''}" by (auto simp: session_key_def split: if_splits)
  finally show ?thesis using d l by blast
qed

text \<open>
  Trimming keeps the most recent entries: each list becomes its own suffix of the maximal
  length, and no other field changes.
\<close>

theorem trim_keeps_the_recent:
  "length (s_timestamps (session_trim m h s)) = min m (length (s_timestamps s)) \<and>
   length (s_prompt_history (session_trim m h s)) = min h (length (s_prompt_history s)) \<and>
   (\<exists>old. s_timestamps s = old @ s_timestamps (session_trim m h s)) \<and>
   (\<exists>old. s_prompt_history s = old @ s_prompt_history (session_trim m h s)) \<and>
   (session_trim m h s)\<lparr>s_timestamps := s_timestamps s, s_prompt_history := s_prompt_history s\<rparr> = s"
  using keep_last_spec [of m "s_timestamps s"] keep_last_spec [of h "s_prompt_history s"]
  by (simp add: session_trim_def)

end
