(* ===== verification/Logs.thy ===== *)
theory Logs
  imports Floats Clock "HOL-Library.Multiset"
begin

text \<open>
  \<open>engine/src/store/logs.rs\<close>: the query log in PostgreSQL. The server is the record \<open>postgres\<close>
  over a type \<open>'t\<close> of table states: it executes the \<open>INSERT\<close> of named columns and answers a \<open>SELECT\<close>.
  What the SQL texts of the source say is modelled here: the columns, the order the values are bound
  in, the ordering and the limit of the query, and the fields the columns are read into. The locale
  \<open>postgres_laws\<close> is what the server promises of every such statement.
\<close>

section \<open>Rows\<close>

record 'd query_log =
  ql_id :: string
  ql_session_id_hash :: string
  ql_timestamp :: 'd
  ql_prompt_hash :: string
  ql_tier :: "32 word"
  ql_hybrid_score :: fp
  ql_v_score :: fp
  ql_d_score :: fp
  ql_e_score :: fp
  ql_a_score :: fp
  ql_intent_flagged :: bool
  ql_intent_label :: "string option"
  ql_noise_applied :: bool
  ql_noise_steps :: "string option"
  ql_request_id :: string

datatype 'd sql_value =
    Uuid string
  | Varchar string
  | Timestamptz 'd
  | Int4 "32 word"
  | Real4 fp
  | Boolean bool
  | Jsonb string
  | Null

type_synonym 'd row = "string \<rightharpoonup> 'd sql_value"

definition nullable :: "('a \<Rightarrow> 'd sql_value) \<Rightarrow> 'a option \<Rightarrow> 'd sql_value" where
  "nullable f v = (case v of None \<Rightarrow> Null | Some x \<Rightarrow> f x)"

definition insert_columns :: "string list" where
  "insert_columns =
     [''id'', ''session_id_hash'', ''timestamp'', ''prompt_hash'',
      ''tier'', ''hybrid_score'', ''v_score'', ''d_score'', ''e_score'', ''a_score'',
      ''intent_flagged'', ''intent_label'', ''noise_applied'', ''noise_steps'', ''request_id'']"

definition insert_values :: "'d query_log \<Rightarrow> 'd sql_value list" where
  "insert_values l =
     [Uuid (ql_id l), Varchar (ql_session_id_hash l), Timestamptz (ql_timestamp l),
      Varchar (ql_prompt_hash l), Int4 (ql_tier l), Real4 (ql_hybrid_score l),
      Real4 (ql_v_score l), Real4 (ql_d_score l), Real4 (ql_e_score l), Real4 (ql_a_score l),
      Boolean (ql_intent_flagged l), nullable Varchar (ql_intent_label l),
      Boolean (ql_noise_applied l), nullable Jsonb (ql_noise_steps l), Varchar (ql_request_id l)]"

definition log_row :: "'d query_log \<Rightarrow> 'd row" where
  "log_row l = map_of (zip insert_columns (insert_values l))"

text \<open>\<open>query_as!\<close> decodes a row by column name; a missing column or another type is an error.\<close>

definition read_row :: "'d row \<Rightarrow> 'd query_log option" where
  "read_row r =
     (case (r ''id'', r ''session_id_hash'', r ''timestamp'', r ''prompt_hash'', r ''tier'') of
        (Some (Uuid i), Some (Varchar h), Some (Timestamptz t), Some (Varchar p), Some (Int4 n)) \<Rightarrow>
          (case (r ''hybrid_score'', r ''v_score'', r ''d_score'', r ''e_score'', r ''a_score'') of
             (Some (Real4 hy), Some (Real4 v), Some (Real4 d), Some (Real4 e), Some (Real4 a)) \<Rightarrow>
               (case (r ''intent_flagged'', r ''noise_applied'', r ''request_id'') of
                  (Some (Boolean f), Some (Boolean na), Some (Varchar q)) \<Rightarrow>
                    Option.bind (case r ''intent_label'' of Some (Varchar x) \<Rightarrow> Some (Some x) | Some Null \<Rightarrow> Some None | _ \<Rightarrow> None) (\<lambda>lab.
                    Option.bind (case r ''noise_steps'' of Some (Jsonb j) \<Rightarrow> Some (Some j) | Some Null \<Rightarrow> Some None | _ \<Rightarrow> None) (\<lambda>st.
                      Some \<lparr>ql_id = i, ql_session_id_hash = h, ql_timestamp = t, ql_prompt_hash = p, ql_tier = n,
                        ql_hybrid_score = hy, ql_v_score = v, ql_d_score = d, ql_e_score = e, ql_a_score = a,
                        ql_intent_flagged = f, ql_intent_label = lab, ql_noise_applied = na,
                        ql_noise_steps = st, ql_request_id = q\<rparr>))
                | _ \<Rightarrow> None)
           | _ \<Rightarrow> None)
      | _ \<Rightarrow> None)"

section \<open>The operations\<close>

text \<open>\<open>SELECT columns FROM query_logs ORDER BY column direction LIMIT n\<close>.\<close>

datatype direction = Asc | Desc

record select_query =
  sel_columns :: "string list"
  sel_order :: "string \<times> direction"
  sel_limit :: "64 word"

definition recent_query :: "64 word \<Rightarrow> select_query" where
  "recent_query limit =
     \<lparr>sel_columns =
        [''id'', ''session_id_hash'', ''timestamp'', ''prompt_hash'',
         ''tier'', ''hybrid_score'', ''v_score'', ''d_score'', ''e_score'', ''a_score'',
         ''intent_flagged'', ''intent_label'', ''noise_applied'', ''noise_steps'', ''request_id''],
      sel_order = (''timestamp'', Desc), sel_limit = limit\<rparr>"

record ('d, 'e, 't) postgres =
  pg_insert :: "string list \<Rightarrow> 'd sql_value list \<Rightarrow> 't \<Rightarrow> ('e + unit) \<times> 't"
  pg_select :: "select_query \<Rightarrow> 't \<Rightarrow> 'e + 'd row list"
  pg_decode_error :: 'e

definition logs_insert :: "('d, 'e, 't) postgres \<Rightarrow> 'd query_log \<Rightarrow> 't \<Rightarrow> ('e + unit) \<times> 't" where
  "logs_insert Q l t = pg_insert Q insert_columns (insert_values l) t"

definition list_recent :: "('d, 'e, 't) postgres \<Rightarrow> 64 word \<Rightarrow> 't \<Rightarrow> 'e + 'd query_log list" where
  "list_recent Q limit t =
     (case pg_select Q (recent_query limit) t of
        Inl e \<Rightarrow> Inl e
      | Inr rows \<Rightarrow> (case those (map read_row rows) of
                       None \<Rightarrow> Inl (pg_decode_error Q)
                     | Some logs \<Rightarrow> Inr logs))"

section \<open>The contract\<close>

text \<open>
  What SQL says of a \<open>SELECT\<close>: the rows of the table in an order that respects \<open>ORDER BY\<close> (rows that
  compare equal in any order), the first \<open>LIMIT\<close> of them, and of each the named columns. Only
  the comparison of timestamps is specified; a negative limit is an error.
\<close>

definition cell_le :: "'d chrono \<Rightarrow> 'd sql_value option \<Rightarrow> 'd sql_value option \<Rightarrow> bool" where
  "cell_le C x y = (case (x, y) of (Some (Timestamptz s), Some (Timestamptz t)) \<Rightarrow> dt_le C s t | _ \<Rightarrow> True)"

definition in_order :: "'d chrono \<Rightarrow> string \<times> direction \<Rightarrow> 'd row \<Rightarrow> 'd row \<Rightarrow> bool" where
  "in_order C ord a b =
     (case ord of (column, Asc) \<Rightarrow> cell_le C (a column) (b column) | (column, Desc) \<Rightarrow> cell_le C (b column) (a column))"

definition answers :: "'d chrono \<Rightarrow> select_query \<Rightarrow> 'd row multiset \<Rightarrow> 'd row list \<Rightarrow> bool" where
  "answers C q tab rs \<longleftrightarrow> 0 \<le> sint (sel_limit q) \<and>
     (\<exists>rows. mset rows = tab \<and> sorted_wrt (in_order C (sel_order q)) rows \<and>
        rs = map (\<lambda>row. row |` set (sel_columns q)) (take (nat (sint (sel_limit q))) rows))"

locale postgres_laws =
  fixes C :: "'d chrono" and Q :: "('d, 'e, 't) postgres" and table :: "'t \<Rightarrow> 'd row multiset"
  assumes insert_ok: "pg_insert Q cs vs t = (Inr u, t') \<Longrightarrow> table t' = add_mset (map_of (zip cs vs)) (table t)"
    and insert_err: "pg_insert Q cs vs t = (Inl e, t') \<Longrightarrow> table t' \<in> {table t, add_mset (map_of (zip cs vs)) (table t)}"
    and select_ok: "pg_select Q q t = Inr rs \<Longrightarrow> answers C q (table t) rs"

lemma read_log_row: "read_row (log_row l) = Some l"
  by (simp add: read_row_def log_row_def insert_columns_def insert_values_def nullable_def split: option.splits)

lemma those_inverse: "(\<And>x. x \<in> set xs \<Longrightarrow> g (f x) = Some x) \<Longrightarrow> those (map (g \<circ> f) xs) = Some xs"
  by (induction xs) auto

text \<open>The query names every column of a log, so selecting them keeps the row.\<close>

lemma selected_log_row: "log_row l |` set (sel_columns (recent_query n)) = log_row l"
  by (rule ext) (simp add: restrict_map_def recent_query_def log_row_def insert_columns_def insert_values_def)

lemma recent_sel_limit: "sel_limit (recent_query n) = n"
  by (simp add: recent_query_def)

lemma in_order_logs:
  "in_order C (sel_order (recent_query n)) (log_row a) (log_row b) \<longleftrightarrow> dt_le C (ql_timestamp b) (ql_timestamp a)"
  by (simp add: in_order_def cell_le_def recent_query_def log_row_def insert_columns_def insert_values_def)

lemma rows_are_logs:
  assumes "mset rows = image_mset log_row logs"
  obtains ls where "rows = map log_row ls" "mset ls = logs"
proof -
  have "\<forall>row \<in> set rows. \<exists>l. row = log_row l"
  proof
    fix row assume "row \<in> set rows"
    then have "row \<in># image_mset log_row logs" unfolding assms [symmetric] by simp
    then show "\<exists>l. row = log_row l" by auto
  qed
  then obtain ls where ls: "rows = map log_row ls" unfolding ex_map_conv [symmetric] by blast
  have un: "image_mset (the \<circ> read_row) (image_mset log_row x) = x" for x :: "'a query_log multiset"
    by (simp add: multiset.map_comp o_def read_log_row)
  have "image_mset log_row (mset ls) = image_mset log_row logs" using assms ls by simp
  then have "mset ls = logs" by (metis un)
  with ls that show thesis by blast
qed

context postgres_laws
begin

lemma insert_cases:
  assumes "logs_insert Q l t = (res, t')"
  obtains "table t' = table t" | "table t' = add_mset (log_row l) (table t)"
proof (cases res)
  case (Inl e)
  then show ?thesis using that insert_err [of _ _ t e t'] assms by (auto simp: logs_insert_def log_row_def)
next
  case (Inr u)
  then show ?thesis using that(2) insert_ok [of _ _ t u t'] assms by (auto simp: logs_insert_def log_row_def)
qed

text \<open>
  On a table that only holds inserted logs, the listing decodes to the first \<open>n\<close> of all the logs,
  newest first.
\<close>

lemma select_recent_logs:
  assumes "table t = image_mset log_row logs" "pg_select Q (recent_query n) t = Inr rs"
  obtains all where "mset all = logs" "sorted_wrt (\<lambda>a b. dt_le C (ql_timestamp b) (ql_timestamp a)) all"
    "list_recent Q n t = Inr (take (nat (sint n)) all)" "0 \<le> sint n"
proof -
  obtain rows where rows: "mset rows = table t" "sorted_wrt (in_order C (sel_order (recent_query n))) rows"
    "rs = map (\<lambda>row. row |` set (sel_columns (recent_query n))) (take (nat (sint (sel_limit (recent_query n)))) rows)"
    "0 \<le> sint (sel_limit (recent_query n))"
    using select_ok [OF assms(2)] unfolding answers_def by blast
  obtain all where all: "rows = map log_row all" "mset all = logs"
    using rows_are_logs [of rows logs] rows(1) assms(1) by metis
  have n: "sel_limit (recent_query n) = n" by (simp add: recent_query_def)
  have rs: "rs = map log_row (take (nat (sint n)) all)"
    unfolding rows(3) all(1) n by (simp add: take_map selected_log_row)
  have "list_recent Q n t = Inr (take (nat (sint n)) all)"
    using assms(2) by (simp add: list_recent_def rs those_inverse read_log_row)
  moreover have "sorted_wrt (\<lambda>a b. dt_le C (ql_timestamp b) (ql_timestamp a)) all"
    using rows(2) unfolding all(1) by (simp add: sorted_wrt_map in_order_logs)
  ultimately show thesis using that all(2) rows(4) n by metis
qed

lemma list_recent_logs:
  assumes "table t = image_mset log_row logs" "list_recent Q n t = Inr ls"
  shows "sorted_wrt (\<lambda>a b. dt_le C (ql_timestamp b) (ql_timestamp a)) ls"
    and "mset ls \<subseteq># logs" and "length ls = min (nat (sint n)) (size logs)"
    and "\<forall>a \<in> set ls. \<forall>b \<in># logs - mset ls. dt_le C (ql_timestamp b) (ql_timestamp a)"
proof -
  obtain rs where rs: "pg_select Q (recent_query n) t = Inr rs"
    using assms(2) by (auto simp: list_recent_def split: sum.splits)
  obtain all where all: "mset all = logs" "sorted_wrt (\<lambda>a b. dt_le C (ql_timestamp b) (ql_timestamp a)) all"
    "list_recent Q n t = Inr (take (nat (sint n)) all)"
    by (rule select_recent_logs [OF assms(1) rs])
  let ?rest = "drop (nat (sint n)) all"
  have split: "all = ls @ ?rest" using all(3) assms(2) by simp
  then have sorted: "sorted_wrt (\<lambda>a b. dt_le C (ql_timestamp b) (ql_timestamp a)) (ls @ ?rest)" using all(2) by simp
  then show "sorted_wrt (\<lambda>a b. dt_le C (ql_timestamp b) (ql_timestamp a)) ls" by (simp add: sorted_wrt_append)
  have logs: "logs = mset ls + mset ?rest" unfolding all(1) [symmetric] by (subst split) simp
  then show "mset ls \<subseteq># logs" by simp
  show "length ls = min (nat (sint n)) (size logs)" using all(1,3) assms(2) by (auto simp: size_mset min.commute)
  show "\<forall>a \<in> set ls. \<forall>b \<in># logs - mset ls. dt_le C (ql_timestamp b) (ql_timestamp a)"
    using sorted by (simp add: logs sorted_wrt_append)
qed

end

section \<open>An instance\<close>

text \<open>
  A table as a list of rows, over the nanosecond instants of \<open>chrono_ns\<close>: a stable sort by the
  column, read as a number, and the first rows of it.
\<close>

definition cell_key :: "int sql_value option \<Rightarrow> int" where
  "cell_key x = (case x of Some (Timestamptz t) \<Rightarrow> t | _ \<Rightarrow> 0)"

definition order_key :: "string \<times> direction \<Rightarrow> int row \<Rightarrow> int" where
  "order_key ord row = (case ord of (column, Asc) \<Rightarrow> cell_key (row column) | (column, Desc) \<Rightarrow> - cell_key (row column))"

definition mem_postgres :: "(int, string, int row list) postgres" where
  "mem_postgres =
     \<lparr>pg_insert = (\<lambda>cs vs t. (Inr (), map_of (zip cs vs) # t)),
      pg_select = (\<lambda>q t.
        if sint (sel_limit q) < 0 then Inl ''LIMIT must not be negative''
        else Inr (map (\<lambda>row. row |` set (sel_columns q))
               (take (nat (sint (sel_limit q))) (sort_key (order_key (sel_order q)) t)))),
      pg_decode_error = ''decode''\<rparr>"

lemma order_key_le: "order_key ord a \<le> order_key ord b \<Longrightarrow> in_order chrono_ns ord a b"
  by (auto simp: order_key_def in_order_def cell_le_def cell_key_def chrono_ns_def
      split: prod.splits direction.splits option.splits sql_value.splits)

interpretation mem_pg: postgres_laws chrono_ns mem_postgres mset
proof
  fix q :: select_query and t rs :: "int row list"
  let ?s = "sort_key (order_key (sel_order q)) t"
  assume a: "pg_select mem_postgres q t = Inr rs"
  then have rs: "rs = map (\<lambda>row. row |` set (sel_columns q)) (take (nat (sint (sel_limit q))) ?s)"
    and n: "0 \<le> sint (sel_limit q)"
    by (auto simp: mem_postgres_def split: if_splits)
  have "sorted_wrt (in_order chrono_ns (sel_order q)) ?s"
    using sorted_sort_key [of "order_key (sel_order q)" t] unfolding sorted_map
    by (rule sorted_wrt_mono_rel [rotated]) (rule order_key_le)
  then show "answers chrono_ns q (mset t) rs"
    unfolding answers_def rs using n by (intro conjI exI [of _ ?s]) simp_all
qed (auto simp: mem_postgres_def)

section \<open>Properties\<close>

text \<open>
  The columns of the \<open>INSERT\<close>, the order its values are bound in and the fields of the
  \<open>SELECT\<close> agree: a logged row reads back as the log it was written from.
\<close>

theorem log_roundtrip: "read_row (log_row l) = Some l"
  by (rule read_log_row)

end
