(* ===== verification/Service.thy ===== *)
theory Service
  imports Session Logs
begin

text \<open>
  The inference pipeline of \<open>engine/src/grpc/service.rs\<close>.
  What the handlers call and the repository does not contain (the scoring context, the tier
  classification of three scores, the models, the LLM client, the three defence functions,
  the error type and the missing configuration fields) is the record \<open>engine\<close>; what a single
  request reads from outside (instants, pool connections, model answers) is the record
  \<open>request_env\<close>. A handler returns its answer and the tasks it spawned, in order: they run
  later, in any order (\<open>System\<close>).
\<close>

section \<open>Answers that may fail\<close>

fun bind_io :: "('e, 'a) io \<Rightarrow> ('a \<Rightarrow> ('e, 'b) io) \<Rightarrow> ('e, 'b) io" where
  "bind_io (Inl p) f = Inl p"
| "bind_io (Inr (Inl e)) f = Inr (Inl e)"
| "bind_io (Inr (Inr x)) f = f x"

lemma bind_io_ok [simp]: "bind_io m f = Inr (Inr y) \<longleftrightarrow> (\<exists>x. m = Inr (Inr x) \<and> f x = Inr (Inr y))"
  by (induction m f rule: bind_io.induct) auto

section \<open>Data\<close>

datatype tier = Clean | Suspicious | Malicious

text \<open>The tiers in order of severity.\<close>

instantiation tier :: linorder
begin

definition less_eq_tier :: "tier \<Rightarrow> tier \<Rightarrow> bool" where
  "less_eq_tier a b \<longleftrightarrow> a = Clean \<or> b = Malicious \<or> a = b"

definition less_tier :: "tier \<Rightarrow> tier \<Rightarrow> bool" where
  "less_tier a b \<longleftrightarrow> a \<le> b \<and> a \<noteq> b" for a b :: tier

instance
proof
  fix a b c :: tier
  show "(a < b) = (a \<le> b \<and> \<not> b \<le> a)" by (cases a; cases b) (auto simp: less_tier_def less_eq_tier_def)
  show "a \<le> b \<or> b \<le> a" by (cases a; cases b) (auto simp: less_eq_tier_def)
  show "a \<le> b \<Longrightarrow> b \<le> a \<Longrightarrow> a = b" by (auto simp: less_eq_tier_def)
qed (auto simp: less_eq_tier_def)

end

record infer_scores =
  is_hybrid :: fp
  is_v_score :: fp
  is_d_score :: fp
  is_e_score :: fp
  is_a_score :: fp
  is_intent_flagged :: bool
  is_intent_label :: "string option"

record 'd scoring_ctx =
  cx_prompt :: string
  cx_prompt_embedding :: "fp list"
  cx_prev_embedding :: "fp list option"
  cx_timestamps :: "'d list"
  cx_prompt_history :: "string list"
  cx_duration_mins :: fp

record infer_request =
  rq_session_id_hash :: string
  rq_prompt :: string
  rq_client_ip_hash :: string
  rq_request_id :: string
  rq_gateway_version :: string

record infer_response =
  rs_response :: string
  rs_tier :: i32
  rs_hybrid_score :: fp
  rs_duration_mins :: fp
  rs_request_id :: string
  rs_v_score :: fp
  rs_d_score :: fp
  rs_e_score :: fp
  rs_a_score :: fp
  rs_intent_flagged :: bool
  rs_intent_label :: string

datatype 'd task =
    SubmitRekor string fp fp string
  | PersistSession "'d session" u64
  | InsertLog "'d query_log"

type_synonym usize = "64 word"

text \<open>
  What has code in the repository that can panic (the scores, the rate, the defence), or has no code
  there (the models), may panic here; \<open>classify\<close>, \<open>derive_seed\<close> and \<open>hash_prompt\<close>, a comparison,
  an HMAC and a hash, return.
\<close>

record ('d, 'e) engine =
  compute_scores :: "'d scoring_ctx \<Rightarrow> infer_scores run"
  classify :: "infer_scores \<Rightarrow> fp \<Rightarrow> tier"
  tier_i32 :: "tier \<Rightarrow> i32"
  calculate_rpm :: "'d list \<Rightarrow> fp run"
  derive_seed :: "string \<Rightarrow> 'd \<Rightarrow> string"
  apply_defence :: "string \<Rightarrow> tier \<Rightarrow> string \<Rightarrow> ('e, string) io"
  hash_prompt :: "string \<Rightarrow> string"
  internal_error :: "string \<Rightarrow> 'e"
  session_banned :: "string \<Rightarrow> 'e"
  cfg_max_timestamps :: usize
  cfg_entropy_window :: usize
  cfg_tracking_threshold :: fp
  cfg_session_ttl_secs :: u64
  cfg_traced :: bool

record ('d, 'e) request_env =
  at_start :: 'd
  at_new_session :: 'd
  at_context :: 'd
  at_duration :: 'd
  pool_first :: "string + unit"
  pool_second :: "string + unit"
  embed :: "string \<Rightarrow> ('e, fp list) io"
  classify_intent :: "string \<Rightarrow> ('e, bool \<times> string option) io"
  complete :: "string \<Rightarrow> ('e, string) io"
  log_uuid :: string

section \<open>The inference pipeline\<close>

text \<open>Step 1: load or create the session; a banned one is refused.\<close>

definition load_session ::
    "('d, 'e) engine \<Rightarrow> ('r, 'e, 'j) redis \<Rightarrow> ('d, 'j) json \<Rightarrow> ('d, 'e) request_env \<Rightarrow> string \<Rightarrow> 'r \<Rightarrow> ('e, 'd session) io" where
  "load_session E D J V hash r =
     (case pool_first V of
        Inl m \<Rightarrow> Inr (Inl (internal_error E m))
      | Inr _ \<Rightarrow>
          bind_io (session_get (cfg_traced E) (internal_error E) D J hash r) (\<lambda>found.
            let s = (case found of Some s \<Rightarrow> s | None \<Rightarrow> session_new (at_new_session V) hash)
            in if s_is_banned s then Inr (Inl (session_banned E hash)) else Inr (Inr s)))"

text \<open>Step 2: the request joins the session's history.\<close>

definition record_request :: "('d, 'e) engine \<Rightarrow> 'd \<Rightarrow> string \<Rightarrow> 'd session \<Rightarrow> 'd session" where
  "record_request E now prompt s =
     session_trim (unat (cfg_max_timestamps E)) (unat (cfg_entropy_window E * 2))
       (s\<lparr>s_timestamps := s_timestamps s @ [now], s_prompt_history := s_prompt_history s @ [prompt],
         s_request_count := s_request_count s + 1, s_last_active_at := now\<rparr>)"

text \<open>Step 6: tracking starts when the threshold is crossed; the log line slices the hash.\<close>

definition start_tracking :: "('d, 'e) engine \<Rightarrow> 'd \<Rightarrow> string \<Rightarrow> infer_scores \<Rightarrow> 'd session \<Rightarrow> 'd session run" where
  "start_tracking E now hash sc s =
     (if flt (cfg_tracking_threshold E) (is_hybrid sc) \<and> s_tracking_started_at s = None
      then map_run (\<lambda>_. s\<lparr>s_tracking_started_at := Some now\<rparr>)
             (if cfg_traced E then slice_to hash 8 else Inr hash)
      else Inr s)"

text \<open>Steps 3 to 7: embedding, intent, scores, tracking, tier.\<close>

definition assess ::
    "('d, 'e) engine \<Rightarrow> 'd chrono \<Rightarrow> ('d, 'e) request_env \<Rightarrow> infer_request \<Rightarrow> 'd session \<Rightarrow>
     ('e, 'd session \<times> infer_scores \<times> fp \<times> tier) io" where
  "assess E C V req s =
     bind_io (embed V (rq_prompt req)) (\<lambda>embedding.
     bind_io (classify_intent V (rq_prompt req)) (\<lambda>(flagged, label).
       let ctx = \<lparr>cx_prompt = rq_prompt req, cx_prompt_embedding = embedding,
                  cx_prev_embedding = s_last_embedding s, cx_timestamps = s_timestamps s,
                  cx_prompt_history = s_prompt_history s,
                  cx_duration_mins = tracking_duration_mins C (at_context V) s\<rparr>
       in bind_run (compute_scores E ctx) (\<lambda>scores.
            let sc = scores\<lparr>is_intent_flagged := flagged, is_intent_label := label\<rparr>
            in bind_run (start_tracking E (at_start V) (rq_session_id_hash req) sc s) (\<lambda>s'.
                 let duration = tracking_duration_mins C (at_duration V) s';
                     t = classify E sc duration
                 in bind_run (calculate_rpm E (s_timestamps s')) (\<lambda>rpm.
                      Inr (Inr (s'\<lparr>s_tier := tier_i32 E t, s_current_hybrid_score := is_hybrid sc,
                                  s_dynamic_mean_rpm := rpm, s_last_embedding := Some embedding\<rparr>,
                                sc, duration, t)))))))"

text \<open>Step 9: Tier 1 is served clean; otherwise the session's seed, derived once, drives the defence.\<close>

definition defend ::
    "('d, 'e) engine \<Rightarrow> 'd \<Rightarrow> string \<Rightarrow> tier \<Rightarrow> string \<Rightarrow> 'd session \<Rightarrow> ('e, string \<times> bool \<times> 'd session) io" where
  "defend E now hash t clean s =
     (case t of
        Clean \<Rightarrow> Inr (Inr (clean, False, s))
      | _ \<Rightarrow>
          let seed = (case s_noise_seed s of
                        Some x \<Rightarrow> x
                      | None \<Rightarrow> derive_seed E hash (case s_tracking_started_at s of Some started \<Rightarrow> started | None \<Rightarrow> now))
          in bind_io (apply_defence E clean t seed)
               (\<lambda>perturbed. Inr (Inr (perturbed, True, s\<lparr>s_noise_seed := Some seed\<rparr>))))"

text \<open>Everything up to the first spawned task.\<close>

definition infer_core ::
    "('d, 'e) engine \<Rightarrow> 'd chrono \<Rightarrow> ('r, 'e, 'j) redis \<Rightarrow> ('d, 'j) json \<Rightarrow> ('d, 'e) request_env \<Rightarrow> infer_request \<Rightarrow> 'r \<Rightarrow>
     ('e, 'd session \<times> infer_scores \<times> fp \<times> tier \<times> string \<times> bool) io" where
  "infer_core E C D J V req r =
     bind_io (load_session E D J V (rq_session_id_hash req) r) (\<lambda>s.
     bind_io (assess E C V req (record_request E (at_start V) (rq_prompt req) s)) (\<lambda>(s', sc, duration, t).
     bind_io (complete V (rq_prompt req)) (\<lambda>clean.
     bind_io (defend E (at_start V) (rq_session_id_hash req) t clean s') (\<lambda>(served, noise, s'').
       Inr (Inr (s'', sc, duration, t, served, noise))))))"

definition make_log ::
    "('d, 'e) engine \<Rightarrow> ('d, 'e) request_env \<Rightarrow> infer_request \<Rightarrow> infer_scores \<Rightarrow> tier \<Rightarrow> bool \<Rightarrow> 'd query_log" where
  "make_log E V req sc t noise =
     \<lparr>ql_id = log_uuid V, ql_session_id_hash = rq_session_id_hash req, ql_timestamp = at_start V,
      ql_prompt_hash = hash_prompt E (rq_prompt req), ql_tier = tier_i32 E t,
      ql_hybrid_score = is_hybrid sc, ql_v_score = is_v_score sc, ql_d_score = is_d_score sc,
      ql_e_score = is_e_score sc, ql_a_score = is_a_score sc,
      ql_intent_flagged = is_intent_flagged sc, ql_intent_label = is_intent_label sc,
      ql_noise_applied = noise, ql_noise_steps = None, ql_request_id = rq_request_id req\<rparr>"

definition make_response ::
    "('d, 'e) engine \<Rightarrow> infer_request \<Rightarrow> infer_scores \<Rightarrow> fp \<Rightarrow> tier \<Rightarrow> string \<Rightarrow> infer_response" where
  "make_response E req sc duration t served =
     \<lparr>rs_response = served, rs_tier = tier_i32 E t, rs_hybrid_score = is_hybrid sc,
      rs_duration_mins = duration, rs_request_id = rq_request_id req,
      rs_v_score = is_v_score sc, rs_d_score = is_d_score sc, rs_e_score = is_e_score sc,
      rs_a_score = is_a_score sc, rs_intent_flagged = is_intent_flagged sc,
      rs_intent_label = (case is_intent_label sc of Some l \<Rightarrow> l | None \<Rightarrow> [])\<rparr>"

definition handle_infer ::
    "('d, 'e) engine \<Rightarrow> 'd chrono \<Rightarrow> ('r, 'e, 'j) redis \<Rightarrow> ('d, 'j) json \<Rightarrow> ('d, 'e) request_env \<Rightarrow> infer_request \<Rightarrow> 'r \<Rightarrow>
     ('e, infer_response) io \<times> 'd task list" where
  "handle_infer E C D J V req r =
     (case infer_core E C D J V req r of
        Inl p \<Rightarrow> (Inl p, [])
      | Inr (Inl e) \<Rightarrow> (Inr (Inl e), [])
      | Inr (Inr (s, sc, duration, t, served, noise)) \<Rightarrow>
          let rekor = (if t = Malicious
                       then [SubmitRekor (rq_session_id_hash req) (is_hybrid sc) duration
                               (case s_noise_seed s of Some x \<Rightarrow> x | None \<Rightarrow> [])]
                       else [])
          in case pool_second V of
               Inl m \<Rightarrow> (Inr (Inl (internal_error E m)), rekor)
             | Inr _ \<Rightarrow>
                 (Inr (Inr (make_response E req sc duration t served)),
                  rekor @ [PersistSession s (cfg_session_ttl_secs E), InsertLog (make_log E V req sc t noise)]))"

section \<open>What a handled request did\<close>

text \<open>How the session a request persists relates to the one it loaded.\<close>

definition evolved :: "('d, 'e) engine \<Rightarrow> ('d, 'e) request_env \<Rightarrow> infer_request \<Rightarrow> tier \<Rightarrow> 'd session \<Rightarrow> 'd session \<Rightarrow> bool" where
  "evolved E V req t s s' \<longleftrightarrow>
     s_id_hash s' = s_id_hash s \<and> s_first_seen_at s' = s_first_seen_at s \<and>
     s_last_active_at s' = at_start V \<and> s_request_count s' = s_request_count s + 1 \<and>
     s_timestamps s' = keep_last (unat (cfg_max_timestamps E)) (s_timestamps s @ [at_start V]) \<and>
     s_prompt_history s' = keep_last (unat (cfg_entropy_window E * 2)) (s_prompt_history s @ [rq_prompt req]) \<and>
     s_is_banned s' = s_is_banned s \<and> s_tier s' = tier_i32 E t \<and>
     s_tracking_started_at s' \<in> {s_tracking_started_at s, Some (at_start V)} \<and>
     (s_tracking_started_at s \<noteq> None \<longrightarrow> s_tracking_started_at s' = s_tracking_started_at s) \<and>
     (s_noise_seed s \<noteq> None \<longrightarrow> s_noise_seed s' = s_noise_seed s) \<and>
     (t \<noteq> Clean \<longrightarrow> s_noise_seed s' \<noteq> None)"

lemma load_session_ok:
  assumes "load_session E D J V hash r = Inr (Inr s)"
  shows "\<not> s_is_banned s"
    and "\<exists>found. session_get (cfg_traced E) (internal_error E) D J hash r = Inr (Inr found) \<and>
          s = (case found of Some s \<Rightarrow> s | None \<Rightarrow> session_new (at_new_session V) hash)"
  using assms by (auto simp: load_session_def Let_def split: sum.splits option.splits if_splits)

lemma start_tracking_ok:
  "start_tracking E now hash sc s = Inr s' \<Longrightarrow>
   s' = s \<or> s_tracking_started_at s = None \<and> s' = s\<lparr>s_tracking_started_at := Some now\<rparr>"
  by (auto simp: start_tracking_def split: if_splits)

lemma assess_ok:
  assumes "assess E C V req s = Inr (Inr (s', sc, duration, t))"
  obtains s0 emb rpm where "s0 = s \<or> s_tracking_started_at s = None \<and> s0 = s\<lparr>s_tracking_started_at := Some (at_start V)\<rparr>"
    "s' = s0\<lparr>s_tier := tier_i32 E t, s_current_hybrid_score := is_hybrid sc,
             s_dynamic_mean_rpm := rpm, s_last_embedding := Some emb\<rparr>"
    "t = classify E sc duration" "duration = tracking_duration_mins C (at_duration V) s'"
proof -
  have "\<exists>emb s0 rpm. start_tracking E (at_start V) (rq_session_id_hash req) sc s = Inr s0 \<and>
      s' = s0\<lparr>s_tier := tier_i32 E t, s_current_hybrid_score := is_hybrid sc,
             s_dynamic_mean_rpm := rpm, s_last_embedding := Some emb\<rparr> \<and>
      t = classify E sc duration \<and> duration = tracking_duration_mins C (at_duration V) s'"
    using assms by (auto simp: assess_def Let_def tracking_duration_mins_def) (intro exI, rule refl)
  then obtain emb s0 rpm where x: "start_tracking E (at_start V) (rq_session_id_hash req) sc s = Inr s0"
    "s' = s0\<lparr>s_tier := tier_i32 E t, s_current_hybrid_score := is_hybrid sc,
             s_dynamic_mean_rpm := rpm, s_last_embedding := Some emb\<rparr>"
    "t = classify E sc duration" "duration = tracking_duration_mins C (at_duration V) s'" by blast
  show ?thesis by (rule that [OF start_tracking_ok [OF x(1)] x(2,3,4)])
qed

lemma defend_ok:
  assumes "defend E now hash t clean s = Inr (Inr (served, noise, s'))"
  shows "if t = Clean then served = clean \<and> \<not> noise \<and> s' = s
    else noise \<and> (\<exists>seed. apply_defence E clean t seed = Inr (Inr served) \<and> s' = s\<lparr>s_noise_seed := Some seed\<rparr> \<and>
      seed = (case s_noise_seed s of Some x \<Rightarrow> x
        | None \<Rightarrow> derive_seed E hash (case s_tracking_started_at s of Some started \<Rightarrow> started | None \<Rightarrow> now)))"
  using assms by (cases t) (auto simp: defend_def Let_def)

lemma infer_core_ok:
  assumes "infer_core E C D J V req r = Inr (Inr (s'', sc, duration, t, served, noise))"
  obtains s s' clean where "load_session E D J V (rq_session_id_hash req) r = Inr (Inr s)"
    "assess E C V req (record_request E (at_start V) (rq_prompt req) s) = Inr (Inr (s', sc, duration, t))"
    "complete V (rq_prompt req) = Inr (Inr clean)"
    "defend E (at_start V) (rq_session_id_hash req) t clean s' = Inr (Inr (served, noise, s''))"
  using assms by (auto simp: infer_core_def split_def)

lemma infer_core_evolved:
  assumes "infer_core E C D J V req r = Inr (Inr (s'', sc, duration, t, served, noise))"
  obtains s where "load_session E D J V (rq_session_id_hash req) r = Inr (Inr s)" "evolved E V req t s s''"
    "s_current_hybrid_score s'' = is_hybrid sc"
proof (rule infer_core_ok [OF assms])
  fix s s' clean
  assume a: "load_session E D J V (rq_session_id_hash req) r = Inr (Inr s)"
    "assess E C V req (record_request E (at_start V) (rq_prompt req) s) = Inr (Inr (s', sc, duration, t))"
    "defend E (at_start V) (rq_session_id_hash req) t clean s' = Inr (Inr (served, noise, s''))"
  show thesis
  proof (rule assess_ok [OF a(2)])
    fix s0 emb rpm
    assume b: "s0 = record_request E (at_start V) (rq_prompt req) s \<or>
        s_tracking_started_at (record_request E (at_start V) (rq_prompt req) s) = None \<and>
        s0 = record_request E (at_start V) (rq_prompt req) s\<lparr>s_tracking_started_at := Some (at_start V)\<rparr>"
      "s' = s0\<lparr>s_tier := tier_i32 E t, s_current_hybrid_score := is_hybrid sc,
             s_dynamic_mean_rpm := rpm, s_last_embedding := Some emb\<rparr>"
    have "s'' = s' \<and> t = Clean \<or>
      (\<exists>seed. s'' = s'\<lparr>s_noise_seed := Some seed\<rparr> \<and> (s_noise_seed s' \<noteq> None \<longrightarrow> s_noise_seed s' = Some seed))"
      using defend_ok [OF a(3)] by (auto split: if_splits)
    then have "evolved E V req t s s'' \<and> s_current_hybrid_score s'' = is_hybrid sc"
      using b by (auto simp: evolved_def record_request_def session_trim_def)
    then show thesis using that a(1) by blast
  qed
qed

lemma handle_infer_cases:
  obtains (panic) p where "handle_infer E C D J V req r = (Inl p, [])"
  | (error) e where "handle_infer E C D J V req r = (Inr (Inl e), [])"
  | (late_error) s sc duration t served noise m where
      "infer_core E C D J V req r = Inr (Inr (s, sc, duration, t, served, noise))" "pool_second V = Inl m"
      "handle_infer E C D J V req r = (Inr (Inl (internal_error E m)),
         if t = Malicious then [SubmitRekor (rq_session_id_hash req) (is_hybrid sc) duration
                                 (case s_noise_seed s of Some x \<Rightarrow> x | None \<Rightarrow> [])] else [])"
  | (answer) s sc duration t served noise where
      "infer_core E C D J V req r = Inr (Inr (s, sc, duration, t, served, noise))"
      "handle_infer E C D J V req r = (Inr (Inr (make_response E req sc duration t served)),
         (if t = Malicious then [SubmitRekor (rq_session_id_hash req) (is_hybrid sc) duration
                                 (case s_noise_seed s of Some x \<Rightarrow> x | None \<Rightarrow> [])] else []) @
         [PersistSession s (cfg_session_ttl_secs E), InsertLog (make_log E V req sc t noise)])"
proof -
  consider (p) p where "infer_core E C D J V req r = Inl p" | (e) e where "infer_core E C D J V req r = Inr (Inl e)"
    | (ok) s sc duration t served noise where
        "infer_core E C D J V req r = Inr (Inr (s, sc, duration, t, served, noise))"
    by (metis sum.exhaust prod_cases6)
  then show ?thesis
  proof cases
    case ok
    then show ?thesis
      using late_error [OF ok] answer [OF ok] by (cases "pool_second V") (simp_all add: handle_infer_def Let_def)
  qed (simp_all add: handle_infer_def panic error)
qed

lemma infer_core_served:
  assumes "infer_core E C D J V req r = Inr (Inr (s'', sc, duration, t, served, noise))"
  shows "s_tier s'' = tier_i32 E t \<and> t = classify E sc duration \<and> noise = (t \<noteq> Clean) \<and>
    duration = tracking_duration_mins C (at_duration V) s'' \<and>
    (\<exists>clean. complete V (rq_prompt req) = Inr (Inr clean) \<and>
      (if t = Clean then served = clean
       else \<exists>seed. s_noise_seed s'' = Some seed \<and> apply_defence E clean t seed = Inr (Inr served)))"
proof (rule infer_core_ok [OF assms])
  fix s s' clean
  assume a: "assess E C V req (record_request E (at_start V) (rq_prompt req) s) = Inr (Inr (s', sc, duration, t))"
    "complete V (rq_prompt req) = Inr (Inr clean)"
    "defend E (at_start V) (rq_session_id_hash req) t clean s' = Inr (Inr (served, noise, s''))"
  obtain s0 emb rpm where b:
    "s' = s0\<lparr>s_tier := tier_i32 E t, s_current_hybrid_score := is_hybrid sc,
             s_dynamic_mean_rpm := rpm, s_last_embedding := Some emb\<rparr>"
    "t = classify E sc duration" "duration = tracking_duration_mins C (at_duration V) s'"
    by (rule assess_ok [OF a(1)])
  have "s_tier s' = tier_i32 E t" by (simp add: b(1))
  with b(2,3) show ?thesis using defend_ok [OF a(3)] a(2) by (auto simp: tracking_duration_mins_def split: if_splits)
qed

text \<open>The intent verdict reaches the scores that the tier is classified from.\<close>

lemma infer_core_flagged:
  assumes "infer_core E C D J V req r = Inr (Inr (s'', sc, duration, t, served, noise))"
  shows "\<exists>label. classify_intent V (rq_prompt req) = Inr (Inr (is_intent_flagged sc, label))"
  using assms by (auto simp: infer_core_def assess_def Let_def split_def)

section \<open>A small engine\<close>

text \<open>An engine whose hybrid score is 1 for one prompt and 0 for any other, on an empty server.\<close>

definition demo_engine :: "(int, string) engine" where
  "demo_engine =
     \<lparr>compute_scores = (\<lambda>ctx. ok \<lparr>is_hybrid = (if cx_prompt ctx = ''steal'' then Num 1 else Num 0),
        is_v_score = Num 0, is_d_score = Num 0, is_e_score = Num 0, is_a_score = Num 0,
        is_intent_flagged = False, is_intent_label = None\<rparr>),
      classify = (\<lambda>sc duration. if is_hybrid sc = Num 0 then Clean else Malicious),
      tier_i32 = (\<lambda>t. case t of Clean \<Rightarrow> 1 | Suspicious \<Rightarrow> 2 | Malicious \<Rightarrow> 3),
      calculate_rpm = (\<lambda>_. ok (Num 0)),
      derive_seed = (\<lambda>hash started. ''seed of '' @ hash),
      apply_defence = (\<lambda>clean t seed. ok (Inr (clean @ '' (revised)''))),
      hash_prompt = (\<lambda>p. p), internal_error = (\<lambda>m. m), session_banned = (\<lambda>h. ''banned''),
      cfg_max_timestamps = 50, cfg_entropy_window = 20, cfg_tracking_threshold = Num 0,
      cfg_session_ttl_secs = 3600, cfg_traced = True\<rparr>"

definition demo_env :: "(int, string) request_env" where
  "demo_env =
     \<lparr>at_start = 5, at_new_session = 5, at_context = 5, at_duration = 6, pool_first = Inr (),
      pool_second = Inr (), embed = (\<lambda>_. ok (Inr [Num 1])), classify_intent = (\<lambda>_. ok (Inr (False, None))),
      complete = (\<lambda>p. ok (Inr (''echo '' @ p))), log_uuid = ''id''\<rparr>"

definition demo_request :: "string \<Rightarrow> infer_request" where
  "demo_request prompt =
     \<lparr>rq_session_id_hash = ''session1'', rq_prompt = prompt, rq_client_ip_hash = [],
      rq_request_id = ''r1'', rq_gateway_version = ''1''\<rparr>"

abbreviation demo_infer ::
    "(int, string) request_env \<Rightarrow> string \<Rightarrow> (string \<times> json_value) list \<Rightarrow>
     (string, infer_response) io \<times> int task list" where
  "demo_infer V prompt \<equiv> handle_infer demo_engine chrono_ns mem_redis null_json V (demo_request prompt)"

lemma demo_trace: "trace_prefix True ''session1'' = Inr ()" "slice_to ''session1'' 8 = Inr ''session1''"
  by (rule trace_ascii, simp add: byte_def)
     (simp add: slice_to_def is_char_boundary_ascii byte_def)

lemma demo_flt: "flt (Num 0) (Num 1)"
  by (simp add: flt_def fle_def)

lemmas demo_defs = demo_engine_def demo_env_def demo_request_def demo_trace demo_flt
  handle_infer_def infer_core_def load_session_def session_get_def mem_redis_def
  session_new_def record_request_def session_trim_def keep_last_def assess_def tracking_duration_mins_def
  start_tracking_def defend_def Let_def

lemma demo_answers:
  obtains resp ts where "demo_infer demo_env ''hello'' [] = (Inr (Inr resp), ts)"
  by (simp add: demo_defs)

lemma demo_detects:
  obtains resp ts where "demo_infer demo_env ''steal'' [] = (Inr (Inr resp), ts)" "rs_tier resp = 3"
  by (simp add: demo_defs make_response_def)

section \<open>Properties\<close>

text \<open>
  C7. An answered request continues the stored session, or a new one: exactly one write is
  spawned, of a session that has the request appended to its trimmed lists, one more request
  counted, its first instant, its tracking start and its seed kept once set, and the tier and
  score that the response reports.
\<close>

theorem session_evolution:
  assumes "handle_infer E C D J V req r = (Inr (Inr resp), ts)"
  shows "\<exists>s s' t. load_session E D J V (rq_session_id_hash req) r = Inr (Inr s) \<and> \<not> s_is_banned s \<and>
    evolved E V req t s s' \<and> s_tier s' = rs_tier resp \<and> s_current_hybrid_score s' = rs_hybrid_score resp \<and>
    {task \<in> set ts. \<exists>x ttl. task = PersistSession x ttl} = {PersistSession s' (cfg_session_ttl_secs E)}"
proof (cases rule: handle_infer_cases [of E C D J V req r])
  case (answer s' sc duration t served noise)
  obtain s where s: "load_session E D J V (rq_session_id_hash req) r = Inr (Inr s)" "evolved E V req t s s'"
    "s_current_hybrid_score s' = is_hybrid sc"
    by (rule infer_core_evolved [OF answer(1)])
  have "s_tier s' = rs_tier resp \<and> rs_hybrid_score resp = is_hybrid sc"
    using assms answer(2) s(2) by (auto simp: make_response_def evolved_def)
  moreover have "{task \<in> set ts. \<exists>x ttl. task = PersistSession x ttl} = {PersistSession s' (cfg_session_ttl_secs E)}"
    using assms answer(2) by auto
  ultimately show ?thesis using s load_session_ok(1) [OF s(1)] by metis
qed (use assms in simp_all)

theorem session_evolution_witness:
  "\<exists>resp ts s'. demo_infer demo_env ''hello'' [] = (Inr (Inr resp), ts) \<and>
     PersistSession s' 3600 \<in> set ts \<and> s_request_count s' = 1 \<and> s_prompt_history s' = [''hello'']"
proof -
  obtain resp ts where a: "demo_infer demo_env ''hello'' [] = (Inr (Inr resp), ts)" by (rule demo_answers)
  obtain s s' t where s: "load_session demo_engine mem_redis null_json demo_env ''session1'' [] = Inr (Inr s)"
    "evolved demo_engine demo_env (demo_request ''hello'') t s s'"
    "{task \<in> set ts. \<exists>x ttl. task = PersistSession x ttl} = {PersistSession s' 3600}"
    using session_evolution [OF a] by (auto simp: demo_request_def demo_engine_def)
  have "s = session_new 5 ''session1''" using s(1) by (simp add: demo_defs)
  then have "s_request_count s' = 1 \<and> s_prompt_history s' = [''hello'']"
    using s(2) by (simp add: evolved_def session_new_def demo_request_def demo_engine_def keep_last_def)
  then show ?thesis using a s(3) by blast
qed

text \<open>
  C27. A request that fails or panics writes nothing: no session, no log line. The one task it can
  leave behind is the audit entry of a malicious request whose second connection was refused.
\<close>

theorem failed_request_persists_nothing:
  assumes "handle_infer E C D J V req r = (res, ts)" "\<nexists>resp. res = Inr (Inr resp)"
  shows "ts = [] \<or> (\<exists>m hash sc duration seed. pool_second V = Inl m \<and> res = Inr (Inl (internal_error E m)) \<and>
    classify E sc duration = Malicious \<and> ts = [SubmitRekor hash (is_hybrid sc) duration seed])"
proof (cases rule: handle_infer_cases [of E C D J V req r])
  case (late_error s sc duration t served noise m)
  then show ?thesis using assms(1) infer_core_served [OF late_error(1)] by (auto split: if_splits)
qed (use assms in auto)

theorem failed_request_persists_nothing_witness:
  "\<exists>e task. demo_infer (demo_env\<lparr>pool_second := Inl ''timeout''\<rparr>) ''steal'' [] = (Inr (Inl e), [task]) \<and>
     (\<forall>s ttl l. task \<noteq> PersistSession s ttl \<and> task \<noteq> InsertLog l)"
proof -
  obtain e task where a: "demo_infer (demo_env\<lparr>pool_second := Inl ''timeout''\<rparr>) ''steal'' [] = (Inr (Inl e), [task])"
    by (simp add: demo_defs)
  from failed_request_persists_nothing [OF a] have "\<exists>hash sc duration seed. task = SubmitRekor hash sc duration seed"
    by auto
  then show ?thesis using a by auto
qed

text \<open>
  C8. What is served follows the tier that is reported: Tier 1 serves the model's text as it
  is, and any other tier serves the defence's output under the seed the same request persists,
  so the perturbation can be replayed from the stored session.
\<close>

theorem response_by_tier:
  assumes "handle_infer E C D J V req r = (Inr (Inr resp), ts)"
  shows "\<exists>clean t s'. complete V (rq_prompt req) = Inr (Inr clean) \<and> rs_tier resp = tier_i32 E t \<and>
    PersistSession s' (cfg_session_ttl_secs E) \<in> set ts \<and>
    (if t = Clean then rs_response resp = clean
     else \<exists>seed. s_noise_seed s' = Some seed \<and> apply_defence E clean t seed = Inr (Inr (rs_response resp)))"
proof (cases rule: handle_infer_cases [of E C D J V req r])
  case (answer s' sc duration t served noise)
  have "rs_tier resp = tier_i32 E t" "rs_response resp = served"
    "PersistSession s' (cfg_session_ttl_secs E) \<in> set ts"
    using assms answer(2) by (auto simp: make_response_def)
  moreover obtain clean where "complete V (rq_prompt req) = Inr (Inr clean)"
    "if t = Clean then served = clean
     else \<exists>seed. s_noise_seed s' = Some seed \<and> apply_defence E clean t seed = Inr (Inr served)"
    using infer_core_served [OF answer(1)] by blast
  ultimately show ?thesis by (intro exI [of _ clean] exI [of _ t] exI [of _ s']) (auto split: if_splits)
qed (use assms in simp_all)

theorem response_by_tier_witness:
  "\<exists>resp ts. demo_infer demo_env ''steal'' [] = (Inr (Inr resp), ts) \<and>
     rs_tier resp = 3 \<and> rs_response resp = ''echo steal (revised)''"
proof -
  obtain resp ts where a: "demo_infer demo_env ''steal'' [] = (Inr (Inr resp), ts)" "rs_tier resp = 3"
    by (rule demo_detects)
  then show ?thesis
    using response_by_tier [OF a(1)] by (auto simp: demo_engine_def demo_env_def demo_request_def split: if_splits)
qed

end
