(* ===== verification/Handlers.thy ===== *)
theory Handlers
  imports Service
begin

text \<open>
  The gRPC surface of \<open>engine/src/grpc/service.rs\<close>: the six methods around the inference
  pipeline. \<open>tonic\<close>'s \<open>Status\<close> is a type \<open>'st\<close> with the four ways the handlers build one.
\<close>

record ('e, 'st) status_ops =
  st_invalid_argument :: "string \<Rightarrow> 'st"
  st_not_found :: "string \<Rightarrow> 'st"
  st_internal :: "string \<Rightarrow> 'st"
  st_from :: "'e \<Rightarrow> 'st"

record proto_session =
  ps_session_id_hash :: string
  ps_tier :: i32
  ps_first_seen_at :: int
  ps_last_active_at :: int
  ps_tracking_started_at :: int
  ps_request_count :: "64 word"
  ps_dynamic_mean_rpm :: fp
  ps_current_hybrid_score :: fp
  ps_duration_mins :: fp
  ps_is_banned :: bool

record health_response =
  hc_status :: string
  hc_version :: string
  hc_redis_connected :: bool
  hc_postgres_connected :: bool
  hc_rekor_connected :: bool
  hc_models_loaded :: bool
  hc_uptime_seconds :: fp

record stats_response =
  stat_total_sessions :: int
  stat_active_sessions :: int
  stat_tier1_count :: int
  stat_tier2_count :: int
  stat_tier3_count :: int
  stat_total_requests :: int
  stat_noise_injected_count :: int
  stat_rekor_entries_count :: int

text \<open>The count is a \<open>u64\<close> read as an \<open>i64\<close>: the same 64 bits.\<close>

definition session_to_proto :: "'d chrono \<Rightarrow> 'd \<Rightarrow> 'd session \<Rightarrow> proto_session" where
  "session_to_proto C now s =
     \<lparr>ps_session_id_hash = s_id_hash s, ps_tier = s_tier s,
      ps_first_seen_at = unix_seconds C (s_first_seen_at s),
      ps_last_active_at = unix_seconds C (s_last_active_at s),
      ps_tracking_started_at =
        (case s_tracking_started_at s of Some t \<Rightarrow> unix_seconds C t | None \<Rightarrow> 0),
      ps_request_count = s_request_count s, ps_dynamic_mean_rpm = s_dynamic_mean_rpm s,
      ps_current_hybrid_score = s_current_hybrid_score s,
      ps_duration_mins = tracking_duration_mins C now s, ps_is_banned = s_is_banned s\<rparr>"

definition infer ::
    "('e, 'st) status_ops \<Rightarrow> ('d, 'e) engine \<Rightarrow> 'd chrono \<Rightarrow> ('r, 'e, 'j) redis \<Rightarrow> ('d, 'j) json \<Rightarrow>
     ('d, 'e) request_env \<Rightarrow> infer_request \<Rightarrow> 'r \<Rightarrow> ('st, infer_response) io \<times> 'd task list" where
  "infer T E C D J V req r =
     (case trace_prefix (cfg_traced E) (rq_session_id_hash req) of
        Inl p \<Rightarrow> (Inl p, [])
      | Inr _ \<Rightarrow>
          if rq_session_id_hash req = [] then (Inr (Inl (st_invalid_argument T ''session_id_hash is required'')), [])
          else if rq_prompt req = [] then (Inr (Inl (st_invalid_argument T ''prompt is required'')), [])
          else (case handle_infer E C D J V req r of
                  (Inl p, ts) \<Rightarrow> (Inl p, ts)
                | (Inr (Inl e), ts) \<Rightarrow> (Inr (Inl (st_from T e)), ts)
                | (Inr (Inr resp), ts) \<Rightarrow> (Inr (Inr resp), ts)))"

definition get_session ::
    "('e, 'st) status_ops \<Rightarrow> ('d, 'e) engine \<Rightarrow> 'd chrono \<Rightarrow> ('r, 'e, 'j) redis \<Rightarrow> ('d, 'j) json \<Rightarrow>
     string + unit \<Rightarrow> 'd \<Rightarrow> string \<Rightarrow> 'r \<Rightarrow> ('st, proto_session) io" where
  "get_session T E C D J pool now hash r =
     (case pool of
        Inl m \<Rightarrow> Inr (Inl (st_internal T m))
      | Inr _ \<Rightarrow>
          map_run (\<lambda>res. case res of
              Inr (Some s) \<Rightarrow> Inr (session_to_proto C now s)
            | Inr None \<Rightarrow> Inl (st_not_found T (''session not found: '' @ hash))
            | Inl e \<Rightarrow> Inl (st_from T e))
            (session_get (cfg_traced E) (internal_error E) D J hash r))"

text \<open>
  The task behind \<open>list_sessions\<close>: \<open>get h\<close> is the lookup of the hash \<open>h\<close> in the state Redis has by
  then and \<open>conv h\<close> the conversion at that time; \<open>alive n\<close> tells whether the client still listens
  when the message after \<open>n\<close> others is sent. A lookup that fails or finds nothing is skipped, one
  that panics ends the task.
\<close>

fun send_loop ::
    "(string \<Rightarrow> ('e, 'd session option) io) \<Rightarrow> (string \<Rightarrow> 'd session \<Rightarrow> 'p) \<Rightarrow> (i32 \<Rightarrow> bool) \<Rightarrow> i32 \<Rightarrow> i32 \<Rightarrow> i32 \<Rightarrow>
     string list \<Rightarrow> 'p list" where
  "send_loop get conv alive filt limit sent [] = []"
| "send_loop get conv alive filt limit sent (h # hs) =
     (if 0 < sint limit \<and> sint limit \<le> sint sent then []
      else case get h of
             Inl p \<Rightarrow> []
           | Inr (Inr (Some s)) \<Rightarrow>
               if filt = 0 \<or> s_tier s = filt
               then (if alive sent then conv h s # send_loop get conv alive filt limit (sent + 1) hs else [])
               else send_loop get conv alive filt limit sent hs
           | Inr _ \<Rightarrow> send_loop get conv alive filt limit sent hs)"

definition list_sessions ::
    "('e, 'st) status_ops \<Rightarrow> ('d, 'e) engine \<Rightarrow> 'd chrono \<Rightarrow> ('r, 'e, 'j) redis \<Rightarrow> ('d, 'j) json \<Rightarrow>
     string + unit \<Rightarrow> (string \<Rightarrow> 'd) \<Rightarrow> (i32 \<Rightarrow> bool) \<Rightarrow> i32 \<Rightarrow> i32 \<Rightarrow> 'r \<Rightarrow> (string \<Rightarrow> 'r) \<Rightarrow>
     ('st + proto_session) list" where
  "list_sessions T E C D J pool now alive tier_filter limit r later =
     (case pool of
        Inl m \<Rightarrow> if alive 0 then [Inl (st_internal T m)] else []
      | Inr _ \<Rightarrow>
          (case list_hashes D r of
             Inl e \<Rightarrow> if alive 0 then [Inl (st_from T e)] else []
           | Inr hashes \<Rightarrow>
               map Inr (send_loop (\<lambda>h. session_get (cfg_traced E) (internal_error E) D J h (later h))
                 (\<lambda>h. session_to_proto C (now h)) alive tier_filter limit 0 hashes)))"

text \<open>\<open>tracing::info!\<close> slices the hash once more, after the deletion.\<close>

definition delete_session ::
    "('e, 'st) status_ops \<Rightarrow> ('d, 'e) engine \<Rightarrow> ('r, 'e, 'j) redis \<Rightarrow> string + unit \<Rightarrow> string \<Rightarrow> 'r \<Rightarrow>
     ('st, bool \<times> string) io \<times> 'r" where
  "delete_session T E D pool hash r =
     (case pool of
        Inl m \<Rightarrow> (Inr (Inl (st_internal T m)), r)
      | Inr _ \<Rightarrow>
          (case session_delete D hash r of
             (Inl e, r') \<Rightarrow> (Inr (Inl (st_from T e)), r')
           | (Inr True, r') \<Rightarrow>
               (map_run (\<lambda>_. Inr (True, ''session deleted'')) (trace_prefix (cfg_traced E) hash), r')
           | (Inr False, r') \<Rightarrow> (Inr (Inl (st_not_found T ''session not found'')), r')))"

definition get_stats :: stats_response where
  "get_stats =
     \<lparr>stat_total_sessions = 0, stat_active_sessions = 0, stat_tier1_count = 0, stat_tier2_count = 0,
      stat_tier3_count = 0, stat_total_requests = 0, stat_noise_injected_count = 0,
      stat_rekor_entries_count = 0\<rparr>"

definition health_check :: "bool \<times> bool \<Rightarrow> bool \<Rightarrow> string \<Rightarrow> fp \<Rightarrow> health_response" where
  "health_check stores models_loaded version uptime =
     (case stores of (redis_ok, postgres_ok) \<Rightarrow>
        \<lparr>hc_status =
           (if redis_ok \<and> postgres_ok \<and> models_loaded then ''healthy''
            else if redis_ok \<or> postgres_ok then ''degraded'' else ''unhealthy''),
         hc_version = version, hc_redis_connected = redis_ok, hc_postgres_connected = postgres_ok,
         hc_rekor_connected = True, hc_models_loaded = models_loaded, hc_uptime_seconds = uptime\<rparr>)"

section \<open>The stream of sessions\<close>

definition found :: "(string \<Rightarrow> ('e, 'd session option) io) \<Rightarrow> string \<Rightarrow> 'd session \<Rightarrow> bool" where
  "found get h s \<longleftrightarrow> get h = Inr (Inr (Some s))"

lemma send_loop_members:
  "p \<in> set (send_loop get conv alive filt limit sent hs) \<Longrightarrow>
   \<exists>h s. h \<in> set hs \<and> found get h s \<and> (filt = 0 \<or> s_tier s = filt) \<and> p = conv h s"
proof (induction hs arbitrary: sent)
  case (Cons h hs)
  let ?Q = "\<lambda>hs. \<exists>h s. h \<in> set hs \<and> found get h s \<and> (filt = 0 \<or> s_tier s = filt) \<and> p = conv h s"
  have rest: "?Q (h # hs)" if "p \<in> set (send_loop get conv alive filt limit n hs)" for n
    using Cons.IH [OF that] by auto
  have "?Q (h # hs)" if "get h = Inr (Inr (Some s))" "filt = 0 \<or> s_tier s = filt" "p = conv h s" for s
    using that by (auto simp: found_def)
  moreover consider q where "get h = Inl q" | e where "get h = Inr (Inl e)" | "get h = Inr (Inr None)"
    | s where "get h = Inr (Inr (Some s))"
    by (metis sum.exhaust option.exhaust)
  then show ?case using Cons.prems rest calculation
    by cases (auto split: if_splits)
qed simp

lemma sint_suc:
  fixes n m :: i32
  assumes "0 \<le> sint n" "sint n < sint m"
  shows "sint (n + 1) = sint n + 1"
proof -
  have "sint m < 2 ^ 31" using sint_lt [of m] by simp
  then have b: "- (2 ^ 31) \<le> sint n + 1" "sint n + 1 < 2 ^ 31" using assms by linarith+
  have "sint (n + 1) = signed_take_bit 31 (sint n + 1)" by (simp add: sint_word_ariths)
  then show ?thesis using b by (simp add: signed_take_bit_int_eq_self)
qed

text \<open>What the loop sends when the client stays and no lookup panics: the sessions that match, in order.\<close>

definition matching ::
    "(string \<Rightarrow> ('e, 'd session option) io) \<Rightarrow> (string \<Rightarrow> 'd session \<Rightarrow> 'p) \<Rightarrow> i32 \<Rightarrow> string list \<Rightarrow> 'p list" where
  "matching get conv filt hs =
     concat (map (\<lambda>h. case get h of
         Inr (Inr (Some s)) \<Rightarrow> if filt = 0 \<or> s_tier s = filt then [conv h s] else []
       | _ \<Rightarrow> []) hs)"

lemma set_matching:
  "set (matching get conv filt hs) =
     {conv h s | h s. h \<in> set hs \<and> found get h s \<and> (filt = 0 \<or> s_tier s = filt)}"
proof (induction hs)
  case (Cons h hs)
  have "set (case get h of Inr (Inr (Some s)) \<Rightarrow> if filt = 0 \<or> s_tier s = filt then [conv h s] else [] | _ \<Rightarrow> []) =
    {conv h s | s. found get h s \<and> (filt = 0 \<or> s_tier s = filt)}"
    by (auto simp: found_def split: sum.splits option.splits)
  then show ?case using Cons by (auto simp: matching_def)
qed (simp add: matching_def)

lemma matching_Cons:
  "get h = Inr (Inr (Some s)) \<Longrightarrow> matching get conv filt (h # hs) =
     (if filt = 0 \<or> s_tier s = filt then [conv h s] else []) @ matching get conv filt hs"
  "get h = Inr (Inr None) \<Longrightarrow> matching get conv filt (h # hs) = matching get conv filt hs"
  "get h = Inr (Inl e) \<Longrightarrow> matching get conv filt (h # hs) = matching get conv filt hs"
  by (simp_all add: matching_def)

lemma send_loop_unlimited:
  assumes "sint limit \<le> 0"
  shows "(\<And>h. h \<in> set hs \<Longrightarrow> \<exists>x. get h = Inr x) \<Longrightarrow>
    send_loop get conv (\<lambda>_. True) filt limit sent hs = matching get conv filt hs"
proof (induction hs arbitrary: sent)
  case (Cons h hs)
  have get: "\<exists>x. get k = Inr x" if "k \<in> set hs" for k using Cons.prems that by simp
  consider (err) e where "get h = Inr (Inl e)" | (none) "get h = Inr (Inr None)" | (some) s where "get h = Inr (Inr (Some s))"
    using Cons.prems by (metis list.set_intros(1) sum.exhaust option.exhaust)
  then show ?case using Cons.IH [OF get] assms by cases (simp_all add: matching_Cons)
qed (simp add: matching_def)

lemma send_loop_limited:
  assumes "0 < sint limit"
  shows "(\<And>h. h \<in> set hs \<Longrightarrow> \<exists>x. get h = Inr x) \<Longrightarrow> 0 \<le> sint sent \<Longrightarrow> sint sent \<le> sint limit \<Longrightarrow>
    send_loop get conv (\<lambda>_. True) filt limit sent hs = take (nat (sint limit - sint sent)) (matching get conv filt hs)"
proof (induction hs arbitrary: sent)
  case (Cons h hs)
  have get: "\<exists>x. get k = Inr x" if "k \<in> set hs" for k using Cons.prems(1) that by simp
  show ?case
  proof (cases "sint limit \<le> sint sent")
    case False
    then have suc: "sint (sent + 1) = sint sent + 1" using Cons.prems by (intro sint_suc [where m = limit]) auto
    have rest: "send_loop get conv (\<lambda>_. True) filt limit (sent + 1) hs = take (nat (sint limit - sint (sent + 1))) (matching get conv filt hs)"
      using Cons.prems(2) suc False by (intro Cons.IH get) auto
    have same: "send_loop get conv (\<lambda>_. True) filt limit sent hs = take (nat (sint limit - sint sent)) (matching get conv filt hs)"
      by (rule Cons.IH [OF get Cons.prems(2,3)])
    have n: "nat (sint limit - sint sent) = Suc (nat (sint limit - sint (sent + 1)))" using suc False by simp
    consider (err) e where "get h = Inr (Inl e)" | (none) "get h = Inr (Inr None)" | (some) s where "get h = Inr (Inr (Some s))"
      using Cons.prems(1) by (metis list.set_intros(1) sum.exhaust option.exhaust)
    then show ?thesis
      using False by cases (simp_all add: matching_Cons rest same n)
  qed (use Cons.prems assms in simp)
qed (simp add: matching_def)

definition demo_status :: "(string, string) status_ops" where
  "demo_status =
     \<lparr>st_invalid_argument = (\<lambda>m. m), st_not_found = (\<lambda>m. m), st_internal = (\<lambda>m. m), st_from = (\<lambda>m. m)\<rparr>"

section \<open>Properties\<close>

lemma list_sessions_members:
  assumes "session_store D content J" "list_hashes D r = Inr hs"
    and "x \<in> set (list_sessions T E C D J (Inr ()) now alive filt limit r later)"
  shows "\<exists>h j s. content (later h) (session_key h) = Some j \<and> from_json J j = Inr s \<and>
       (filt = 0 \<or> s_tier s = filt) \<and> x = Inr (session_to_proto C (now h) s)"
proof -
  let ?get = "\<lambda>h. session_get (cfg_traced E) (internal_error E) D J h (later h)"
  obtain h s where h: "?get h = Inr (Inr (Some s))" "filt = 0 \<or> s_tier s = filt"
    "x = Inr (session_to_proto C (now h) s)"
    using assms(2,3) send_loop_members [where get = ?get] by (fastforce simp: found_def list_sessions_def)
  then show ?thesis by (cases rule: session_store.get_cases [OF assms(1) h(1)]) auto
qed

text \<open>
  C32. What a client that keeps listening receives, although the store changes while the stream is
  sent: each session that was there when the keys were listed is looked up once, in the state the
  store has by then, and is sent, in the order of the listing, exactly if it can be read and matches
  the filter. A lookup that fails, with an error of Redis or an unreadable text, is skipped and does not end
  the stream; a positive limit cuts it after so many sessions and does nothing else.
\<close>

theorem list_sessions_complete:
  assumes "session_store D content J" "list_hashes D r = Inr hs"
    and "\<And>h p. h \<in> set hs \<Longrightarrow> session_get (cfg_traced E) (internal_error E) D J h (later h) \<noteq> Inl p"
  defines "get \<equiv> \<lambda>h. session_get (cfg_traced E) (internal_error E) D J h (later h)"
  shows "distinct hs \<and> set hs = {h. content r (session_key h) \<noteq> None} \<and>
    list_sessions T E C D J (Inr ()) now (\<lambda>_. True) filt limit r later =
      map Inr ((if 0 < sint limit then take (nat (sint limit)) else id)
        (concat (map (\<lambda>h. case get h of
             Inr (Inr (Some s)) \<Rightarrow> if filt = 0 \<or> s_tier s = filt then [session_to_proto C (now h) s] else []
           | _ \<Rightarrow> []) hs))) \<and>
    (\<forall>h s. get h = Inr (Inr (Some s)) \<longrightarrow> (\<exists>j. content (later h) (session_key h) = Some j \<and> from_json J j = Inr s))"
proof (intro conjI allI impI)
  let ?conv = "\<lambda>h. session_to_proto C (now h)"
  note k = redis_laws.list_hashes_content [OF session_store.axioms(1) [OF assms(1)] assms(2)]
  show "distinct hs" "set hs = {h. content r (session_key h) \<noteq> None}" using k by blast+
  have ran: "\<exists>x. get h = Inr x" if "h \<in> set hs" for h
    using assms(3) [OF that] unfolding get_def by (meson sum.exhaust)
  have loop: "send_loop get ?conv (\<lambda>_. True) filt limit 0 hs =
      (if 0 < sint limit then take (nat (sint limit)) else id) (matching get ?conv filt hs)"
  proof (cases "0 < sint limit")
    case True
    then show ?thesis using send_loop_limited [OF True ran, where sent = 0] by simp
  next
    case False
    then have "sint limit \<le> 0" by simp
    then have "send_loop get ?conv (\<lambda>_. True) filt limit 0 hs = matching get ?conv filt hs"
      by (rule send_loop_unlimited) (rule ran)
    then show ?thesis using False by simp
  qed
  show "list_sessions T E C D J (Inr ()) now (\<lambda>_. True) filt limit r later =
      map Inr ((if 0 < sint limit then take (nat (sint limit)) else id)
        (concat (map (\<lambda>h. case get h of
             Inr (Inr (Some s)) \<Rightarrow> if filt = 0 \<or> s_tier s = filt then [session_to_proto C (now h) s] else []
           | _ \<Rightarrow> []) hs)))"
    using loop assms(2) by (simp add: list_sessions_def matching_def get_def)
  show "\<exists>j. content (later h) (session_key h) = Some j \<and> from_json J j = Inr s" if "get h = Inr (Inr (Some s))" for h s
    using that unfolding get_def by (cases rule: session_store.get_cases [OF assms(1)]) auto
qed

text \<open>Two sessions, of which the first cannot be read any more when it is looked up.\<close>

theorem list_sessions_complete_witness:
  "list_sessions demo_status (demo_engine\<lparr>cfg_traced := False\<rparr>) chrono_ns mem_redis null_json (Inr ()) (\<lambda>_. 9) (\<lambda>_. True) 0 5
     [(session_key ''session1'', JNull), (session_key ''session2'', stored_text sample_session)]
     (\<lambda>_. [(session_key ''session1'', JNull), (session_key ''session2'', stored_text sample_session)]) =
   [Inr (session_to_proto chrono_ns 9 sample_session)]"
proof -
  let ?r = "[(session_key ''session1'', JNull), (session_key ''session2'', stored_text sample_session)]"
  let ?E = "demo_engine\<lparr>cfg_traced := False\<rparr>"
  let ?get = "\<lambda>h. session_get (cfg_traced ?E) (internal_error ?E) mem_redis null_json h ?r"
  have hs: "list_hashes (mem_redis :: (_, string, _) redis) ?r = Inr [''session1'', ''session2'']"
    by (simp add: list_hashes_def mem_redis_def session_key_def strip_prefix_def starts_with_def)
  have null: "from_json null_json JNull = Inl ''invalid type''"
    by (simp add: from_json_def read_session_def null_json_def)
  have get: "?get ''session1'' = Inr (Inl (internal_error ?E (''deserialise session: '' @ ''invalid type'')))"
    "?get ''session2'' = Inr (Inr (Some sample_session))"
    by (simp_all add: session_get_def mem_redis_def trace_prefix_def null sample_facts)
  have ran: "?get h \<noteq> Inl p" if "h \<in> set [''session1'', ''session2'']" for h p
    using that get by auto
  show ?thesis
    using list_sessions_complete [where later = "\<lambda>_. ?r" and E = ?E, OF mem.session_store_axioms hs ran,
        where T = demo_status and C = chrono_ns and now = "\<lambda>_. 9" and filt = 0 and limit = 5] get
    by simp
qed

text \<open>
  C30. Deleting a session forgets it, whatever its state: the next request of the same hash starts a
  new Tier 1 session, with no history and no ban, although the API calls the deletion a ban.
\<close>

theorem deleted_session_restarts:
  assumes "session_store D content J" "delete_session T E D pool hash r = (Inr (Inr reply), r')"
    and "load_session E D J V hash r' = Inr (Inr s)"
  shows "s = session_new (at_new_session V) hash \<and> s_tier s = 1 \<and> \<not> s_is_banned s"
proof -
  have d: "session_delete D hash r = (Inr True, r')"
    using assms(2) by (auto simp: delete_session_def split: sum.splits prod.splits bool.splits)
  have none: "content r' (session_key hash) = None"
    using redis_laws.delete_content(1) [OF session_store.axioms(1) [OF assms(1)] d] by simp
  obtain found where f: "session_get (cfg_traced E) (internal_error E) D J hash r' = Inr (Inr found)"
    "s = (case found of Some s \<Rightarrow> s | None \<Rightarrow> session_new (at_new_session V) hash)"
    using load_session_ok(2) [OF assms(3)] by blast
  have "found = None" using none by (cases rule: session_store.get_cases [OF assms(1) f(1)]) auto
  then show ?thesis using f(2) by (simp add: session_new_def)
qed

theorem deleted_session_restarts_witness:
  "\<exists>reply r'. delete_session demo_status demo_engine mem_redis (Inr ()) ''session1''
       [(session_key ''session1'', stored_text (sample_session\<lparr>s_tier := 3, s_is_banned := True\<rparr>))] = (Inr (Inr reply), r') \<and>
     load_session demo_engine mem_redis null_json demo_env ''session1'' r' = Inr (Inr (session_new 5 ''session1''))"
proof -
  let ?r = "[(session_key ''session1'', stored_text (sample_session\<lparr>s_tier := 3, s_is_banned := True\<rparr>))]"
  obtain reply r' s where d: "delete_session demo_status demo_engine mem_redis (Inr ()) ''session1'' ?r = (Inr (Inr reply), r')"
    and l: "load_session demo_engine mem_redis null_json demo_env ''session1'' r' = Inr (Inr s)"
    by (simp add: delete_session_def session_delete_def demo_defs)
  have "s = session_new (at_new_session demo_env) ''session1''"
    using deleted_session_restarts [OF mem.session_store_axioms d l] by (rule conjunct1)
  then show ?thesis using d l by (auto simp: demo_env_def)
qed

end
