(* ===== verification/System.thy ===== *)
theory System
  imports Handlers
begin

text \<open>
  The running engine: the Redis state, the spawned tasks that have not run yet, and the query
  log in PostgreSQL. A request is handled against the current state and leaves its tasks
  behind; the tasks run later, in any order, or are lost; a key may expire at any time. This is the
  interleaving the asynchronous persistence of \<open>handle_infer\<close> allows.
\<close>

record ('r, 'd, 't) system =
  sys_store :: 'r
  sys_tasks :: "'d task list"
  sys_logs :: 't

section \<open>Steps\<close>

inductive step ::
    "('d, 'e) engine \<Rightarrow> 'd chrono \<Rightarrow> ('r, 'e, 'j) redis \<Rightarrow> ('r \<Rightarrow> string \<Rightarrow> 'j option) \<Rightarrow> ('d, 'j) json \<Rightarrow>
     ('d, 'e, 't) postgres \<Rightarrow> ('r, 'd, 't) system \<Rightarrow> ('r, 'd, 't) system \<Rightarrow> bool"
  for E :: "('d, 'e) engine" and C :: "'d chrono" and D :: "('r, 'e, 'j) redis"
    and content :: "'r \<Rightarrow> string \<Rightarrow> 'j option" and J :: "('d, 'j) json"
    and Q :: "('d, 'e, 't) postgres" where
  request: "handle_infer E C D J V req (sys_store \<sigma>) = (res, ts) \<Longrightarrow>
     step E C D content J Q \<sigma> (\<sigma>\<lparr>sys_tasks := sys_tasks \<sigma> @ ts\<rparr>)"
| persist: "sys_tasks \<sigma> = xs @ PersistSession s ttl # ys \<Longrightarrow>
     session_set (cfg_traced E) (internal_error E) D J s ttl (sys_store \<sigma>) = (res', r') \<Longrightarrow>
     step E C D content J Q \<sigma> (\<sigma>\<lparr>sys_store := r', sys_tasks := xs @ ys\<rparr>)"
| log: "sys_tasks \<sigma> = xs @ InsertLog l # ys \<Longrightarrow>
     logs_insert Q l (sys_logs \<sigma>) = (res, t') \<Longrightarrow>
     step E C D content J Q \<sigma> (\<sigma>\<lparr>sys_logs := t', sys_tasks := xs @ ys\<rparr>)"
| lost: "sys_tasks \<sigma> = xs @ t # ys \<Longrightarrow> step E C D content J Q \<sigma> (\<sigma>\<lparr>sys_tasks := xs @ ys\<rparr>)"
| delete: "session_delete D h (sys_store \<sigma>) = (res'', r') \<Longrightarrow>
     step E C D content J Q \<sigma> (\<sigma>\<lparr>sys_store := r'\<rparr>)"
| expire: "content r' = (content (sys_store \<sigma>))(k := None) \<Longrightarrow>
     step E C D content J Q \<sigma> (\<sigma>\<lparr>sys_store := r'\<rparr>)"

inductive reachable ::
    "('d, 'e) engine \<Rightarrow> 'd chrono \<Rightarrow> ('r, 'e, 'j) redis \<Rightarrow> ('r \<Rightarrow> string \<Rightarrow> 'j option) \<Rightarrow> ('d, 'j) json \<Rightarrow>
     ('d, 'e, 't) postgres \<Rightarrow> ('t \<Rightarrow> 'd row multiset) \<Rightarrow> ('r, 'd, 't) system \<Rightarrow> bool"
  for E :: "('d, 'e) engine" and C :: "'d chrono" and D :: "('r, 'e, 'j) redis"
    and content :: "'r \<Rightarrow> string \<Rightarrow> 'j option" and J :: "('d, 'j) json"
    and Q :: "('d, 'e, 't) postgres" and table :: "'t \<Rightarrow> 'd row multiset" where
  initial: "content r = (\<lambda>_. None) \<Longrightarrow> table ls = {#} \<Longrightarrow>
     reachable E C D content J Q table \<lparr>sys_store = r, sys_tasks = [], sys_logs = ls\<rparr>"
| step: "reachable E C D content J Q table \<sigma> \<Longrightarrow> step E C D content J Q \<sigma> \<sigma>' \<Longrightarrow> reachable E C D content J Q table \<sigma>'"

section \<open>The store as a map of sessions\<close>

text \<open>
  The specification of the running engine: a map from hashes to sessions that can only forget a
  session or take a pending one, as JSON gives it back; taking one whose floats JSON cannot hold
  loses the entry.
\<close>

definition sessions_of ::
    "('r \<Rightarrow> string \<Rightarrow> 'j option) \<Rightarrow> ('d, 'j) json \<Rightarrow> 'r \<Rightarrow> string \<Rightarrow> 'd session option" where
  "sessions_of content J r h =
     (case content r (session_key h) of
        None \<Rightarrow> None
      | Some j \<Rightarrow> (case from_json J j of Inl _ \<Rightarrow> None | Inr s \<Rightarrow> Some s))"

definition pending :: "'d task list \<Rightarrow> 'd session set" where
  "pending ts = {s. \<exists>ttl. PersistSession s ttl \<in> set ts}"

definition comes_back :: "('d, 'j) json \<Rightarrow> 'd session \<Rightarrow> 'd session option" where
  "comes_back J s = (if floats_finite s then Some (session_back J s) else None)"

inductive spec_step ::
    "('d session \<Rightarrow> 'd session option) \<Rightarrow> 'd session set \<Rightarrow>
     (string \<Rightarrow> 'd session option) \<Rightarrow> (string \<Rightarrow> 'd session option) \<Rightarrow> bool"
  for rd :: "'d session \<Rightarrow> 'd session option" and P :: "'d session set" where
  stutter: "spec_step rd P m m"
| forget: "spec_step rd P m (m(h := None))"
| take_pending: "s \<in> P \<Longrightarrow> spec_step rd P m (m(s_id_hash s := rd s))"

inductive_simps spec_step_simps: "spec_step rd P m m'"

lemma one_key_changed:
  assumes "f k \<in> {g k, v}" "\<And>x. x \<noteq> k \<Longrightarrow> f x = g x"
  shows "f = g \<or> f = g(k := v)"
proof -
  have "f = g(k := f k)" using assms(2) by (simp add: fun_eq_iff)
  then show ?thesis using assms(1) by (metis fun_upd_triv insertE singletonD)
qed

lemma sessions_of_upd:
  "content r' = (content r)(k := v) \<Longrightarrow>
   sessions_of content J r' = sessions_of content J r \<or>
   (\<exists>h. k = session_key h \<and> sessions_of content J r' =
     (sessions_of content J r)(h := Option.bind v (\<lambda>j. case from_json J j of Inl _ \<Rightarrow> None | Inr s \<Rightarrow> Some s)))"
  by (cases "\<exists>h. k = session_key h") (auto simp: sessions_of_def fun_eq_iff split: option.splits)

lemma sessions_of_forget:
  "content r' = (content r)(k := None) \<Longrightarrow> spec_step rd P (sessions_of content J r) (sessions_of content J r')"
  using sessions_of_upd [of content r' r k None J] by (auto intro: spec_step.intros)

context session_store
begin

lemma set_cases:
  assumes "session_set traced internal D J s ttl r = (res, r')"
  obtains "content r' = content r"
  | j where "to_json J s = Inr j" "content r' = (content r)(session_key (s_id_hash s) \<mapsto> j)"
proof (cases "content r' = content r")
  case False
  let ?k = "session_key (s_id_hash s)"
  obtain j' res' where set: "to_json J s = Inr j'" "rd_set_ex D ?k j' ttl r = (res', r')"
    using assms False by (auto simp: session_set_def split: sum.splits prod.splits)
  have "content r' ?k \<in> {content r ?k, Some j'}"
    using set_ok set_err set(2) by (cases res') blast+
  then have "content r' = content r \<or> content r' = (content r)(?k \<mapsto> j')"
    by (rule one_key_changed) (rule set_frame [OF set(2)])
  then show ?thesis using False set(1) that(2) by blast
qed

lemma delete_cases:
  assumes "session_delete D h r = (res, r')"
  obtains "content r' = content r" | "content r' = (content r)(session_key h := None)"
proof -
  let ?k = "session_key h"
  obtain res' where d: "rd_del D ?k r = (res', r')"
    using assms by (auto simp: session_delete_def split: sum.splits prod.splits)
  have "content r' ?k \<in> {content r ?k, None}"
    using d del_ok [of ?k r _ r'] del_err [of ?k r _ r'] by (cases res') auto
  then have "content r' = content r \<or> content r' = (content r)(?k := None)"
    by (rule one_key_changed) (rule del_frame [OF d])
  then show ?thesis using that by blast
qed

lemma sessions_of_set:
  assumes "to_json J s = Inr j" "content r' = (content r)(session_key (s_id_hash s) \<mapsto> j)"
  shows "sessions_of content J r' =
    (sessions_of content J r)(s_id_hash s := comes_back J s)"
proof -
  have "(case from_json J j of Inl _ \<Rightarrow> None | Inr s \<Rightarrow> Some s) = comes_back J s"
    using json_finite [OF assms(1)] json_null [OF assms(1)] by (auto simp: comes_back_def)
  then show ?thesis using assms(2) by (auto simp: sessions_of_def fun_eq_iff)
qed

lemma step_refines:
  assumes "step E C D content J Q \<sigma> \<sigma>'"
  shows "spec_step (comes_back J) (pending (sys_tasks \<sigma>)) (sessions_of content J (sys_store \<sigma>)) (sessions_of content J (sys_store \<sigma>'))"
  using assms
proof cases
  case (persist xs s ttl ys res' r')
  have p: "s \<in> pending (sys_tasks \<sigma>)" using persist(2) by (auto simp: pending_def)
  show ?thesis
  proof (cases rule: set_cases [OF persist(3)])
    case 1
    then have "sessions_of content J r' = sessions_of content J (sys_store \<sigma>)"
      by (simp add: sessions_of_def fun_eq_iff)
    then show ?thesis using persist(1) by (simp add: stutter)
  next
    case (2 j)
    then show ?thesis using persist(1) take_pending [OF p] sessions_of_set [OF 2] by simp
  qed
next
  case (delete h res'' r')
  show ?thesis
  proof (cases rule: delete_cases [OF delete(2)])
    case 1
    then have "sessions_of content J r' = sessions_of content J (sys_store \<sigma>)"
      by (simp add: sessions_of_def fun_eq_iff)
    then show ?thesis using delete(1) by (simp add: stutter)
  next
    case 2
    then show ?thesis using delete(1) sessions_of_forget [OF 2] by simp
  qed
next
  case (expire r' k)
  then show ?thesis using sessions_of_forget [OF expire(2)] by simp
qed (simp_all add: stutter)

end

section \<open>The invariant\<close>

definition session_wf :: "('d, 'e) engine \<Rightarrow> 'd session \<Rightarrow> bool" where
  "session_wf E s \<longleftrightarrow>
     length (s_timestamps s) \<le> unat (cfg_max_timestamps E) \<and>
     length (s_prompt_history s) \<le> unat (cfg_entropy_window E * 2) \<and>
     \<not> s_is_banned s \<and>
     s_tier s \<in> range (tier_i32 E) \<and>
     (s_tier s \<noteq> tier_i32 E Clean \<longrightarrow> s_noise_seed s \<noteq> None)"

definition system_inv ::
    "('d, 'e) engine \<Rightarrow> ('r \<Rightarrow> string \<Rightarrow> 'j option) \<Rightarrow> ('d, 'j) json \<Rightarrow> ('r, 'd, 't) system \<Rightarrow> bool" where
  "system_inv E content J \<sigma> \<longleftrightarrow>
     (\<forall>h s. sessions_of content J (sys_store \<sigma>) h = Some s \<longrightarrow> session_wf E s \<and> s_id_hash s = h) \<and>
     (\<forall>s \<in> pending (sys_tasks \<sigma>). session_wf E s)"

lemma evolved_wf: "evolved E V req t s s' \<Longrightarrow> \<not> s_is_banned s \<Longrightarrow> session_wf E s'"
  using keep_last_spec [of "unat (cfg_max_timestamps E)" "s_timestamps s @ [at_start V]"]
    keep_last_spec [of "unat (cfg_entropy_window E * 2)" "s_prompt_history s @ [rq_prompt req]"]
  by (auto simp: evolved_def session_wf_def)

lemma infer_core_wf:
  assumes "infer_core E C D J V req r = Inr (Inr (s, sc, duration, t, served, noise))"
  shows "session_wf E s"
  by (rule infer_core_evolved [OF assms]) (blast intro: evolved_wf dest: load_session_ok(1))

lemma request_tasks_wf:
  assumes "handle_infer E C D J V req r = (res, ts)" "PersistSession s ttl \<in> set ts"
  shows "session_wf E s"
  using assms(2) by (cases rule: handle_infer_cases [of E C D J V req r])
    (use assms(1) infer_core_wf in \<open>auto split: if_splits\<close>)

lemma spec_step_entry:
  "spec_step rd P m m' \<Longrightarrow> m' h = Some s \<Longrightarrow> m h = Some s \<or> (\<exists>p \<in> P. s_id_hash p = h \<and> rd p = Some s)"
  by (auto simp: spec_step_simps split: if_splits)

lemma comes_back_wf: "comes_back J p = Some s \<Longrightarrow> session_wf E p \<Longrightarrow> session_wf E s \<and> s_id_hash s = s_id_hash p"
  by (auto simp: comes_back_def session_wf_def split: if_splits)

lemma step_pending:
  assumes "step E C D content J Q \<sigma> \<sigma>'" "s \<in> pending (sys_tasks \<sigma>')"
  shows "s \<in> pending (sys_tasks \<sigma>) \<or> session_wf E s"
  using assms(1)
  by cases (use assms(2) request_tasks_wf in \<open>fastforce simp: pending_def\<close>)+

context session_store
begin

lemma step_inv:
  assumes "step E C D content J Q \<sigma> \<sigma>'" "system_inv E content J \<sigma>"
  shows "system_inv E content J \<sigma>'"
proof -
  have "session_wf E s \<and> s_id_hash s = h" if "sessions_of content J (sys_store \<sigma>') h = Some s" for h s
    using spec_step_entry [OF step_refines [OF assms(1)] that] assms(2) comes_back_wf [of J _ s E]
    by (fastforce simp: system_inv_def)
  moreover have "session_wf E s" if "s \<in> pending (sys_tasks \<sigma>')" for s
    using step_pending [OF assms(1) that] assms(2) by (auto simp: system_inv_def)
  ultimately show ?thesis by (auto simp: system_inv_def)
qed

lemma reachable_inv: "reachable E C D content J Q table \<sigma> \<Longrightarrow> system_inv E content J \<sigma>"
proof (induction rule: reachable.induct)
  case (initial r ls)
  then show ?case by (simp add: system_inv_def sessions_of_def pending_def)
qed (rule step_inv)

lemma reachable_get:
  assumes "reachable E C D content J Q table \<sigma>"
    "session_get traced internal D J h (sys_store \<sigma>) = Inr (Inr (Some s))"
  shows "session_wf E s \<and> s_id_hash s = h"
proof (cases rule: get_cases [OF assms(2)])
  case (2 j s')
  then have "sessions_of content J (sys_store \<sigma>) h = Some s" by (simp add: sessions_of_def)
  then show ?thesis using reachable_inv [OF assms(1)] by (simp add: system_inv_def)
qed simp

lemma load_reads_map:
  assumes "load_session E D J V hash r = Inr (Inr s)"
  shows "s = (case sessions_of content J r hash of Some s \<Rightarrow> s | None \<Rightarrow> session_new (at_new_session V) hash)"
proof -
  obtain found where f: "session_get (cfg_traced E) (internal_error E) D J hash r = Inr (Inr found)"
    "s = (case found of Some s \<Rightarrow> s | None \<Rightarrow> session_new (at_new_session V) hash)"
    using load_session_ok(2) [OF assms] by blast
  show ?thesis by (cases rule: get_cases [OF f(1)]) (use f(2) in \<open>auto simp: sessions_of_def\<close>)
qed

end

lemma answered_persists:
  assumes "handle_infer E C D J V req r = (Inr (Inr resp), ts)" "PersistSession s' ttl \<in> set ts"
  shows "\<exists>s t. load_session E D J V (rq_session_id_hash req) r = Inr (Inr s) \<and> evolved E V req t s s' \<and>
    s_current_hybrid_score s' = rs_hybrid_score resp"
proof (cases rule: handle_infer_cases [of E C D J V req r])
  case (answer s'' sc duration t served noise)
  obtain s where s: "load_session E D J V (rq_session_id_hash req) r = Inr (Inr s)" "evolved E V req t s s''"
    "s_current_hybrid_score s'' = is_hybrid sc"
    by (rule infer_core_evolved [OF answer(1)])
  have "s'' = s'" "rs_hybrid_score resp = is_hybrid sc" using assms answer(2) by (auto simp: make_response_def split: if_splits)
  then show ?thesis using s by auto
qed (use assms in simp_all)

section \<open>The query log\<close>

definition logged :: "('d, 'e) engine \<Rightarrow> 'd query_log \<Rightarrow> bool" where
  "logged E l \<longleftrightarrow> (\<exists>V req sc duration. let t = classify E sc duration in l = make_log E V req sc t (t \<noteq> Clean))"

definition log_inv ::
    "('d, 'e) engine \<Rightarrow> ('t \<Rightarrow> 'd row multiset) \<Rightarrow> ('r, 'd, 't) system \<Rightarrow> bool" where
  "log_inv E table \<sigma> \<longleftrightarrow>
     (\<exists>logs. table (sys_logs \<sigma>) = image_mset log_row logs \<and> (\<forall>l \<in># logs. logged E l)) \<and>
     (\<forall>l. InsertLog l \<in> set (sys_tasks \<sigma>) \<longrightarrow> logged E l)"

lemma request_logs:
  assumes "handle_infer E C D J V req r = (res, ts)" "InsertLog l \<in> set ts"
  shows "logged E l"
proof (cases rule: handle_infer_cases [of E C D J V req r])
  case (answer s sc duration t served noise)
  then have "l = make_log E V req sc t noise" using assms by (auto split: if_splits)
  then show ?thesis using infer_core_served [OF answer(1)] unfolding logged_def Let_def by blast
qed (use assms in \<open>auto split: if_splits\<close>)

context postgres_laws
begin

lemma step_log_inv:
  assumes "step E C' D content J Q \<sigma> \<sigma>'" "log_inv E table \<sigma>"
  shows "log_inv E table \<sigma>'"
  using assms(1)
proof cases
  case (log xs l ys res t')
  obtain logs where logs: "table (sys_logs \<sigma>) = image_mset log_row logs" "\<forall>l \<in># logs. logged E l"
    using assms(2) by (auto simp: log_inv_def)
  have l: "logged E l" using assms(2) log(2) by (auto simp: log_inv_def)
  have "\<exists>logs. table t' = image_mset log_row logs \<and> (\<forall>l \<in># logs. logged E l)"
  proof (cases rule: insert_cases [OF log(3)])
    case 1
    then show ?thesis using logs by auto
  next
    case 2
    then show ?thesis using logs l by (intro exI [of _ "add_mset l logs"]) auto
  qed
  then show ?thesis using assms(2) log(1,2) by (auto simp: log_inv_def)
next
  case (request V req res ts)
  then show ?thesis using assms(2) request_logs [OF request(2)] by (auto simp: log_inv_def)
qed (use assms(2) in \<open>auto simp: log_inv_def\<close>)

lemma reachable_log_inv: "reachable E C' D content J Q table \<sigma> \<Longrightarrow> log_inv E table \<sigma>"
proof (induction rule: reachable.induct)
  case (initial r ls)
  then show ?case by (simp add: log_inv_def exI [of _ "{#}"])
qed (rule step_log_inv)

end

section \<open>A small run\<close>

definition demo_session :: "int session" where
  "demo_session =
     \<lparr>s_id_hash = ''session1'', s_tier = 1, s_first_seen_at = 5, s_last_active_at = 5,
      s_tracking_started_at = None, s_request_count = 1, s_dynamic_mean_rpm = Num 0,
      s_current_hybrid_score = Num 0, s_timestamps = [5], s_prompt_history = [''hello''],
      s_last_embedding = Some [Num 1], s_is_banned = False, s_noise_seed = None\<rparr>"

lemma demo_hello:
  obtains resp l where
    "demo_infer demo_env ''hello'' [] = (Inr (Inr resp), [PersistSession demo_session 3600, InsertLog l])"
  by (simp add: demo_defs demo_session_def)

lemma demo_session_facts: "s_id_hash demo_session = ''session1''" "floats_finite demo_session"
  by (simp_all add: demo_session_def floats_finite_def)

abbreviation demo_system :: "int task list \<Rightarrow> ((string \<times> json_value) list, int, int row list) system" where
  "demo_system ts \<equiv> \<lparr>sys_store = [], sys_tasks = ts, sys_logs = []\<rparr>"

abbreviation demo_reachable :: "((string \<times> json_value) list, int, int row list) system \<Rightarrow> bool" where
  "demo_reachable \<equiv> reachable demo_engine chrono_ns mem_redis map_of null_json mem_postgres mset"

abbreviation demo_step ::
    "((string \<times> json_value) list, int, int row list) system \<Rightarrow> ((string \<times> json_value) list, int, int row list) system \<Rightarrow> bool" where
  "demo_step \<equiv> step demo_engine chrono_ns mem_redis map_of null_json mem_postgres"

lemma demo_persist:
  "session_set True internal mem_redis null_json demo_session ttl [] = (Inr (Inr ()), [(session_key ''session1'', stored_text demo_session)])"
  by (simp add: session_set_def demo_session_facts demo_trace mem_redis_def)

lemma demo_run:
  obtains l where "demo_reachable (demo_system [PersistSession demo_session 3600, InsertLog l])"
    "demo_step (demo_system [PersistSession demo_session 3600, InsertLog l])
       ((demo_system [InsertLog l])\<lparr>sys_store := [(session_key ''session1'', stored_text demo_session)]\<rparr>)"
proof (rule demo_hello)
  fix resp l
  assume h: "demo_infer demo_env ''hello'' [] = (Inr (Inr resp), [PersistSession demo_session 3600, InsertLog l])"
  have i: "demo_reachable (demo_system [])" by (rule reachable.initial) (simp_all add: fun_eq_iff)
  have "demo_step (demo_system []) (demo_system [PersistSession demo_session 3600, InsertLog l])"
    using step.request [of demo_engine chrono_ns mem_redis null_json demo_env "demo_request ''hello''" "demo_system []"] h
    by simp
  then have r: "demo_reachable (demo_system [PersistSession demo_session 3600, InsertLog l])"
    by (rule reachable.step [OF i])
  have "demo_step (demo_system [PersistSession demo_session 3600, InsertLog l])
      ((demo_system [PersistSession demo_session 3600, InsertLog l])
        \<lparr>sys_store := [(session_key ''session1'', stored_text demo_session)], sys_tasks := [] @ [InsertLog l]\<rparr>)"
  proof (rule step.persist)
    show "session_set (cfg_traced demo_engine) (internal_error demo_engine) mem_redis null_json demo_session 3600
        (sys_store (demo_system [PersistSession demo_session 3600, InsertLog l])) =
      (Inr (Inr ()), [(session_key ''session1'', stored_text demo_session)])"
      using demo_persist by (simp add: demo_engine_def)
  qed simp
  then have "demo_step (demo_system [PersistSession demo_session 3600, InsertLog l])
       ((demo_system [InsertLog l])\<lparr>sys_store := [(session_key ''session1'', stored_text demo_session)]\<rparr>)"
    by simp
  then show thesis using that r by blast
qed

section \<open>Properties\<close>

text \<open>
  C5. Whatever order requests, spawned writes, deletions and expiries come in, every session the
  store can return is well-formed: under its own hash, with lists within their bounds, never
  banned (no code path sets the flag), with a tier the classifier produced, and with a noise seed
  whenever that tier is not the clean one.
\<close>

theorem stored_sessions_well_formed:
  assumes "session_store D content J" "reachable E C D content J Q table \<sigma>"
    and "session_get traced internal D J h (sys_store \<sigma>) = Inr (Inr (Some s))"
  shows "s_id_hash s = h \<and> length (s_timestamps s) \<le> unat (cfg_max_timestamps E) \<and>
    length (s_prompt_history s) \<le> unat (cfg_entropy_window E * 2) \<and> \<not> s_is_banned s \<and>
    (\<exists>t. s_tier s = tier_i32 E t) \<and> (s_tier s \<noteq> tier_i32 E Clean \<longrightarrow> s_noise_seed s \<noteq> None)"
  using session_store.reachable_get [OF assms] by (auto simp: session_wf_def)

theorem stored_sessions_well_formed_witness:
  "\<exists>\<sigma> s. demo_reachable \<sigma> \<and>
     session_get True id mem_redis null_json ''session1'' (sys_store \<sigma>) = Inr (Inr (Some s)) \<and>
     length (s_timestamps s) \<le> 50 \<and> \<not> s_is_banned s"
proof -
  obtain l where r: "demo_reachable (demo_system [PersistSession demo_session 3600, InsertLog l])"
    and st: "demo_step (demo_system [PersistSession demo_session 3600, InsertLog l])
       ((demo_system [InsertLog l])\<lparr>sys_store := [(session_key ''session1'', stored_text demo_session)]\<rparr>)"
    by (rule demo_run)
  let ?\<sigma> = "(demo_system [InsertLog l])\<lparr>sys_store := [(session_key ''session1'', stored_text demo_session)]\<rparr>"
  have g: "session_get True id mem_redis null_json ''session1'' (sys_store ?\<sigma>) = Inr (Inr (Some demo_session))"
    by (simp add: session_get_def demo_trace demo_session_facts mem_redis_def)
  have reach: "demo_reachable ?\<sigma>" by (rule reachable.step [OF r st])
  from stored_sessions_well_formed [OF mem.session_store_axioms reach g]
  have "length (s_timestamps demo_session) \<le> 50 \<and> \<not> s_is_banned demo_session" by (simp add: demo_engine_def)
  then show ?thesis using reach g by blast
qed

text \<open>
  C6. The running engine refines a map of sessions: each of its steps either leaves the map as it
  is, or forgets one session, or stores one of the pending sessions under its own hash. No step
  touches two sessions or stores anything a request did not spawn.
\<close>

theorem engine_refines_session_map:
  assumes "session_store D content J" "step E C D content J Q \<sigma> \<sigma>'"
  shows "spec_step (comes_back J) (pending (sys_tasks \<sigma>)) (sessions_of content J (sys_store \<sigma>)) (sessions_of content J (sys_store \<sigma>'))"
  by (rule session_store.step_refines [OF assms])

theorem engine_refines_session_map_witness:
  "\<exists>r'. spec_step (comes_back null_json) {demo_session} (\<lambda>_. None) (sessions_of map_of null_json r') \<and>
     sessions_of map_of null_json r' ''session1'' = Some demo_session"
proof (rule demo_run)
  fix l
  assume st: "demo_step (demo_system [PersistSession demo_session 3600, InsertLog l])
       ((demo_system [InsertLog l])\<lparr>sys_store := [(session_key ''session1'', stored_text demo_session)]\<rparr>)"
  have p: "pending [PersistSession demo_session 3600, InsertLog l] = {demo_session}"
    by (auto simp: pending_def)
  have e: "sessions_of map_of null_json [] = (\<lambda>_. None)" by (simp add: sessions_of_def fun_eq_iff)
  show ?thesis
    using engine_refines_session_map [OF mem.session_store_axioms st] unfolding system.simps p e
    by (intro exI [of _ "[(session_key ''session1'', stored_text demo_session)]"] conjI)
       (simp_all add: sessions_of_def demo_session_facts)
qed

text \<open>
  C29. Lost update: of two requests of one session handled before either of their writes ran, both
  persist the same count, one more than the stored one, and whichever write runs last leaves a
  session that never saw the other request.
\<close>

theorem concurrent_requests_count_once:
  assumes "session_store D content J" "rq_session_id_hash req1 = rq_session_id_hash req2"
    and "handle_infer E C D J V1 req1 r = (Inr (Inr resp1), ts1)" "PersistSession s1 ttl1 \<in> set ts1"
    and "handle_infer E C D J V2 req2 r = (Inr (Inr resp2), ts2)" "PersistSession s2 ttl2 \<in> set ts2"
  shows "s_request_count s1 = s_request_count s2 \<and>
    (\<exists>old. s_prompt_history s1 = keep_last (unat (cfg_entropy_window E * 2)) (old @ [rq_prompt req1]) \<and>
           s_prompt_history s2 = keep_last (unat (cfg_entropy_window E * 2)) (old @ [rq_prompt req2]) \<and>
           s_request_count s2 = 1 + (case sessions_of content J r (rq_session_id_hash req2) of None \<Rightarrow> 0 | Some s \<Rightarrow> s_request_count s))"
proof -
  obtain o1 t1 where 1: "load_session E D J V1 (rq_session_id_hash req1) r = Inr (Inr o1)" "evolved E V1 req1 t1 o1 s1"
    using answered_persists [OF assms(3,4)] by blast
  obtain o2 t2 where 2: "load_session E D J V2 (rq_session_id_hash req2) r = Inr (Inr o2)" "evolved E V2 req2 t2 o2 s2"
    using answered_persists [OF assms(5,6)] by blast
  note l = session_store.load_reads_map [OF assms(1) 1(1)] session_store.load_reads_map [OF assms(1) 2(1)]
  have "s_request_count o1 = s_request_count o2 \<and> s_prompt_history o1 = s_prompt_history o2 \<and>
    s_request_count o2 = (case sessions_of content J r (rq_session_id_hash req2) of None \<Rightarrow> 0 | Some s \<Rightarrow> s_request_count s)"
    unfolding l assms(2) by (simp add: session_new_def split: option.splits)
  with 1(2) 2(2) show ?thesis
    unfolding evolved_def by (intro conjI exI [of _ "s_prompt_history o1"]) simp_all
qed

theorem concurrent_requests_count_once_witness:
  "\<exists>resp1 ts1 resp2 ts2 s1 s2.
     demo_infer demo_env ''hello'' [] = (Inr (Inr resp1), ts1) \<and> PersistSession s1 3600 \<in> set ts1 \<and>
     demo_infer (demo_env\<lparr>at_start := 6\<rparr>) ''steal'' [] = (Inr (Inr resp2), ts2) \<and> PersistSession s2 3600 \<in> set ts2 \<and>
     s_request_count s1 = 1 \<and> s_request_count s2 = 1"
proof -
  obtain resp1 l where 1: "demo_infer demo_env ''hello'' [] = (Inr (Inr resp1), [PersistSession demo_session 3600, InsertLog l])"
    by (rule demo_hello)
  obtain resp2 ts2 s2 where 2: "demo_infer (demo_env\<lparr>at_start := 6\<rparr>) ''steal'' [] = (Inr (Inr resp2), ts2)"
    "PersistSession s2 3600 \<in> set ts2"
    by (simp add: demo_defs)
  have h: "rq_session_id_hash (demo_request ''hello'') = rq_session_id_hash (demo_request ''steal'')"
    by (simp add: demo_request_def)
  have m: "PersistSession demo_session 3600 \<in> set [PersistSession demo_session 3600, InsertLog l]" by simp
  have "s_request_count demo_session = s_request_count s2"
    using concurrent_requests_count_once [OF mem.session_store_axioms h 1 m 2] by (rule conjunct1)
  moreover have "s_request_count demo_session = 1" by (simp add: demo_session_def)
  ultimately have "s_request_count demo_session = 1 \<and> s_request_count s2 = 1" by simp
  then show ?thesis using 1 m 2 by blast
qed

text \<open>
  C11. The query log is honest. In every reachable state, what \<open>list_recent\<close> returns is the newest rows
  of the log, as many as the limit asks for or the log has, newest first, and every entry is the record
  of one classified request: its prompt only as a hash, its tier the classifier's, and its noise flag
  set exactly when that tier is not the clean one.
\<close>

theorem query_log_is_honest:
  assumes "postgres_laws C Q table" "reachable E C' D content J Q table \<sigma>"
    and "list_recent Q n (sys_logs \<sigma>) = Inr ls"
  shows "length ls = min (nat (sint n)) (size (table (sys_logs \<sigma>))) \<and>
    sorted_wrt (\<lambda>a b. dt_le C (ql_timestamp b) (ql_timestamp a)) ls \<and>
    (\<exists>older. table (sys_logs \<sigma>) = image_mset log_row (mset ls + older) \<and>
       (\<forall>a \<in> set ls. \<forall>b \<in># older. dt_le C (ql_timestamp b) (ql_timestamp a))) \<and>
    (\<forall>l \<in> set ls. \<exists>sc duration prompt.
       ql_tier l = tier_i32 E (classify E sc duration) \<and> ql_hybrid_score l = is_hybrid sc \<and>
       ql_noise_applied l = (classify E sc duration \<noteq> Clean) \<and> ql_prompt_hash l = hash_prompt E prompt)"
proof (intro conjI ballI)
  obtain logs where logs: "table (sys_logs \<sigma>) = image_mset log_row logs" "\<forall>l \<in># logs. logged E l"
    using postgres_laws.reachable_log_inv [OF assms(1,2)] by (auto simp: log_inv_def)
  note k = postgres_laws.list_recent_logs [OF assms(1) logs(1) assms(3)]
  show "length ls = min (nat (sint n)) (size (table (sys_logs \<sigma>)))" using k(3) logs(1) by simp
  show "sorted_wrt (\<lambda>a b. dt_le C (ql_timestamp b) (ql_timestamp a)) ls" by (rule k(1))
  have "table (sys_logs \<sigma>) = image_mset log_row (mset ls + (logs - mset ls))" using k(2) logs(1) by simp
  with k(4) show "\<exists>older. table (sys_logs \<sigma>) = image_mset log_row (mset ls + older) \<and>
      (\<forall>a \<in> set ls. \<forall>b \<in># older. dt_le C (ql_timestamp b) (ql_timestamp a))" by blast
  fix l assume "l \<in> set ls"
  then have "l \<in># logs" using k(2) by (meson mset_subset_eqD set_mset_mset in_multiset_in_set)
  then obtain V req sc duration where
    l: "l = make_log E V req sc (classify E sc duration) (classify E sc duration \<noteq> Clean)"
    using logs(2) by (auto simp: logged_def Let_def)
  show "\<exists>sc duration prompt. ql_tier l = tier_i32 E (classify E sc duration) \<and> ql_hybrid_score l = is_hybrid sc \<and>
       ql_noise_applied l = (classify E sc duration \<noteq> Clean) \<and> ql_prompt_hash l = hash_prompt E prompt"
    unfolding l by (intro exI [of _ sc] exI [of _ duration] exI [of _ "rq_prompt req"]) (simp add: make_log_def)
qed

theorem query_log_is_honest_witness:
  "\<exists>\<sigma> l. demo_reachable \<sigma> \<and> list_recent mem_postgres 10 (sys_logs \<sigma>) = Inr [l] \<and>
     (ql_noise_applied l \<longleftrightarrow> ql_tier l \<noteq> 1)"
proof (rule demo_run)
  fix l
  let ?before = "demo_system [PersistSession demo_session 3600, InsertLog l]"
  let ?after = "?before\<lparr>sys_logs := [log_row l], sys_tasks := [PersistSession demo_session 3600] @ []\<rparr>"
  assume r: "demo_reachable ?before"
  have "demo_step ?before ?after"
  proof (rule step.log)
    show "logs_insert mem_postgres l (sys_logs ?before) = (Inr (), [log_row l])"
      by (simp add: logs_insert_def mem_postgres_def log_row_def)
  qed simp
  then have reach: "demo_reachable ?after" by (rule reachable.step [OF r])
  have q: "list_recent mem_postgres 10 (sys_logs ?after) = Inr [l]"
    by (simp add: list_recent_def mem_postgres_def recent_sel_limit selected_log_row read_log_row)
  obtain sc duration where "ql_tier l = tier_i32 demo_engine (classify demo_engine sc duration)"
    "ql_noise_applied l = (classify demo_engine sc duration \<noteq> Clean)"
    using query_log_is_honest [OF mem_pg.postgres_laws_axioms reach q] by auto
  then have "ql_noise_applied l \<longleftrightarrow> ql_tier l \<noteq> 1" by (simp add: demo_engine_def)
  then show ?thesis using reach q by blast
qed

end
