(* ===== verification/Background.thy ===== *)
theory Background
  imports System
begin

text \<open>
  The spawned tasks on their own: what happens between two requests, while Redis and PostgreSQL accept
  what they are sent and only the tasks the handlers left behind run. Every log line lands once, and
  of the sessions written for one client the last write stays, whichever that is.
\<close>

section \<open>Task steps\<close>

text \<open>One task runs to its end; the audit entry goes to neither store.\<close>

inductive task_step ::
    "('d, 'e) engine \<Rightarrow> ('r, 'e, 'j) redis \<Rightarrow> ('d, 'j) json \<Rightarrow> ('d, 'e, 't) postgres \<Rightarrow>
     ('r, 'd, 't) system \<Rightarrow> ('r, 'd, 't) system \<Rightarrow> bool"
  for E :: "('d, 'e) engine" and D :: "('r, 'e, 'j) redis" and J :: "('d, 'j) json"
    and Q :: "('d, 'e, 't) postgres" where
  persist: "sys_tasks \<sigma> = xs @ PersistSession s ttl # ys \<Longrightarrow>
     session_set (cfg_traced E) (internal_error E) D J s ttl (sys_store \<sigma>) = (res', r') \<Longrightarrow>
     task_step E D J Q \<sigma> (\<sigma>\<lparr>sys_store := r', sys_tasks := xs @ ys\<rparr>)"
| log: "sys_tasks \<sigma> = xs @ InsertLog l # ys \<Longrightarrow>
     logs_insert Q l (sys_logs \<sigma>) = (res, t') \<Longrightarrow>
     task_step E D J Q \<sigma> (\<sigma>\<lparr>sys_logs := t', sys_tasks := xs @ ys\<rparr>)"
| audit: "sys_tasks \<sigma> = xs @ SubmitRekor hash sc duration seed # ys \<Longrightarrow>
     task_step E D J Q \<sigma> (\<sigma>\<lparr>sys_tasks := xs @ ys\<rparr>)"

abbreviation task_steps ::
    "('d, 'e) engine \<Rightarrow> ('r, 'e, 'j) redis \<Rightarrow> ('d, 'j) json \<Rightarrow> ('d, 'e, 't) postgres \<Rightarrow>
     ('r, 'd, 't) system \<Rightarrow> ('r, 'd, 't) system \<Rightarrow> bool" where
  "task_steps E D J Q \<equiv> (task_step E D J Q)\<^sup>*\<^sup>*"

definition pending_logs :: "'d task list \<Rightarrow> 'd query_log multiset" where
  "pending_logs ts = mset (concat (map (\<lambda>t. case t of InsertLog l \<Rightarrow> [l] | _ \<Rightarrow> []) ts))"

definition pending_of :: "string \<Rightarrow> 'd task list \<Rightarrow> 'd session set" where
  "pending_of h ts = {s \<in> pending ts. s_id_hash s = h}"

lemma pending_logs_append [simp]: "pending_logs (xs @ ys) = pending_logs xs + pending_logs ys"
  by (simp add: pending_logs_def)

lemma pending_logs_Nil [simp]: "pending_logs [] = {#}"
  by (simp add: pending_logs_def)

lemma pending_logs_Cons:
  "pending_logs (t # ys) = (case t of InsertLog l \<Rightarrow> {#l#} | _ \<Rightarrow> {#}) + pending_logs ys"
  by (cases t) (simp_all add: pending_logs_def)

lemma pending_of_Nil [simp]: "pending_of h [] = {}"
  by (simp add: pending_of_def pending_def)

lemma pending_of_drop:
  "pending_of h (xs @ ys) \<subseteq> pending_of h (xs @ t # ys)"
  "\<nexists>s ttl. t = PersistSession s ttl \<and> s_id_hash s = h \<Longrightarrow> pending_of h (xs @ t # ys) = pending_of h (xs @ ys)"
  by (auto simp: pending_of_def pending_def)

lemma task_step_step: "task_step E D J Q \<sigma> \<sigma>' \<Longrightarrow> step E C D content J Q \<sigma> \<sigma>'"
  by (erule task_step.cases) (auto intro: step.intros)

lemma task_step_shrinks: "task_step E D J Q \<sigma> \<sigma>' \<Longrightarrow> length (sys_tasks \<sigma>) = Suc (length (sys_tasks \<sigma>'))"
  by (erule task_step.cases) simp_all

text \<open>Each pending task can be the one that runs.\<close>

lemma task_step_any:
  assumes "sys_tasks \<sigma> = xs @ t # ys"
  shows "\<exists>\<sigma>'. task_step E D J Q \<sigma> \<sigma>' \<and> sys_tasks \<sigma>' = xs @ ys"
proof (cases t)
  case (SubmitRekor hash sc duration seed)
  then show ?thesis using task_step.audit [of \<sigma> xs hash sc duration seed ys] assms by fastforce
next
  case (PersistSession s ttl)
  obtain res' r' where "session_set (cfg_traced E) (internal_error E) D J s ttl (sys_store \<sigma>) = (res', r')" by fastforce
  from task_step.persist [OF assms [unfolded PersistSession] this] show ?thesis by fastforce
next
  case (InsertLog l)
  obtain res t' where "logs_insert Q l (sys_logs \<sigma>) = (res, t')" by fastforce
  from task_step.log [OF assms [unfolded InsertLog] this] show ?thesis by fastforce
qed

lemma task_step_exists: "sys_tasks \<sigma> \<noteq> [] \<Longrightarrow> \<exists>\<sigma>'. task_step E D J Q \<sigma> \<sigma>'"
  using task_step_any [of \<sigma> "[]"] by (cases "sys_tasks \<sigma>") fastforce+

text \<open>The tasks around a chosen one can all run before it.\<close>

lemma all_but_one:
  "sys_tasks \<sigma> = xs @ t # ys \<Longrightarrow> \<exists>\<sigma>'. task_steps E D J Q \<sigma> \<sigma>' \<and> sys_tasks \<sigma>' = [t]"
proof (induction "length (xs @ ys)" arbitrary: \<sigma> xs ys)
  case (Suc n)
  have "\<exists>xs' ys' \<sigma>1. task_step E D J Q \<sigma> \<sigma>1 \<and> sys_tasks \<sigma>1 = xs' @ t # ys' \<and> n = length (xs' @ ys')"
  proof (cases xs)
    case Nil
    then obtain u ys' where "ys = u # ys'" "n = length ys'" using Suc(2) by (cases ys) auto
    with Nil task_step_any [of \<sigma> "[t]" u ys' E D J Q] Suc(3) show ?thesis
      by (metis append_Cons append_Nil)
  next
    case (Cons u xs')
    then have "n = length (xs' @ ys)" using Suc(2) by simp
    with Cons task_step_any [of \<sigma> "[]" u "xs' @ t # ys" E D J Q] Suc(3) show ?thesis
      by (metis append_Cons append_Nil)
  qed
  then show ?case using Suc(1) by (metis converse_rtranclp_into_rtranclp)
qed fastforce

section \<open>Accepting stores\<close>

definition writable :: "('d, 'e) engine \<Rightarrow> ('d, 'j) json \<Rightarrow> 'd session \<Rightarrow> bool" where
  "writable E J s \<longleftrightarrow> trace_prefix (cfg_traced E) (s_id_hash s) = Inr () \<and> (\<exists>j. to_json J s = Inr j)"

text \<open>Both stores keep their laws and accept every write.\<close>

locale accepting = session_store D content J + postgres_laws C Q table
  for D :: "('r, 'e, 'j) redis" and content :: "'r \<Rightarrow> string \<Rightarrow> 'j option" and J :: "('d, 'j) json"
    and C :: "'d chrono" and Q :: "('d, 'e, 't) postgres" and table :: "'t \<Rightarrow> 'd row multiset" +
  assumes set_accepted: "fst (rd_set_ex D k j ttl r) = Inr ()"
    and insert_accepted: "fst (pg_insert Q cs vs t) = Inr ()"
begin

lemma persisted:
  assumes "writable E J s" "session_set (cfg_traced E) (internal_error E) D J s ttl r = (res, r')"
  shows "sessions_of content J r' = (sessions_of content J r)(s_id_hash s := comes_back J s)"
proof -
  obtain j where j: "trace_prefix (cfg_traced E) (s_id_hash s) = Inr ()" "to_json J s = Inr j"
    using assms(1) by (auto simp: writable_def)
  have "res = Inr (Inr ())"
    using assms(2) j set_accepted [of "session_key (s_id_hash s)" j ttl r] by (auto simp: session_set_def split: prod.splits)
  then obtain j' where "to_json J s = Inr j'" "content r' = (content r)(session_key (s_id_hash s) \<mapsto> j')"
    using set_content assms(2) by blast
  then show ?thesis by (rule sessions_of_set)
qed

lemma inserted:
  assumes "logs_insert Q l t = (res, t')"
  shows "table t' = add_mset (log_row l) (table t)"
proof -
  have "res = Inr ()" using assms insert_accepted unfolding logs_insert_def by (metis fst_conv)
  then show ?thesis using insert_ok [of _ _ t "()" t'] assms by (simp add: logs_insert_def log_row_def)
qed

lemma task_step_logs:
  assumes "task_step E D J Q \<sigma> \<sigma>'"
  shows "table (sys_logs \<sigma>') + image_mset log_row (pending_logs (sys_tasks \<sigma>')) =
    table (sys_logs \<sigma>) + image_mset log_row (pending_logs (sys_tasks \<sigma>))"
  using assms
proof cases
  case (log xs l ys res t')
  then show ?thesis using inserted [OF log(3)] by (simp add: pending_logs_Cons)
qed (auto simp: pending_logs_Cons)

lemma task_run_logs:
  "task_steps E D J Q \<sigma> \<sigma>' \<Longrightarrow>
   table (sys_logs \<sigma>') + image_mset log_row (pending_logs (sys_tasks \<sigma>')) =
   table (sys_logs \<sigma>) + image_mset log_row (pending_logs (sys_tasks \<sigma>))"
  by (induction rule: rtranclp_induct) (auto simp: task_step_logs)

lemma task_step_sessions:
  assumes "task_step E D J Q \<sigma> \<sigma>'" "\<forall>s \<in> pending (sys_tasks \<sigma>). writable E J s"
  shows "pending_of h (sys_tasks \<sigma>') \<subseteq> pending_of h (sys_tasks \<sigma>) \<and>
    (sessions_of content J (sys_store \<sigma>') h = sessions_of content J (sys_store \<sigma>) h \<and>
       pending_of h (sys_tasks \<sigma>') = pending_of h (sys_tasks \<sigma>) \<or>
     (\<exists>s \<in> pending_of h (sys_tasks \<sigma>). sessions_of content J (sys_store \<sigma>') h = comes_back J s))"
  using assms(1)
proof cases
  case (persist xs s ttl ys res' r')
  have p: "s \<in> pending (sys_tasks \<sigma>)" using persist(2) by (auto simp: pending_def)
  note w = persisted [OF bspec [OF assms(2) p] persist(3)]
  have sub: "pending_of h (sys_tasks \<sigma>') \<subseteq> pending_of h (sys_tasks \<sigma>)"
    using persist(1,2) pending_of_drop(1) by simp
  show ?thesis
  proof (cases "s_id_hash s = h")
    case True
    then have "s \<in> pending_of h (sys_tasks \<sigma>)" using p by (simp add: pending_of_def)
    then show ?thesis using sub w True persist(1) by fastforce
  next
    case False
    then have "pending_of h (sys_tasks \<sigma>') = pending_of h (sys_tasks \<sigma>)"
      using persist(1,2) pending_of_drop(2) [of "PersistSession s ttl" h xs ys] by simp
    then show ?thesis using w False persist(1) by simp
  qed
qed (simp_all add: pending_of_drop(2))

lemma pending_mono: "task_step E D J Q \<sigma> \<sigma>' \<Longrightarrow> pending (sys_tasks \<sigma>') \<subseteq> pending (sys_tasks \<sigma>)"
  by (erule task_step.cases) (auto simp: pending_def)

lemma task_run_sessions:
  assumes "task_steps E D J Q \<sigma> \<sigma>'" "\<forall>s \<in> pending (sys_tasks \<sigma>). writable E J s"
  shows "pending (sys_tasks \<sigma>') \<subseteq> pending (sys_tasks \<sigma>) \<and>
    pending_of h (sys_tasks \<sigma>') \<subseteq> pending_of h (sys_tasks \<sigma>) \<and>
    (sessions_of content J (sys_store \<sigma>') h = sessions_of content J (sys_store \<sigma>) h \<and>
       pending_of h (sys_tasks \<sigma>') = pending_of h (sys_tasks \<sigma>) \<or>
     (\<exists>s \<in> pending_of h (sys_tasks \<sigma>). sessions_of content J (sys_store \<sigma>') h = comes_back J s))"
  using assms(1)
proof (induction rule: rtranclp_induct)
  case (step \<sigma>1 \<sigma>2)
  have "\<forall>s \<in> pending (sys_tasks \<sigma>1). writable E J s" using step.IH assms(2) by blast
  then show ?case using task_step_sessions [OF step(2), of h] pending_mono [OF step(2)] step.IH by auto
qed simp

lemma chosen_last:
  assumes "sys_tasks \<sigma> = xs @ PersistSession s ttl # ys" "writable E J s"
  shows "\<exists>\<sigma>'. task_steps E D J Q \<sigma> \<sigma>' \<and> sys_tasks \<sigma>' = [] \<and>
    sessions_of content J (sys_store \<sigma>') (s_id_hash s) = comes_back J s"
proof -
  obtain \<sigma>1 where r: "task_steps E D J Q \<sigma> \<sigma>1" "sys_tasks \<sigma>1 = [] @ PersistSession s ttl # []"
    using all_but_one [OF assms(1), of E D J Q] by auto
  obtain res' r' where w: "session_set (cfg_traced E) (internal_error E) D J s ttl (sys_store \<sigma>1) = (res', r')" by fastforce
  let ?\<sigma> = "\<sigma>1\<lparr>sys_store := r', sys_tasks := [] @ []\<rparr>"
  have "task_steps E D J Q \<sigma> ?\<sigma>" by (rule rtranclp.rtrancl_into_rtrancl [OF r(1) task_step.persist [OF r(2) w]])
  then show ?thesis using persisted [OF assms(2) w] by (intro exI [of _ ?\<sigma>]) simp
qed

end

interpretation mem_accepting: accepting mem_redis map_of null_json chrono_ns mem_postgres mset
  by unfold_locales (simp_all add: mem_redis_def mem_postgres_def)

section \<open>Properties\<close>

text \<open>
  C31. With both stores accepting writes, the spawned work lands. However the tasks are ordered, once no
  task can run none is left, every pending log line is in the table, each once and beside what was
  there, and every client with a pending write holds one of the pending sessions, as JSON gives it
  back, while the others hold what they held. Which one is not determined: each pending session is
  the one some order leaves behind.
\<close>

theorem background_work_lands:
  assumes "accepting D content J C Q table" "\<forall>s \<in> pending (sys_tasks \<sigma>). writable E J s"
  shows "(\<forall>\<sigma>'. task_steps E D J Q \<sigma> \<sigma>' \<and> (\<nexists>\<sigma>''. task_step E D J Q \<sigma>' \<sigma>'') \<longrightarrow>
      sys_tasks \<sigma>' = [] \<and>
      table (sys_logs \<sigma>') = table (sys_logs \<sigma>) + image_mset log_row (pending_logs (sys_tasks \<sigma>)) \<and>
      (\<forall>h. if pending_of h (sys_tasks \<sigma>) = {}
           then sessions_of content J (sys_store \<sigma>') h = sessions_of content J (sys_store \<sigma>) h
           else \<exists>s \<in> pending_of h (sys_tasks \<sigma>). sessions_of content J (sys_store \<sigma>') h = comes_back J s)) \<and>
    (\<forall>s \<in> pending (sys_tasks \<sigma>). \<exists>\<sigma>'. task_steps E D J Q \<sigma> \<sigma>' \<and> sys_tasks \<sigma>' = [] \<and>
      sessions_of content J (sys_store \<sigma>') (s_id_hash s) = comes_back J s)"
proof (intro conjI allI impI ballI)
  fix \<sigma>' assume r: "task_steps E D J Q \<sigma> \<sigma>' \<and> (\<nexists>\<sigma>''. task_step E D J Q \<sigma>' \<sigma>'')"
  then show empty: "sys_tasks \<sigma>' = []" using task_step_exists by blast
  show "table (sys_logs \<sigma>') = table (sys_logs \<sigma>) + image_mset log_row (pending_logs (sys_tasks \<sigma>))"
    using accepting.task_run_logs [OF assms(1)] r empty by fastforce
  show "if pending_of h (sys_tasks \<sigma>) = {}
      then sessions_of content J (sys_store \<sigma>') h = sessions_of content J (sys_store \<sigma>) h
      else \<exists>s \<in> pending_of h (sys_tasks \<sigma>). sessions_of content J (sys_store \<sigma>') h = comes_back J s" for h
    using accepting.task_run_sessions [OF assms(1) _ assms(2), of \<sigma>' h] r empty by auto
next
  fix s assume s: "s \<in> pending (sys_tasks \<sigma>)"
  then obtain xs ttl ys where "sys_tasks \<sigma> = xs @ PersistSession s ttl # ys"
    unfolding pending_def by (auto dest: split_list)
  then show "\<exists>\<sigma>'. task_steps E D J Q \<sigma> \<sigma>' \<and> sys_tasks \<sigma>' = [] \<and>
      sessions_of content J (sys_store \<sigma>') (s_id_hash s) = comes_back J s"
    using accepting.chosen_last [OF assms(1)] assms(2) s by blast
qed

text \<open>Two writes of one client: either may stay.\<close>

theorem background_work_lands_witness:
  "\<exists>second. second \<noteq> demo_session \<and>
     (\<forall>s \<in> {demo_session, second}. \<exists>\<sigma>'.
        task_steps demo_engine mem_redis null_json mem_postgres
          (demo_system [PersistSession demo_session 3600, PersistSession second 3600]) \<sigma>' \<and>
        sys_tasks \<sigma>' = [] \<and> sessions_of map_of null_json (sys_store \<sigma>') ''session1'' = Some s)"
proof -
  define second where "second = demo_session\<lparr>s_prompt_history := [''steal'']\<rparr>"
  let ?\<sigma> = "demo_system [PersistSession demo_session 3600, PersistSession second 3600]"
  have p: "pending (sys_tasks ?\<sigma>) = {demo_session, second}" by (auto simp: pending_def)
  have f: "s_id_hash s = ''session1''" "floats_finite s" if "s \<in> {demo_session, second}" for s
    using that by (auto simp: second_def demo_session_def floats_finite_def)
  have traced: "cfg_traced demo_engine = True" by (simp add: demo_engine_def)
  have w: "\<forall>s \<in> pending (sys_tasks ?\<sigma>). writable demo_engine null_json s"
    unfolding p writable_def traced by (intro ballI) (simp only: f(1) demo_trace to_json_nulls, blast)
  have b: "comes_back null_json s = Some s" if "s \<in> {demo_session, second}" for s
    using f [OF that] by (simp add: comes_back_def)
  have "\<exists>\<sigma>'. task_steps demo_engine mem_redis null_json mem_postgres ?\<sigma> \<sigma>' \<and> sys_tasks \<sigma>' = [] \<and>
      sessions_of map_of null_json (sys_store \<sigma>') ''session1'' = Some s" if "s \<in> {demo_session, second}" for s
    using bspec [OF conjunct2 [OF background_work_lands [where E = demo_engine, OF mem_accepting.accepting_axioms w]], of s]
    unfolding p f(1) [OF that] b [OF that] using that by (rule meta_mp)
  moreover have "second \<noteq> demo_session" by (simp add: second_def demo_session_def)
  ultimately show ?thesis by blast
qed

end
