(* ===== verification/Lockout.thy ===== *)
theory Lockout
  imports System
begin

text \<open>
  What a session that JSON cannot hold does to its client. The text stored for it has a \<open>null\<close> where a
  float belongs, and it stays: a request of its hash fails before it can spawn the write that would
  replace it. \<open>locked\<close> is the invariant of that situation, kept by every step of the engine but
  the deletion and the expiry of the key.
\<close>

section \<open>The invariant\<close>

definition unreadable ::
    "('r \<Rightarrow> string \<Rightarrow> 'j option) \<Rightarrow> ('d, 'j) json \<Rightarrow> string \<Rightarrow> 'r \<Rightarrow> bool" where
  "unreadable content J h r \<longleftrightarrow> (\<exists>j m. content r (session_key h) = Some j \<and> from_json J j = Inl m)"

definition locked ::
    "('r \<Rightarrow> string \<Rightarrow> 'j option) \<Rightarrow> ('d, 'j) json \<Rightarrow> string \<Rightarrow> ('r, 'd, 't) system \<Rightarrow> bool" where
  "locked content J h \<sigma> \<longleftrightarrow> unreadable content J h (sys_store \<sigma>) \<and>
     (\<forall>s \<in> pending (sys_tasks \<sigma>). s_id_hash s = h \<longrightarrow> \<not> floats_finite s)"

text \<open>A step of the engine after which the key of the hash is still there.\<close>

definition keeping ::
    "('d, 'e) engine \<Rightarrow> 'd chrono \<Rightarrow> ('r, 'e, 'j) redis \<Rightarrow> ('r \<Rightarrow> string \<Rightarrow> 'j option) \<Rightarrow> ('d, 'j) json \<Rightarrow>
     ('d, 'e, 't) postgres \<Rightarrow> string \<Rightarrow> ('r, 'd, 't) system \<Rightarrow> ('r, 'd, 't) system \<Rightarrow> bool" where
  "keeping E C D content J Q h \<sigma> \<sigma>' \<longleftrightarrow>
     step E C D content J Q \<sigma> \<sigma>' \<and> content (sys_store \<sigma>') (session_key h) \<noteq> None"

lemma spawned_by_answer:
  assumes "handle_infer E C D J V req r = (res, ts)" "PersistSession s ttl \<in> set ts"
  shows "\<exists>resp. res = Inr (Inr resp)"
  using assms(2) by (cases rule: handle_infer_cases [of E C D J V req r])
    (use assms(1) in \<open>auto split: if_splits\<close>)

context session_store
begin

lemma unreadable_get: "unreadable content J h r \<Longrightarrow> session_get traced internal D J h r \<noteq> Inr (Inr v)"
  by (auto simp: unreadable_def elim: get_cases)

lemma unreadable_request:
  assumes "unreadable content J (rq_session_id_hash req) r"
  shows "(\<nexists>resp. fst (handle_infer E C D J V req r) = Inr (Inr resp)) \<and> snd (handle_infer E C D J V req r) = []"
proof -
  have no: "infer_core E C D J V req r \<noteq> Inr (Inr x)" for x
    using load_session_ok(2) unreadable_get [OF assms] by (fastforce simp: infer_core_def)
  show ?thesis by (cases rule: handle_infer_cases [of E C D J V req r]) (simp_all add: no)
qed

text \<open>A request writes under its own hash, since every stored session is under its own.\<close>

lemma request_writes_own_hash:
  assumes "system_inv E content J \<sigma>" "handle_infer E C D J V req (sys_store \<sigma>) = (res, ts)" "PersistSession s ttl \<in> set ts"
  shows "s_id_hash s = rq_session_id_hash req"
proof -
  obtain resp where "handle_infer E C D J V req (sys_store \<sigma>) = (Inr (Inr resp), ts)"
    using spawned_by_answer [OF assms(2,3)] assms(2) by blast
  then obtain s0 t where s: "load_session E D J V (rq_session_id_hash req) (sys_store \<sigma>) = Inr (Inr s0)"
    "evolved E V req t s0 s" by (metis answered_persists [OF _ assms(3)])
  have "s_id_hash s0 = rq_session_id_hash req"
    using load_reads_map [OF s(1)] assms(1) by (auto simp: system_inv_def session_new_def split: option.splits)
  then show ?thesis using s(2) by (simp add: evolved_def)
qed

lemma locked_step:
  assumes "keeping E C D content J Q h \<sigma> \<sigma>'" "system_inv E content J \<sigma>" "locked content J h \<sigma>"
  shows "locked content J h \<sigma>'"
proof -
  have l: "unreadable content J h (sys_store \<sigma>)"
    "\<And>s. s \<in> pending (sys_tasks \<sigma>) \<Longrightarrow> s_id_hash s = h \<Longrightarrow> \<not> floats_finite s"
    using assms(3) by (auto simp: locked_def)
  have k: "content (sys_store \<sigma>') (session_key h) \<noteq> None" using assms(1) by (simp add: keeping_def)
  have "step E C D content J Q \<sigma> \<sigma>'" using assms(1) by (simp add: keeping_def)
  then show ?thesis
  proof cases
    case (request V req res ts)
    have "s_id_hash s \<noteq> h" if "PersistSession s ttl \<in> set ts" for s ttl
    proof
      assume "s_id_hash s = h"
      then have "rq_session_id_hash req = h" using request_writes_own_hash [OF assms(2) request(2) that] by simp
      then have "ts = []" using unreadable_request [of req "sys_store \<sigma>" E C V] l(1) request(2) by simp
      then show False using that by simp
    qed
    then show ?thesis using request(1) l by (auto simp: locked_def pending_def)
  next
    case (persist xs s ttl ys res' r')
    have pend: "pending (xs @ ys) \<subseteq> pending (sys_tasks \<sigma>)" and s: "s \<in> pending (sys_tasks \<sigma>)"
      using persist(2) by (auto simp: pending_def)
    have "unreadable content J h r'"
    proof (cases rule: set_cases [OF persist(3)])
      case 1
      then show ?thesis using l(1) by (simp add: unreadable_def)
    next
      case (2 j)
      show ?thesis
      proof (cases "s_id_hash s = h")
        case True
        then obtain m where "from_json J j = Inl m" using l(2) [OF s] json_null [OF 2(1)] by blast
        then show ?thesis using 2(2) True by (simp add: unreadable_def)
      qed (use 2(2) l(1) in \<open>simp add: unreadable_def\<close>)
    qed
    then show ?thesis using persist(1) pend l(2) by (auto simp: locked_def)
  next
    case (delete g res'' r')
    show ?thesis
    proof (cases rule: delete_cases [OF delete(2)])
      case 1
      then show ?thesis using delete(1) l by (simp add: locked_def unreadable_def)
    next
      case 2
      then have "g \<noteq> h" using k delete(1) by auto
      then show ?thesis using delete(1) 2 l by (simp add: locked_def unreadable_def)
    qed
  next
    case (expire r' key)
    then have "key \<noteq> session_key h" using k by auto
    then show ?thesis using expire l by (simp add: locked_def unreadable_def)
  qed (use l in \<open>auto simp: locked_def pending_def\<close>)
qed

lemma locked_run:
  assumes "(keeping E C D content J Q h)\<^sup>*\<^sup>* \<sigma> \<sigma>'" "system_inv E content J \<sigma>" "locked content J h \<sigma>"
  shows "system_inv E content J \<sigma>' \<and> locked content J h \<sigma>'"
  using assms(1)
proof (induction rule: rtranclp_induct)
  case (step \<sigma>1 \<sigma>2)
  have "step E C D content J Q \<sigma>1 \<sigma>2" using step(2) by (simp add: keeping_def)
  then show ?case using step_inv locked_step [OF step(2)] step.IH by blast
qed (use assms in simp)

end

section \<open>Properties\<close>

text \<open>
  C28. A request scored NaN or infinity locks its session out for good. Once its write has run, and no
  other write of that hash with finite floats is waiting, then in every state the engine reaches
  from there while the key exists, through any requests, writes, losses, deletions and expiries, a
  request of that hash is not answered and spawns nothing.
\<close>

theorem non_finite_score_locks_out:
  assumes "session_store D content J" "reachable E C D content J Q table \<sigma>"
    and "handle_infer E C D J V req r = (Inr (Inr resp), ts)" "\<not> is_fin (rs_hybrid_score resp)" "PersistSession s ttl \<in> set ts"
    and "sys_tasks \<sigma> = xs @ PersistSession s ttl # ys"
    and "session_set (cfg_traced E) (internal_error E) D J s ttl (sys_store \<sigma>) = (Inr (Inr u), r1)"
    and "\<forall>s' \<in> pending (xs @ ys). s_id_hash s' = s_id_hash s \<longrightarrow> \<not> floats_finite s'"
    and "(keeping E C D content J Q (s_id_hash s))\<^sup>*\<^sup>* (\<sigma>\<lparr>sys_store := r1, sys_tasks := xs @ ys\<rparr>) \<sigma>'"
    and "rq_session_id_hash req' = s_id_hash s"
  shows "(\<nexists>resp'. fst (handle_infer E C D J V' req' (sys_store \<sigma>')) = Inr (Inr resp')) \<and>
    snd (handle_infer E C D J V' req' (sys_store \<sigma>')) = []"
proof -
  let ?\<sigma> = "\<sigma>\<lparr>sys_store := r1, sys_tasks := xs @ ys\<rparr>"
  have inv: "system_inv E content J ?\<sigma>"
    by (rule session_store.reachable_inv [OF assms(1) reachable.step [OF assms(2) step.persist [OF assms(6,7)]]])
  have "\<not> floats_finite s" using answered_persists [OF assms(3,5)] assms(4) by (auto simp: floats_finite_def)
  then have "unreadable content J (s_id_hash s) r1"
    using session_store.set_content [OF assms(1,7)] json_laws.json_null [OF session_store.axioms(2) [OF assms(1)]]
    unfolding unreadable_def by (metis fun_upd_same)
  then have "locked content J (s_id_hash s) ?\<sigma>" using assms(8) by (simp add: locked_def)
  then have "locked content J (s_id_hash s) \<sigma>'" using session_store.locked_run [OF assms(1,9) inv] by blast
  then show ?thesis using session_store.unreadable_request [OF assms(1)] assms(10) by (simp add: locked_def)
qed

text \<open>The small engine with a hybrid score of NaN, which no comparison of the classifier lets through.\<close>

definition nan_engine :: "(int, string) engine" where
  "nan_engine = demo_engine
     \<lparr>compute_scores := \<lambda>ctx. map_run (\<lambda>sc. sc\<lparr>is_hybrid := NaN\<rparr>) (compute_scores demo_engine ctx),
      classify := \<lambda>sc duration. if fle (Num 1) (is_hybrid sc) then Malicious else Clean\<rparr>"

abbreviation nan_infer ::
    "(string \<times> json_value) list \<Rightarrow> (string, infer_response) io \<times> int task list" where
  "nan_infer r \<equiv> handle_infer nan_engine chrono_ns mem_redis null_json demo_env (demo_request ''hello'') r"

abbreviation nan_reachable :: "((string \<times> json_value) list, int, int row list) system \<Rightarrow> bool" where
  "nan_reachable \<equiv> reachable nan_engine chrono_ns mem_redis map_of null_json mem_postgres mset"

lemma nan_answer:
  "\<exists>resp s l. nan_infer [] = (Inr (Inr resp), [PersistSession s 3600, InsertLog l]) \<and>
     \<not> is_fin (rs_hybrid_score resp) \<and> s_id_hash s = ''session1''"
  by (simp add: nan_engine_def demo_defs make_response_def)

text \<open>The request has been answered and written; its log line is lost, and the client comes again.\<close>

theorem non_finite_score_locks_out_witness:
  "\<exists>\<sigma>. nan_reachable \<sigma> \<and> sys_store \<sigma> \<noteq> [] \<and> sys_tasks \<sigma> = [] \<and>
     (\<exists>resp. fst (nan_infer []) = Inr (Inr resp)) \<and> (\<nexists>resp. fst (nan_infer (sys_store \<sigma>)) = Inr (Inr resp))"
proof -
  obtain resp s l where a: "nan_infer [] = (Inr (Inr resp), [PersistSession s 3600, InsertLog l])"
    "\<not> is_fin (rs_hybrid_score resp)" "s_id_hash s = ''session1''"
    using nan_answer by blast
  let ?r = "[(session_key ''session1'', stored_text s)]"
  let ?written = "(demo_system [PersistSession s 3600, InsertLog l])\<lparr>sys_store := ?r, sys_tasks := [] @ [InsertLog l]\<rparr>"
  let ?lost = "?written\<lparr>sys_tasks := [] @ []\<rparr>"
  have i: "nan_reachable (demo_system [])" by (rule reachable.initial) (simp_all add: fun_eq_iff)
  have "step nan_engine chrono_ns mem_redis map_of null_json mem_postgres (demo_system [])
      ((demo_system [])\<lparr>sys_tasks := sys_tasks (demo_system []) @ [PersistSession s 3600, InsertLog l]\<rparr>)"
    by (rule step.request [of nan_engine chrono_ns mem_redis null_json demo_env "demo_request ''hello''"]) (simp add: a(1))
  then have r: "nan_reachable (demo_system [PersistSession s 3600, InsertLog l])"
    using reachable.step [OF i] by simp
  have t: "sys_tasks (demo_system [PersistSession s 3600, InsertLog l]) = [] @ PersistSession s 3600 # [InsertLog l]" by simp
  have w: "session_set (cfg_traced nan_engine) (internal_error nan_engine) mem_redis null_json s 3600
      (sys_store (demo_system [PersistSession s 3600, InsertLog l])) = (Inr (Inr ()), ?r)"
    by (simp add: session_set_def a(3) demo_trace mem_redis_def nan_engine_def demo_engine_def)
  have reach: "nan_reachable ?written" by (rule reachable.step [OF r step.persist [OF t w]])
  have k: "step nan_engine chrono_ns mem_redis map_of null_json mem_postgres ?written ?lost"
    by (rule step.lost [where t = "InsertLog l"]) simp
  have run: "(keeping nan_engine chrono_ns mem_redis map_of null_json mem_postgres (s_id_hash s))\<^sup>*\<^sup>* ?written ?lost"
    using k a(3) by (intro r_into_rtranclp) (simp add: keeping_def)
  have p: "\<forall>s' \<in> pending ([] @ [InsertLog l]). s_id_hash s' = s_id_hash s \<longrightarrow> \<not> floats_finite s'"
    by (simp add: pending_def)
  have h: "rq_session_id_hash (demo_request ''hello'') = s_id_hash s" by (simp add: demo_request_def a(3))
  have m: "PersistSession s 3600 \<in> set [PersistSession s 3600, InsertLog l]" by simp
  have "\<nexists>resp. fst (nan_infer (sys_store ?lost)) = Inr (Inr resp)"
    by (rule conjunct1 [OF non_finite_score_locks_out [OF mem.session_store_axioms r a(1,2) m t w p run h]])
  moreover have "nan_reachable ?lost" by (rule reachable.step [OF reach k])
  ultimately show ?thesis using a(1) by (intro exI [of _ ?lost]) simp
qed

end
