(* ===== verification/Testing.thy ===== *)
theory Testing
  imports Prelude
begin

text \<open>
  The \<open>#[test]\<close> functions of the repository. A test is a \<open>unit run\<close>: it panics on an assertion that
  fails, as it does on every panic of the code it calls, and passes when it returns.
\<close>

type_synonym unit_test = "unit run"

definition asserted :: "bool \<Rightarrow> unit_test" where
  "asserted b = (if b then ok () else Inl AssertFailed)"

abbreviation passes :: "unit_test \<Rightarrow> bool" where
  "passes t \<equiv> t = ok ()"

definition both :: "unit_test \<Rightarrow> unit_test \<Rightarrow> unit_test" where
  "both t u = bind_run t (\<lambda>_. u)"

fun run_list :: "'a run list \<Rightarrow> 'a list run" where
  "run_list [] = ok []"
| "run_list (m # ms) = bind_run m (\<lambda>x. map_run ((#) x) (run_list ms))"

lemma passes_asserted [simp]: "passes (asserted b) \<longleftrightarrow> b"
  by (simp add: asserted_def)

lemma passes_both [simp]: "passes (both t u) \<longleftrightarrow> passes t \<and> passes u"
  by (auto simp: both_def)

lemma run_list_ok [simp]: "run_list (map (\<lambda>x. ok (f x)) xs) = ok (map f xs)"
  by (induction xs) simp_all

end
