(* ===== verification/Scoring_Tests.thy ===== *)
theory Scoring_Tests
  imports Signals Testing
begin

text \<open>
  The unit tests of \<open>engine/src/scoring\<close>, each a definition the kernel can run. Instants are
  nanoseconds, the clock does not move during a test, and the elementary functions are the correctly
  rounded ones.
\<close>

section \<open>\<open>scoring/mod.rs\<close>\<close>

definition default_cfg :: scoring_config where
  "default_cfg =
     \<lparr>weight_velocity = flit F32 0.25, weight_divergence = flit F32 0.35,
      weight_entropy = flit F32 0.15, weight_anomaly = flit F32 0.25,
      tier2_score_threshold = flit F32 0.55, tier3_score_threshold = flit F32 0.90,
      tier2_min_duration_mins = flit F32 2, tier3_min_duration_mins = flit F32 10,
      max_rpm = flit F32 30, rpm_window_mins = flit F32 5,
      entropy_window_size = 20, isolation_forest_n_trees = 100,
      isolation_forest_sample_size = 256, max_timestamps_per_session = 50\<rparr>"

definition tier1_low_score_short_session :: unit_test where
  "tier1_low_score_short_session =
     asserted (classify_tier (flit F32 0.30) (flit F32 0.5) False default_cfg = 1)"

definition tier2_score_threshold_test :: unit_test where
  "tier2_score_threshold_test =
     asserted (classify_tier (flit F32 0.55) (flit F32 0) False default_cfg = 2)"

definition tier2_duration_threshold :: unit_test where
  "tier2_duration_threshold =
     asserted (classify_tier (flit F32 0.40) (flit F32 2) False default_cfg = 2)"

definition tier3_requires_both_score_and_duration :: unit_test where
  "tier3_requires_both_score_and_duration =
     both (asserted (classify_tier (flit F32 0.95) (flit F32 5) False default_cfg = 2))
          (asserted (classify_tier (flit F32 0.95) (flit F32 11) False default_cfg = 3))"

definition intent_flag_forces_tier2_minimum :: unit_test where
  "intent_flag_forces_tier2_minimum =
     asserted (classify_tier (flit F32 0.10) (flit F32 0.1) True default_cfg = 2)"

definition hybrid_weights_sum_to_one :: unit_test where
  "hybrid_weights_sum_to_one =
     (let cfg = default_cfg;
          sum = fadd F32 (fadd F32 (fadd F32 (weight_velocity cfg) (weight_divergence cfg)) (weight_entropy cfg))
                  (weight_anomaly cfg)
      in asserted (flt (fabs (fsub F32 sum (flit F32 1))) (flit F32 0.001)))"

definition hybrid_score_clamped_to_unit_range :: unit_test where
  "hybrid_score_clamped_to_unit_range =
     both (asserted (feq (compute_hybrid (flit F32 1) (flit F32 1) (flit F32 1) (flit F32 1) default_cfg) (flit F32 1)))
          (asserted (feq (compute_hybrid (flit F32 0) (flit F32 0) (flit F32 0) (flit F32 0) default_cfg) (flit F32 0)))"

lemma default_cfg_is_default: "default_cfg = default_scoring"
  by (simp add: default_cfg_def default_scoring_def default_f32_def fp_eval)

lemma tier_literals:
  "flit F32 0.30 = Num (10066330 / 33554432)" "flit F32 0.5 = Num (1 / 2)" "flit F32 0.55 = Num (9227469 / 16777216)"
  "flit F32 0 = Num 0" "flit F32 1 = Num 1" "flit F32 0.40 = Num (13421773 / 33554432)" "flit F32 2 = Num 2"
  "flit F32 0.95 = Num (15938355 / 16777216)" "flit F32 5 = Num 5" "flit F32 11 = Num 11"
  "flit F32 0.10 = Num (13421773 / 134217728)" "flit F32 0.1 = Num (13421773 / 134217728)"
  by (simp_all add: fp_eval)

lemma tier_tests:
  "passes tier1_low_score_short_session" "passes tier2_score_threshold_test" "passes tier2_duration_threshold"
  "passes tier3_requires_both_score_and_duration" "passes intent_flag_forces_tier2_minimum"
  unfolding tier1_low_score_short_session_def tier2_score_threshold_test_def tier2_duration_threshold_def
      tier3_requires_both_score_and_duration_def intent_flag_forces_tier2_minimum_def tier_literals default_cfg_is_default
  by (simp_all add: classify_tier_def tier3_reached_def fle_fin flt_fin)

lemma hybrid_tests:
  "passes hybrid_weights_sum_to_one" "passes hybrid_score_clamped_to_unit_range"
proof -
  show "passes hybrid_weights_sum_to_one"
    unfolding hybrid_weights_sum_to_one_def Let_def default_cfg_is_default tier_literals
      weight_sum_def [symmetric] weight_sum_default by (simp add: fp_eval)
  show "passes hybrid_score_clamped_to_unit_range"
    unfolding hybrid_score_clamped_to_unit_range_def tier_literals default_cfg_is_default
    using default_extremes by (simp add: feq_def)
qed

section \<open>\<open>scoring/divergence.rs\<close>\<close>

text \<open>Tests run in debug builds, where \<open>debug_assert_eq!\<close> is checked.\<close>

abbreviation vec32 :: "real list \<Rightarrow> fp list" where
  "vec32 \<equiv> map (flit F32)"

definition identical_vectors_return_one :: unit_test where
  "identical_vectors_return_one =
     (let v = vec32 [0.3, 0.5, 0.2, 0.8, 0.1]
      in bind_run (divergence_compute True v v) (\<lambda>sim.
           asserted (flt (fabs (fsub F32 sim (flit F32 1))) (flit F32 (1 / 10 ^ 5)))))"

definition orthogonal_vectors_return_zero :: unit_test where
  "orthogonal_vectors_return_zero =
     (let a = vec32 [1, 0, 0]; b = vec32 [0, 1, 0]
      in bind_run (divergence_compute True a b) (\<lambda>sim. asserted (flt (fabs sim) (flit F32 (1 / 10 ^ 5)))))"

definition zero_vector_returns_zero :: unit_test where
  "zero_vector_returns_zero =
     (let a = vec32 [0, 0, 0]; b = vec32 [0.5, 0.3, 0.8]
      in bind_run (divergence_compute True a b) (\<lambda>sim. asserted (feq sim (flit F32 0))))"

definition empty_inputs_return_zero :: unit_test where
  "empty_inputs_return_zero = bind_run (divergence_compute True [] []) (\<lambda>sim. asserted (feq sim (flit F32 0)))"

definition result_within_unit_interval :: unit_test where
  "result_within_unit_interval =
     (let a = vec32 [0.1, 0.9, 0.4, 0.2, 0.7]; b = vec32 [0.8, 0.1, 0.5, 0.6, 0.3]
      in bind_run (divergence_compute True a b) (\<lambda>sim. asserted (fle (flit F32 0) sim \<and> fle sim (flit F32 1))))"

definition similar_vectors_score_higher_than_dissimilar :: unit_test where
  "similar_vectors_score_higher_than_dissimilar =
     (let base = vec32 [0.6, 0.5, 0.4, 0.3, 0.2]; similar = vec32 [0.61, 0.49, 0.41, 0.31, 0.21];
          dissimilar = vec32 [0.1, 0.1, 0.9, 0.9, 0.05]
      in bind_run (divergence_compute True base similar) (\<lambda>sim_high.
         bind_run (divergence_compute True base dissimilar) (\<lambda>sim_low. asserted (flt sim_low sim_high))))"

lemmas flit_01 = tier_literals(4,5)

lemma vector_literals:
  "flit F32 0.05 = Num (13421773 / 268435456)"
  "flit F32 0.1 = Num (13421773 / 134217728)"
  "flit F32 0.2 = Num (13421773 / 67108864)"
  "flit F32 0.21 = Num (14092861 / 67108864)"
  "flit F32 0.3 = Num (5033165 / 16777216)"
  "flit F32 0.31 = Num (5200937 / 16777216)"
  "flit F32 0.4 = Num (13421773 / 33554432)"
  "flit F32 0.41 = Num (13757317 / 33554432)"
  "flit F32 0.49 = Num (2055209 / 4194304)"
  "flit F32 0.6 = Num (5033165 / 8388608)"
  "flit F32 0.61 = Num (5117051 / 8388608)"
  "flit F32 0.7 = Num (11744051 / 16777216)"
  "flit F32 0.8 = Num (13421773 / 16777216)"
  "flit F32 0.9 = Num (7549747 / 8388608)"
  "flit F32 (1 / 10 ^ 5) = Num (2748779 / 274877906944)"
  by (simp_all add: fp_eval)

lemma square_sums:
  "fsum F32 (map (\<lambda>x. fmul F32 x x) (vec32 [0.3, 0.5, 0.2, 0.8, 0.1])) = Num (4320133 / 4194304)"
  "fsum F32 (map (\<lambda>x. fmul F32 x x) (vec32 [1, 0, 0])) = Num 1"
  "fsum F32 (map (\<lambda>x. fmul F32 x x) (vec32 [0, 1, 0])) = Num 1"
  "fsum F32 (map (\<lambda>x. fmul F32 x x) (vec32 [0, 0, 0])) = Num 0"
  "fsum F32 (map (\<lambda>x. fmul F32 x x) (vec32 [0.5, 0.3, 0.8])) = Num (2055209 / 2097152)"
  "fsum F32 (map (\<lambda>x. fmul F32 x x) (vec32 [0.1, 0.9, 0.4, 0.2, 0.7])) = Num (6333399 / 4194304)"
  "fsum F32 (map (\<lambda>x. fmul F32 x x) (vec32 [0.8, 0.1, 0.5, 0.6, 0.3])) = Num (11324621 / 8388608)"
  "fsum F32 (map (\<lambda>x. fmul F32 x x) (vec32 [0.6, 0.5, 0.4, 0.3, 0.2])) = Num (15099495 / 16777216)"
  "fsum F32 (map (\<lambda>x. fmul F32 x x) (vec32 [0.61, 0.49, 0.41, 0.31, 0.21])) = Num (15443427 / 16777216)"
  "fsum F32 (map (\<lambda>x. fmul F32 x x) (vec32 [0.1, 0.1, 0.9, 0.9, 0.05])) = Num (861143 / 524288)"
  unfolding list.map tier_literals vector_literals by (simp_all add: fsum_def fp_eval)

lemma norm_roots:
  "fsqrt F32 (Num (4320133 / 4194304)) = Num (8513507 / 8388608)"
  "fsqrt F32 (Num 1) = Num 1"
  "fsqrt F32 (Num 1) = Num 1"
  "fsqrt F32 (Num 0) = Num 0"
  "fsqrt F32 (Num (2055209 / 2097152)) = Num (16608597 / 16777216)"
  "fsqrt F32 (Num (6333399 / 4194304)) = Num (5154047 / 4194304)"
  "fsqrt F32 (Num (11324621 / 8388608)) = Num (4873341 / 4194304)"
  "fsqrt F32 (Num (15099495 / 16777216)) = Num (15916265 / 16777216)"
  "fsqrt F32 (Num (15443427 / 16777216)) = Num (62877 / 65536)"
  "fsqrt F32 (Num (861143 / 524288)) = Num (2687711 / 2097152)"
  by (simp_all add: fp_eval Let_def power2_eq_square)

lemma norm_values:
  "norm2 F32 (vec32 [0.3, 0.5, 0.2, 0.8, 0.1]) = Num (8513507 / 8388608)"
  "norm2 F32 (vec32 [1, 0, 0]) = Num 1"
  "norm2 F32 (vec32 [0, 1, 0]) = Num 1"
  "norm2 F32 (vec32 [0, 0, 0]) = Num 0"
  "norm2 F32 (vec32 [0.5, 0.3, 0.8]) = Num (16608597 / 16777216)"
  "norm2 F32 (vec32 [0.1, 0.9, 0.4, 0.2, 0.7]) = Num (5154047 / 4194304)"
  "norm2 F32 (vec32 [0.8, 0.1, 0.5, 0.6, 0.3]) = Num (4873341 / 4194304)"
  "norm2 F32 (vec32 [0.6, 0.5, 0.4, 0.3, 0.2]) = Num (15916265 / 16777216)"
  "norm2 F32 (vec32 [0.61, 0.49, 0.41, 0.31, 0.21]) = Num (62877 / 65536)"
  "norm2 F32 (vec32 [0.1, 0.1, 0.9, 0.9, 0.05]) = Num (2687711 / 2097152)"
  unfolding norm2_def square_sums norm_roots by (rule refl)+

lemma dot_values:
  "dot F32 (vec32 [0.3, 0.5, 0.2, 0.8, 0.1]) (vec32 [0.3, 0.5, 0.2, 0.8, 0.1]) = Num (4320133 / 4194304)"
  "dot F32 (vec32 [1, 0, 0]) (vec32 [0, 1, 0]) = Num 0"
  "dot F32 (vec32 [0, 0, 0]) (vec32 [0.5, 0.3, 0.8]) = Num 0"
  "dot F32 (vec32 [0.1, 0.9, 0.4, 0.2, 0.7]) (vec32 [0.8, 0.1, 0.5, 0.6, 0.3]) = Num (2936013 / 4194304)"
  "dot F32 (vec32 [0.6, 0.5, 0.4, 0.3, 0.2]) (vec32 [0.61, 0.49, 0.41, 0.31, 0.21]) = Num (3816817 / 4194304)"
  "dot F32 (vec32 [0.6, 0.5, 0.4, 0.3, 0.2]) (vec32 [0.1, 0.1, 0.9, 0.9, 0.05]) = Num (3 / 4)"
  unfolding list.map tier_literals vector_literals by (simp_all add: dot_def fsum_def fp_eval)

lemma cosine_values:
  "cosine_similarity (vec32 [0.3, 0.5, 0.2, 0.8, 0.1]) (vec32 [0.3, 0.5, 0.2, 0.8, 0.1]) = Num 1"
  "cosine_similarity (vec32 [1, 0, 0]) (vec32 [0, 1, 0]) = Num 0"
  "cosine_similarity (vec32 [0, 0, 0]) (vec32 [0.5, 0.3, 0.8]) = Num 0"
  "cosine_similarity (vec32 [0.1, 0.9, 0.4, 0.2, 0.7]) (vec32 [0.8, 0.1, 0.5, 0.6, 0.3]) = Num (16451011 / 33554432)"
  "cosine_similarity (vec32 [0.6, 0.5, 0.4, 0.3, 0.2]) (vec32 [0.61, 0.49, 0.41, 0.31, 0.21]) = Num (8386837 / 8388608)"
  "cosine_similarity (vec32 [0.6, 0.5, 0.4, 0.3, 0.2]) (vec32 [0.1, 0.1, 0.9, 0.9, 0.05]) = Num (10349211 / 16777216)"
  unfolding cosine_similarity_def cosine_similarity_in_def Let_def norm_values dot_values
  by (simp_all add: f32_epsilon_def fp_eval)

lemma zero_diff_32: "fsub F32 (Num 1) (Num 1) = Num 0"
  by (simp add: fp_eval)

lemma divergence_tests:
  "passes identical_vectors_return_one" "passes orthogonal_vectors_return_zero" "passes zero_vector_returns_zero"
  "passes empty_inputs_return_zero" "passes result_within_unit_interval"
  "passes similar_vectors_score_higher_than_dissimilar"
proof -
  note run = divergence_compute_def cosine_values Let_def length_map list.map_disc_iff
  show "passes identical_vectors_return_one"
    unfolding identical_vectors_return_one_def run flit_01 vector_literals
    apply (simp add: zero_diff_32 flt_fin)
    done
  show "passes orthogonal_vectors_return_zero"
    unfolding orthogonal_vectors_return_zero_def run flit_01 vector_literals by (simp add: flt_fin)
  show "passes zero_vector_returns_zero"
    unfolding zero_vector_returns_zero_def run flit_01 by (simp add: feq_def)
  show "passes empty_inputs_return_zero"
    unfolding empty_inputs_return_zero_def divergence_compute_def flit_01 by (simp add: feq_def)
  show "passes result_within_unit_interval"
    unfolding result_within_unit_interval_def run flit_01 by (simp add: fle_fin)
  show "passes similar_vectors_score_higher_than_dissimilar"
    unfolding similar_vectors_score_higher_than_dissimilar_def run by (simp add: flt_fin)
qed

section \<open>\<open>scoring/anomaly.rs\<close>\<close>

definition normal_features_give_low_score :: "libm \<Rightarrow> unit_test" where
  "normal_features_give_low_score M =
     (let f = \<lparr>ft_rpm = flit F32 2, ft_similarity = flit F32 0.3, ft_entropy_inv = flit F32 0.15,
               ft_prompt_len = flit F32 120, ft_duration_mins = flit F32 1\<rparr>
      in bind_run (model_score M model_new f) (\<lambda>score. asserted (flt score (flit F32 0.7))))"

definition attacker_features_give_high_score :: "libm \<Rightarrow> unit_test" where
  "attacker_features_give_high_score M =
     (let f = \<lparr>ft_rpm = flit F32 28, ft_similarity = flit F32 0.95, ft_entropy_inv = flit F32 0.85,
               ft_prompt_len = flit F32 80, ft_duration_mins = flit F32 12\<rparr>
      in bind_run (model_score M model_new f) (\<lambda>score. asserted (flt (flit F32 0.6) score)))"

definition anomaly_score_in_unit_interval :: "libm \<Rightarrow> unit_test" where
  "anomaly_score_in_unit_interval M =
     (let f = \<lparr>ft_rpm = flit F32 100, ft_similarity = flit F32 1, ft_entropy_inv = flit F32 1,
               ft_prompt_len = flit F32 10, ft_duration_mins = flit F32 60\<rparr>
      in bind_run (model_score M model_new f) (\<lambda>score. asserted (fle (flit F32 0) score \<and> fle score (flit F32 1))))"

text \<open>The features of the tests and the statistics of the priors, as numbers.\<close>

lemma model_new_stats:
  "am_rpm model_new = \<lparr>fs_count = Num 100, fs_mean = Num 2, fs_m2 = Num (891 / 4)\<rparr>"
  "am_similarity model_new = \<lparr>fs_count = Num 100, fs_mean = Num (3602879701896397 / 9007199254740992), fs_m2 = Num (557320453887099 / 140737488355328)\<rparr>"
  "am_entropy_inv model_new = \<lparr>fs_count = Num 100, fs_mean = Num (3602879701896397 / 18014398509481984), fs_m2 = Num (2507942042491945 / 1125899906842624)\<rparr>"
  "am_prompt_len model_new = \<lparr>fs_count = Num 100, fs_mean = Num 150, fs_m2 = Num 633600\<rparr>"
  "am_duration_mins model_new = \<lparr>fs_count = Num 100, fs_mean = Num 2, fs_m2 = Num (891 / 4)\<rparr>"
  by (simp_all add: model_new_def with_prior_def fp_eval)

lemma variance_values:
  "variance F64 (am_rpm model_new) = Num (9 / 4)"
  "variance F64 (am_similarity model_new) = Num (1441151880758559 / 36028797018963968)"
  "variance F64 (am_entropy_inv model_new) = Num (3242591731706757 / 144115188075855872)"
  "variance F64 (am_prompt_len model_new) = Num 6400"
  "variance F64 (am_duration_mins model_new) = Num (9 / 4)"
  unfolding model_new_stats by (simp_all add: variance_def fp_eval)

lemma deviation_roots:
  "fsqrt F64 (Num (1441151880758559 / 36028797018963968)) = Num (3602879701896397 / 18014398509481984)"
  "fsqrt F64 (Num (3242591731706757 / 144115188075855872)) = Num (5404319552844595 / 36028797018963968)"
  "fsqrt F64 (Num (9 / 4)) = Num (3 / 2)"
  "fsqrt F64 (Num 6400) = Num 80"
  by (simp_all add: fp_eval Let_def power2_eq_square)

lemma deviation_values:
  "std_dev F64 (am_rpm model_new) = Num (3 / 2)"
  "std_dev F64 (am_similarity model_new) = Num (3602879701896397 / 18014398509481984)"
  "std_dev F64 (am_entropy_inv model_new) = Num (5404319552844595 / 36028797018963968)"
  "std_dev F64 (am_prompt_len model_new) = Num 80"
  "std_dev F64 (am_duration_mins model_new) = Num (3 / 2)"
  unfolding std_dev_def variance_values deviation_roots by (simp_all add: fp_eval)

lemma z_values:
  "z_score F64 (am_rpm model_new) (fcast F64 (Num 2)) = Num 0"
  "z_score F64 (am_similarity model_new) (fcast F64 (Num (5033165 / 16777216))) = Num (4503599090499585 / 9007199254740992)"
  "z_score F64 (am_entropy_inv model_new) (fcast F64 (Num (5033165 / 33554432))) = Num (1501199696833195 / 4503599627370496)"
  "z_score F64 (am_prompt_len model_new) (fcast F64 (Num 120)) = Num (3 / 8)"
  "z_score F64 (am_duration_mins model_new) (fcast F64 (Num 1)) = Num (6004799503160661 / 9007199254740992)"
  "z_score F64 (am_rpm model_new) (fcast F64 (Num 28)) = Num (4878899596318037 / 281474976710656)"
  "z_score F64 (am_similarity model_new) (fcast F64 (Num (15938355 / 16777216))) = Num (6192449353416703 / 2251799813685248)"
  "z_score F64 (am_entropy_inv model_new) (fcast F64 (Num (7130317 / 8388608))) = Num (4878899775275009 / 1125899906842624)"
  "z_score F64 (am_prompt_len model_new) (fcast F64 (Num 80)) = Num (7 / 8)"
  "z_score F64 (am_duration_mins model_new) (fcast F64 (Num 12)) = Num (7505999378950827 / 1125899906842624)"
  unfolding z_score_def deviation_values unfolding model_new_stats by (simp_all add: fp_eval)

lemma feature_literals:
  "flit F32 0.15 = Num (5033165 / 33554432)"
  "flit F32 0.3 = Num (5033165 / 16777216)"
  "flit F32 0.85 = Num (7130317 / 8388608)"
  "flit F32 0.95 = Num (15938355 / 16777216)"
  "flit F32 28 = Num 28"
  "flit F32 80 = Num 80"
  "flit F32 12 = Num 12"
  "flit F32 120 = Num 120"
  by (simp_all add: fp_eval)

lemma normal_sorted:
  "sort_fp (z_scores model_new \<lparr>ft_rpm = flit F32 2, ft_similarity = flit F32 0.3, ft_entropy_inv = flit F32 0.15,
      ft_prompt_len = flit F32 120, ft_duration_mins = flit F32 1\<rparr>) =
    Inr [Num 0, Num (1501199696833195 / 4503599627370496), Num (3 / 8), Num (4503599090499585 / 9007199254740992), Num (6004799503160661 / 9007199254740992)]"
  unfolding z_scores_def feature_vector.simps tier_literals vector_literals feature_literals z_values
  by (simp add: sort_fp_def fle_fin)

lemma attacker_sorted:
  "sort_fp (z_scores model_new \<lparr>ft_rpm = flit F32 28, ft_similarity = flit F32 0.95, ft_entropy_inv = flit F32 0.85,
      ft_prompt_len = flit F32 80, ft_duration_mins = flit F32 12\<rparr>) =
    Inr [Num (7 / 8), Num (6192449353416703 / 2251799813685248), Num (4878899775275009 / 1125899906842624), Num (7505999378950827 / 1125899906842624), Num (4878899596318037 / 281474976710656)]"
  unfolding z_scores_def feature_vector.simps tier_literals vector_literals feature_literals z_values
  by (simp add: sort_fp_def fle_fin)

lemma normal_test: "libm_laws M \<Longrightarrow> passes (normal_features_give_low_score M)"
proof -
  assume M: "libm_laws M"
  obtain s where s: "model_score M model_new \<lparr>ft_rpm = flit F32 2, ft_similarity = flit F32 0.3,
      ft_entropy_inv = flit F32 0.15, ft_prompt_len = flit F32 120, ft_duration_mins = flit F32 1\<rparr> = Inr s"
    by (simp only: model_score_def normal_sorted map_run.simps)
  have "fle s (Num (1 / 2))"
    by (rule libm_laws.model_score_mono(1) [OF M normal_sorted s]) (simp add: fle_fin)
  moreover have "flt (Num (1 / 2)) (flit F32 0.7)" unfolding vector_literals by (simp add: flt_fin)
  ultimately show ?thesis
    unfolding normal_features_give_low_score_def Let_def s bind_run.simps passes_asserted by (rule fle_flt_trans)
qed

text \<open>A correctly rounded exponential is at most \<open>1/4\<close> at \<open>-2\<close>, which puts a z-score of 6 above 0.6.\<close>

text \<open>
  Two tests need to know that \<open>exp\<close> falls below 1, which monotony alone does not give: at two points,
  it must be at most about twice its value.
\<close>

definition exp_decays :: "libm \<Rightarrow> bool" where
  "exp_decays M \<longleftrightarrow> fle (exp64 M (Num (- 2))) (Num (1 / 4)) \<and> fle (exp32 M (Num (- 4))) (Num (1 / 32))"

lemma cr_exp_decays: "exp_decays cr_libm"
proof -
  have "5 \<le> exp (2 :: real)" using exp_lower_Taylor_quadratic [of 2] by simp
  then have "exp (- 2 :: real) \<le> 1 / 4" by (simp add: exp_minus field_simps)
  then have "fle (exp64 cr_libm (Num (- 2))) (fround F64 False (1 / 4))"
    by (simp add: cr_libm_def f64.fround_mono)
  then have a: "fle (exp64 cr_libm (Num (- 2))) (Num (1 / 4))" by (simp add: fp_eval)
  have "(5 / 2 :: real) \<le> exp 1" using exp_lower_Taylor_quadratic [of "1 :: real"] by simp
  then have "(5 / 2 :: real) ^ 4 \<le> exp 1 ^ 4" by (rule power_mono) simp
  then have "32 \<le> exp (4 :: real)" by (simp add: exp_of_nat_mult [of 4 1, symmetric] power_divide)
  then have "exp (- 4 :: real) \<le> 1 / 32" by (simp add: exp_minus field_simps)
  then have "fle (exp32 cr_libm (Num (- 4))) (fround F32 False (1 / 32))" by (simp add: cr_libm_def f32.fround_mono)
  then have "fle (exp32 cr_libm (Num (- 4))) (Num (1 / 32))" by (simp add: fp_eval)
  with a show ?thesis by (simp add: exp_decays_def)
qed

lemma sigmoid_at_6:
  assumes "libm_laws M" "exp_decays M"
  shows "fle (fdiv F64 (Num 1) (Num (5 / 4))) (sigmoid M (Num 6))"
proof -
  have e: "fle (exp64 M (Num (- 2))) (Num (1 / 4))" using assms(2) by (simp add: exp_decays_def)
  have x: "fmul F64 (fneg (Num (1 / 2))) (fsub F64 (Num 6) (Num 2)) = Num (- 2)" by (simp add: fp_eval)
  have one: "fle (Num 1) (fadd F64 (Num 1) (exp64 M (Num (- 2))))"
    by (rule libm_laws.sigmoid_denominator [OF assms(1)]) simp
  have "fle (fadd F64 (Num 1) (exp64 M (Num (- 2)))) (fadd F64 (Num 1) (Num (1 / 4)))"
    using e one by (intro f64.fadd_mono) (auto dest: fle_not_NaN simp: fp_eval)
  then have "fle (fadd F64 (Num 1) (exp64 M (Num (- 2)))) (Num (5 / 4))" by (simp add: fp_eval)
  then show ?thesis unfolding sigmoid_def x using frecip_antimono [OF one] by blast
qed

lemma attacker_test:
  assumes "libm_laws M" "exp_decays M"
  shows "passes (attacker_features_give_high_score M)"
proof -
  let ?z = "Num (7505999378950827 / 1125899906842624)"
  have six: "fle (Num 6) ?z" by (simp add: fle_fin)
  have "fle (fclamp (fcast F32 (fdiv F64 (Num 1) (Num (5 / 4)))) (Num 0) (Num 1))
      (fclamp (fcast F32 (sigmoid M ?z)) (Num 0) (Num 1))"
    using fle_trans [OF sigmoid_at_6 [OF assms] libm_laws.sigmoid_mono [OF assms(1) six]] by (intro fclamp_mono fcast_mono) simp_all
  moreover have "fclamp (fcast F32 (fdiv F64 (Num 1) (Num (5 / 4)))) (Num 0) (Num 1) = Num (13421773 / 16777216)"
    by (simp add: fp_eval)
  moreover have "flt (flit F32 0.6) (Num (13421773 / 16777216))" unfolding vector_literals by (simp add: flt_fin)
  ultimately have "flt (flit F32 0.6) (fclamp (fcast F32 (sigmoid M ?z)) (Num 0) (Num 1))"
    by (simp only: flt_fle_trans)
  then show ?thesis
    unfolding attacker_features_give_high_score_def model_score_def Let_def attacker_sorted map_run.simps bind_run.simps passes_asserted
    by (simp del: fcast.simps)
qed

lemma anomaly_unit_test: "libm_laws M \<Longrightarrow> passes (anomaly_score_in_unit_interval M)"
proof -
  assume M: "libm_laws M"
  let ?f = "\<lparr>ft_rpm = flit F32 100, ft_similarity = flit F32 1, ft_entropy_inv = flit F32 1,
      ft_prompt_len = flit F32 10, ft_duration_mins = flit F32 60\<rparr>"
  have "features_ok ?f" by (simp add: features_ok_def fp_eval)
  then obtain s where s: "model_score M model_new ?f = Inr s" "unit_score s"
    using libm_laws.model_score_ok [OF M model_new_ok] by blast
  then show ?thesis
    unfolding anomaly_score_in_unit_interval_def Let_def s(1) flit_01 by (simp add: frange_fle)
qed

section \<open>\<open>scoring/velocity.rs\<close>\<close>

definition ts_ago :: "int \<Rightarrow> int \<Rightarrow> int run" where
  "ts_ago now secs = (case minus_seconds chrono_ns now secs of None \<Rightarrow> Inl DateTimeOverflow | Some t \<Rightarrow> ok t)"

definition velocity_empty_returns_zero :: "libm \<Rightarrow> int \<Rightarrow> unit_test" where
  "velocity_empty_returns_zero M now =
     bind_run (velocity_compute M chrono_ns now [] (flit F32 5) (flit F32 30)) (\<lambda>score. asserted (feq score (flit F32 0)))"

definition single_timestamp_returns_zero :: "libm \<Rightarrow> int \<Rightarrow> unit_test" where
  "single_timestamp_returns_zero M now =
     bind_run (ts_ago now 10) (\<lambda>t.
     bind_run (velocity_compute M chrono_ns now [t] (flit F32 5) (flit F32 30)) (\<lambda>score.
       asserted (feq score (flit F32 0))))"

definition score_clamped_to_one :: "libm \<Rightarrow> int \<Rightarrow> unit_test" where
  "score_clamped_to_one M now =
     bind_run (run_list (map (ts_ago now) [0..119])) (\<lambda>ts.
     bind_run (velocity_compute M chrono_ns now ts (flit F32 5) (flit F32 30)) (\<lambda>score.
       asserted (feq score (flit F32 1))))"

definition timestamps_outside_window_ignored :: "libm \<Rightarrow> int \<Rightarrow> unit_test" where
  "timestamps_outside_window_ignored M now =
     bind_run (run_list (map (ts_ago now) [600, 5])) (\<lambda>ts.
     bind_run (weighted_rpm M chrono_ns now ts (flit F32 5)) (\<lambda>rpm. asserted (feq rpm (flit F32 0))))"

definition low_rate_gives_low_score :: "libm \<Rightarrow> int \<Rightarrow> unit_test" where
  "low_rate_gives_low_score M now =
     bind_run (run_list (map (ts_ago now) [180, 90, 0])) (\<lambda>ts.
     bind_run (velocity_compute M chrono_ns now ts (flit F32 5) (flit F32 30)) (\<lambda>score.
       asserted (flt score (flit F32 0.2))))"

definition recent_burst_scores_higher_than_old_burst :: "libm \<Rightarrow> int \<Rightarrow> unit_test" where
  "recent_burst_scores_higher_than_old_burst M now =
     bind_run (run_list (map (\<lambda>i. ts_ago now (i * 6)) [0..9])) (\<lambda>recent.
     bind_run (run_list (map (\<lambda>i. ts_ago now (240 + i * 6)) [0..9])) (\<lambda>old.
     bind_run (velocity_compute M chrono_ns now recent (flit F32 5) (flit F32 30)) (\<lambda>score_recent.
     bind_run (velocity_compute M chrono_ns now old (flit F32 5) (flit F32 30)) (\<lambda>score_old.
       asserted (flt score_old score_recent)))))"

definition age_of :: "int \<Rightarrow> fp" where
  "age_of s = fdiv F32 (fof_int F32 s) (Num 60)"

definition at_age :: "int \<Rightarrow> int \<Rightarrow> int" where
  "at_age now s = now - s * 10 ^ 9"

text \<open>A clock far enough from the ends of the calendar.\<close>

definition clock_ok :: "int \<Rightarrow> bool" where
  "clock_ok now \<longleftrightarrow> \<bar>now\<bar> \<le> max_instant - 600 * 10 ^ 9"

lemma ts_ago_ok: "clock_ok now \<Longrightarrow> 0 \<le> s \<Longrightarrow> s \<le> 600 \<Longrightarrow> ts_ago now s = ok (at_age now s)"
  by (simp add: ts_ago_def at_age_def chrono_ns_def clock_ok_def)

lemma timestamps_ok:
  "clock_ok now \<Longrightarrow> \<forall>s \<in> set ss. 0 \<le> s \<and> s \<le> 600 \<Longrightarrow>
   run_list (map (ts_ago now) ss) = ok (map (at_age now) ss)"
  by (induction ss) (simp_all add: ts_ago_ok)

lemma literals_5_30: "flit F32 5 = Num 5" "flit F32 30 = Num 30"
  by (simp_all add: fp_eval)

lemma age_at: "0 \<le> s \<Longrightarrow> s \<le> 600 \<Longrightarrow> age_mins chrono_ns now (at_age now s) = age_of s"
  by (simp add: age_mins_def age_of_def at_age_def chrono_ns_def quot_def)

lemma cutoff_5: "clock_ok now \<Longrightarrow> minus_seconds chrono_ns now (window_seconds (Num 5)) = Some (at_age now 300)"
  by (simp add: window_seconds_5 at_age_def chrono_ns_def clock_ok_def)

lemma in_window: "dt_le chrono_ns (at_age now 300) (at_age now s) \<longleftrightarrow> s \<le> 300"
  by (simp add: at_age_def chrono_ns_def)

lemma rpm_at:
  assumes "clock_ok now" "\<forall>s \<in> set ss. 0 \<le> s \<and> s \<le> 300" "2 \<le> length ss"
  shows "weighted_rpm M chrono_ns now (map (at_age now) ss) (Num 5) =
    ok (fdiv F32 (fsum F32 (map (\<lambda>s. decay M (age_of s)) ss)) (span_mins (map age_of ss)))"
proof -
  have f: "filter (dt_le chrono_ns (at_age now 300)) (map (at_age now) ss) = map (at_age now) ss"
    using assms(2) by (simp add: filter_id_conv in_window)
  have a: "map (age_mins chrono_ns now) (map (at_age now) ss) = map age_of ss"
    using assms(2) by (auto intro!: age_at)
  show ?thesis
    using assms(3) unfolding weighted_rpm_def cutoff_5 [OF assms(1)] option.simps f a Let_def weighted_count_def
    by (simp add: o_def)
qed

lemma age_of_eq: "0 \<le> s \<Longrightarrow> s \<le> 600 \<Longrightarrow> age_of s = fround F32 False (of_int s / 60)"
  using f32.fof_int_exact [of s] by (simp add: age_of_def fdiv_fin)

lemma age_of_values: "age_of 0 = Num 0" "age_of 90 = Num (3 / 2)" "age_of 180 = Num 3" "age_of 240 = Num 4"
  by (simp_all add: age_of_eq fp_eval)

lemma age_of_mono: "0 \<le> s \<Longrightarrow> s \<le> t \<Longrightarrow> t \<le> 600 \<Longrightarrow> fle (age_of s) (age_of t)"
  by (simp add: age_of_eq f32.fround_mono)

lemma age_of_range: "0 \<le> s \<Longrightarrow> s \<le> 600 \<Longrightarrow> frange 0 10 (age_of s)"
  using f32.frange_fround [of 0 "of_int s / 60" 10 False] f32.rnd_int [of 10] by (simp add: age_of_eq)

lemma decay_le:
  assumes M: "libm_laws M" and a: "fle (Num a) (age_of s)" "\<bar>a\<bar> \<le> 1000" "rnd F32 a = a" and s: "0 \<le> s" "s \<le> 600"
  shows "fle (decay M (age_of s)) (exp32 M (Num (- a)))" and "fle (Num 0) (decay M (age_of s))"
proof -
  have fin: "is_fin (age_of s)" using age_of_range [OF s] by (simp add: frange_def)
  have "fround F32 False (- a) = Num (- a)"
    by (cases "a = 0") (use a in \<open>auto simp: zero_sign_def rnd_uminus intro!: f32.fround_Num\<close>)
  moreover have "- fval (age_of s) \<le> - a" using a(1) fin by (simp add: fle_fin)
  ultimately have le: "fle (fmul F32 (fneg (Num 1)) (age_of s)) (Num (- a))"
    using f32.fround_mono [of "- fval (age_of s)" "- a" "is_neg (fneg (Num 1)) \<noteq> is_neg (age_of s)" False] fin
    by (simp add: fmul_fin)
  note e = exp_laws.exp_mono [OF libm_laws.exp32 [OF M]] exp_laws.exp_nonneg [OF libm_laws.exp32 [OF M]]
  show "fle (decay M (age_of s)) (exp32 M (Num (- a)))" unfolding decay_def by (rule e(1) [OF le])
  show "fle (Num 0) (decay M (age_of s))" unfolding decay_def using fle_not_NaN [OF le] by (intro e(2))
qed

lemma decay_unit:
  assumes "libm_laws M" "0 \<le> s" "s \<le> 600"
  shows "fle (Num 0) (decay M (age_of s))" and "fle (decay M (age_of s)) (Num 1)"
proof -
  have z: "fle (Num 0) (age_of s)" using age_of_mono [of 0 s] assms by (simp add: age_of_values)
  show "fle (Num 0) (decay M (age_of s))" "fle (decay M (age_of s)) (Num 1)"
    using decay_le [OF assms(1) z _ _ assms(2,3)] exp_laws.exp_zero [OF libm_laws.exp32 [OF assms(1)], of "Num 0"] by simp_all
qed

text \<open>
  The lists of the tests start with the most recent request, where the source documents the oldest
  first: the span is then negative and floored at a second.
\<close>

lemma span_recent_first:
  assumes "0 \<le> s" "s \<le> t" "t \<le> 600"
  shows "fmax (fsub F32 (age_of s) (age_of t)) (fdiv F32 (Num 1) (Num 60)) = Num (8947849 / 536870912)"
proof -
  have fin: "is_fin (age_of s)" "is_fin (age_of t)"
    using age_of_range [of s] age_of_range [of t] assms by (auto simp: frange_def)
  then have "fval (age_of s) - fval (age_of t) \<le> 0" using age_of_mono [OF assms] by (simp add: fle_fin)
  from f32.fround_mono [OF this, of "age_of s = NZero \<and> age_of t = Num 0" False]
  have le: "fle (fsub F32 (age_of s) (age_of t)) (Num 0)" using fin by (simp add: fsub_fin zero_sign_def)
  then have "flt (fsub F32 (age_of s) (age_of t)) (Num (8947849 / 536870912))"
    by (rule fle_flt_trans) (simp add: flt_fin)
  then show ?thesis unfolding eval_1_60 by (auto simp: fmax_def)
qed

lemma recent_first_rpm:
  assumes "clock_ok now" "\<forall>s \<in> set (a # ss). 0 \<le> s \<and> s \<le> 300 \<and> a \<le> s" "ss \<noteq> []"
  shows "weighted_rpm M chrono_ns now (map (at_age now) (a # ss)) (Num 5) =
    ok (fdiv F32 (fsum F32 (map (\<lambda>s. decay M (age_of s)) (a # ss))) (Num (8947849 / 536870912)))"
proof -
  have "last ss \<in> set ss" using assms(3) by simp
  then have l: "a \<le> last ss" "last ss \<le> 600" using assms(2) by auto
  have span: "span_mins (map age_of (a # ss)) = Num (8947849 / 536870912)"
    using assms l span_recent_first [of a "last ss"] by (simp add: span_mins_def last_map)
  have "2 \<le> length (a # ss)" using assms(3) by (cases ss) simp_all
  then show ?thesis using rpm_at [OF assms(1), of "a # ss"] assms(2) unfolding span by auto
qed

lemma fsum_one_zeros: "fsum F32 (Num 1 # replicate n (Num 0)) = Num 1"
  by (induction n rule: nat_induct)
    (simp_all add: replicate_append_same [symmetric] flip: append_Cons replicate_append_same, simp_all add: fsum_def fp_eval)

lemma burst_scores_1:
  assumes M: "libm_laws M" and now: "clock_ok now"
    and ss: "\<forall>s \<in> set ss. 0 \<le> s \<and> s \<le> 300" "ss \<noteq> []"
  shows "velocity_compute M chrono_ns now (map (at_age now) (0 # ss)) (Num 5) (Num 30) = ok (Num 1)"
proof -
  let ?W = "fsum F32 (map (\<lambda>s. decay M (age_of s)) (0 # ss))" and ?q = "Num (8947849 / 536870912)"
  have d0: "decay M (age_of 0) = Num 1"
    unfolding age_of_values by (simp add: decay_def fmul_fin zero_sign_def exp_laws.exp_zero [OF libm_laws.exp32 [OF M]])
  have "fle (Num 0) (decay M (age_of (ss ! i)))" if "i < length ss" for i
  proof -
    have "0 \<le> ss ! i \<and> ss ! i \<le> 300" using ss(1) that by auto
    then show ?thesis by (intro decay_unit(1) [OF M]) simp_all
  qed
  then have "list_all2 fle (Num 1 # replicate (length ss) (Num 0)) (map (\<lambda>s. decay M (age_of s)) (0 # ss))"
    by (simp add: d0 list_all2_conv_all_nth [of _ "replicate _ _"])
  then have W: "fle (Num 1) ?W" using f32.fsum_mono [of "Num 1 # replicate (length ss) (Num 0)"]
    by (simp add: fsum_one_zeros fle_fin)
  have "fle (fdiv F32 (Num 1) ?q) (fdiv F32 ?W ?q)"
    by (rule f32.fdiv_mono [OF W]) (simp_all add: fle_fin)
  moreover have "fle (Num 30) (fdiv F32 (Num 1) ?q)" by (simp add: fp_eval)
  ultimately have "fle (Num 30) (fdiv F32 ?W ?q)" using fle_trans by blast
  then have "fle (fdiv F32 (Num 30) (Num 30)) (fdiv F32 (fdiv F32 ?W ?q) (Num 30))"
    by (intro f32.fdiv_mono) (simp_all add: fle_fin)
  then have "fle (Num 1) (fdiv F32 (fdiv F32 ?W ?q) (Num 30))" by (simp add: fdiv_fin)
  then have "fclamp (fdiv F32 (fdiv F32 ?W ?q) (Num 30)) (Num 0) (Num 1) = Num 1"
    by (cases "fdiv F32 (fdiv F32 ?W ?q) (Num 30)") (auto simp: fclamp_def flt_def fle_def)
  moreover have "\<forall>s \<in> set (0 # ss). 0 \<le> s \<and> s \<le> 300 \<and> 0 \<le> s" using ss by simp
  ultimately show ?thesis
    unfolding velocity_compute_def using recent_first_rpm [OF now _ ss(2)] by simp
qed

lemma scaled_rate_le:
  assumes "fle w (Num u)" "fle (Num 0) w" "is_fin q" "0 < fval q"
    and "flt (fclamp (fdiv F32 (fdiv F32 (Num u) q) (Num 30)) (Num 0) (Num 1)) b"
  shows "flt (fclamp (fdiv F32 (fdiv F32 w q) (Num 30)) (Num 0) (Num 1)) b"
proof -
  have "fle (fdiv F32 w q) (fdiv F32 (Num u) q)" by (rule f32.fdiv_mono [OF assms(1)]) (use assms in simp_all)
  moreover have nn: "fle (Num 0) (fdiv F32 w q)" by (rule f32.fdiv_nonneg [OF assms(2-4)])
  ultimately have "fle (fdiv F32 (fdiv F32 w q) (Num 30)) (fdiv F32 (fdiv F32 (Num u) q) (Num 30))"
    by (rule f32.fdiv_mono) simp_all
  then have "fle (fclamp (fdiv F32 (fdiv F32 w q) (Num 30)) (Num 0) (Num 1))
      (fclamp (fdiv F32 (fdiv F32 (Num u) q) (Num 30)) (Num 0) (Num 1))" by (rule fclamp_mono) simp
  then show ?thesis using assms(5) by (rule fle_flt_trans)
qed

lemma old_burst:
  assumes M: "libm_laws M" "exp_decays M" and now: "clock_ok now"
  shows "\<exists>s. velocity_compute M chrono_ns now (map (at_age now) (map (\<lambda>i. 240 + i * 6) [0..9])) (Num 5) (Num 30) = ok s \<and>
    flt s (Num 1)"
proof -
  let ?ss = "map (\<lambda>i. 240 + i * 6) [0..9]"
  let ?W = "fsum F32 (map (\<lambda>s. decay M (age_of s)) ?ss)" and ?q = "Num (8947849 / 536870912)"
  have e: "fle (exp32 M (Num (- 4))) (Num (1 / 32))" using M(2) by (simp add: exp_decays_def)
  have d: "fle (decay M (age_of s)) (Num (1 / 32)) \<and> fle (Num 0) (decay M (age_of s))"
    if "240 \<le> s" "s \<le> 300" for s
  proof -
    have "fle (Num 4) (age_of s)" using age_of_mono [of 240 s] that by (simp add: age_of_values)
    then show ?thesis using decay_le [OF M(1), of 4 s] that e fle_trans f32.rnd_int [of 4] by auto
  qed
  have len: "length ?ss = 10" by simp
  have "240 \<le> ?ss ! i \<and> ?ss ! i \<le> 300" if "i < 10" for i using that by simp
  then have "list_all2 fle (map (\<lambda>s. decay M (age_of s)) ?ss) (replicate 10 (Num (1 / 32)))"
    using d by (simp add: list_all2_conv_all_nth)
  then have "fle ?W (fsum F32 (replicate 10 (Num (1 / 32))))"
    by (rule f32.fsum_mono) (use d in auto)
  moreover have "fsum F32 (replicate 10 (Num (1 / 32))) = Num (5 / 16)" by (simp add: numeral_eq_Suc fsum_def fp_eval)
  ultimately have W: "fle ?W (Num (5 / 16))" by simp
  have W0: "fle (Num 0) ?W" by (rule f32.fsum_nonneg) (use d in auto)
  have ss: "?ss = 240 # map (\<lambda>i. 240 + i * 6) [1..9]" by (subst upto_rec1) simp_all
  have r: "weighted_rpm M chrono_ns now (map (at_age now) ?ss) (Num 5) = ok (fdiv F32 ?W ?q)"
    unfolding ss by (rule recent_first_rpm [OF now]) simp_all
  show ?thesis
    unfolding velocity_compute_def r map_run.simps
    by (rule exI, rule conjI [OF refl], rule scaled_rate_le [OF W W0]) (simp_all add: fp_eval)
qed

lemma velocity_tests:
  assumes M: "libm_laws M" and now: "clock_ok now"
  shows "passes (velocity_empty_returns_zero M now)" "passes (single_timestamp_returns_zero M now)"
    "passes (score_clamped_to_one M now)" "passes (timestamps_outside_window_ignored M now)"
    "passes (low_rate_gives_low_score M now)"
proof -
  have zero: "fclamp (fdiv F32 (Num 0) (Num 30)) (Num 0) (Num 1) = Num 0" by (simp add: fp_eval)
  show "passes (velocity_empty_returns_zero M now)"
    unfolding velocity_empty_returns_zero_def velocity_compute_def weighted_rpm_def literals_5_30 flit_01
    by (simp add: zero feq_def)
  show "passes (single_timestamp_returns_zero M now)"
    unfolding single_timestamp_returns_zero_def velocity_compute_def weighted_rpm_def literals_5_30 flit_01
    by (simp add: zero feq_def ts_ago_ok [OF now])
  have "run_list (map (ts_ago now) (0 # [1..119])) = ok (map (at_age now) (0 # [1..119]))"
    by (rule timestamps_ok [OF now]) simp
  moreover have "[0..119] = 0 # [1..119 :: int]" by (subst upto_rec1) simp_all
  ultimately show "passes (score_clamped_to_one M now)"
    using burst_scores_1 [OF M now, of "[1..119]"] unfolding score_clamped_to_one_def literals_5_30 flit_01
    by (simp add: feq_def del: upto_rec_numeral)
  show "passes (timestamps_outside_window_ignored M now)"
    unfolding timestamps_outside_window_ignored_def weighted_rpm_def literals_5_30 flit_01 cutoff_5 [OF now]
    by (simp add: feq_def ts_ago_ok [OF now] in_window)
  let ?W = "fsum F32 (map (\<lambda>s. decay M (age_of s)) [180, 90, 0])"
  have times: "run_list (map (ts_ago now) [180, 90, 0]) = ok (map (at_age now) [180, 90, 0])"
    by (rule timestamps_ok [OF now]) simp
  have "span_mins (map age_of [180, 90, 0]) = Num 3" unfolding list.map age_of_values by (simp add: span_mins_def fp_eval)
  then have r: "weighted_rpm M chrono_ns now (map (at_age now) [180, 90, 0]) (Num 5) = ok (fdiv F32 ?W (Num 3))"
    using rpm_at [OF now, of "[180, 90, 0]" M] by simp
  have "fle ?W (fsum F32 [Num 1, Num 1, Num 1])"
    by (rule f32.fsum_mono) (use decay_unit [OF M] in simp_all)
  then have W: "fle ?W (Num 3)" by (simp add: fsum_def fp_eval)
  have "flt (fclamp (fdiv F32 (fdiv F32 ?W (Num 3)) (Num 30)) (Num 0) (Num 1)) (Num (13421773 / 67108864))"
    using f32.fsum_nonneg [of "map (\<lambda>s. decay M (age_of s)) [180, 90, 0]"] decay_unit(1) [OF M]
    by (intro scaled_rate_le [OF W]) (simp_all add: fp_eval)
  then show "passes (low_rate_gives_low_score M now)"
    unfolding low_rate_gives_low_score_def velocity_compute_def times bind_run.simps literals_5_30 r map_run.simps vector_literals
    by simp
qed

lemma recent_burst_test:
  assumes M: "libm_laws M" "exp_decays M" and now: "clock_ok now"
  shows "passes (recent_burst_scores_higher_than_old_burst M now)"
proof -
  obtain s where old: "velocity_compute M chrono_ns now (map (at_age now) (map (\<lambda>i. 240 + i * 6) [0..9])) (Num 5) (Num 30) = ok s"
    "flt s (Num 1)" using old_burst [OF M now] by blast
  have "map (\<lambda>i. i * 6) [0..9] = 0 # map (\<lambda>i. i * 6) [1..9 :: int]" by (subst upto_rec1) simp_all
  then have new: "velocity_compute M chrono_ns now (map (at_age now) (map (\<lambda>i. i * 6) [0..9])) (Num 5) (Num 30) = ok (Num 1)"
    using burst_scores_1 [OF M(1) now, of "map (\<lambda>i. i * 6) [1..9]"] by simp
  have t: "run_list (map (\<lambda>i. ts_ago now (i * 6)) [0..9]) = ok (map (at_age now) (map (\<lambda>i. i * 6) [0..9]))"
    "run_list (map (\<lambda>i. ts_ago now (240 + i * 6)) [0..9]) = ok (map (at_age now) (map (\<lambda>i. 240 + i * 6) [0..9]))"
    using timestamps_ok [OF now, of "map (\<lambda>i. i * 6) [0..9]"] timestamps_ok [OF now, of "map (\<lambda>i. 240 + i * 6) [0..9]"]
    by (simp_all add: o_def)
  show ?thesis
    unfolding recent_burst_scores_higher_than_old_burst_def t bind_run.simps literals_5_30 new old(1)
    using old(2) by simp
qed

section \<open>Properties\<close>

text \<open>
  The model meets the expectations the repository states for the scores: the 22 unit tests of
  \<open>mod.rs\<close>, \<open>velocity.rs\<close>, \<open>divergence.rs\<close> and \<open>anomaly.rs\<close> pass, wherever the clock stands and
  whatever lawful elementary functions the platform has, if their \<open>exp\<close> decays.
\<close>

theorem scoring_tests_pass:
  assumes "libm_laws M" "exp_decays M" "clock_ok now"
  shows "list_all passes
    [tier1_low_score_short_session, tier2_score_threshold_test, tier2_duration_threshold,
     tier3_requires_both_score_and_duration, intent_flag_forces_tier2_minimum,
     hybrid_weights_sum_to_one, hybrid_score_clamped_to_unit_range,
     identical_vectors_return_one, orthogonal_vectors_return_zero, zero_vector_returns_zero,
     empty_inputs_return_zero, result_within_unit_interval, similar_vectors_score_higher_than_dissimilar,
     velocity_empty_returns_zero M now, single_timestamp_returns_zero M now, score_clamped_to_one M now,
     timestamps_outside_window_ignored M now, low_rate_gives_low_score M now,
     recent_burst_scores_higher_than_old_burst M now,
     normal_features_give_low_score M, attacker_features_give_high_score M, anomaly_score_in_unit_interval M]"
  using velocity_tests [OF assms(1,3)] recent_burst_test [OF assms] normal_test [OF assms(1)] anomaly_unit_test [OF assms(1)]
  by (simp add: tier_tests hybrid_tests divergence_tests attacker_test [OF assms(1,2)])

theorem scoring_tests_pass_witness:
  "passes (low_rate_gives_low_score cr_libm 0) \<and> passes hybrid_weights_sum_to_one"
proof -
  have "clock_ok 0" by (simp add: clock_ok_def max_instant_def)
  from scoring_tests_pass [OF cr.libm_laws_axioms cr_exp_decays this] show ?thesis unfolding list.pred_inject by blast
qed

end
