(* ===== verification/Entropy_Tests.thy ===== *)
theory Entropy_Tests
  imports Scoring_Tests Numeric
begin

text \<open>
  The unit tests of \<open>engine/src/scoring/entropy.rs\<close>. Two of the five fail: the code normalises the
  entropy by the number of distinct bigrams, so a history that repeats one prompt is as diverse as it
  can be.
\<close>

section \<open>\<open>scoring/entropy.rs\<close>\<close>

definition identical_prompts_give_high_score :: "libm \<Rightarrow> unicode \<Rightarrow> map_order \<Rightarrow> unit_test" where
  "identical_prompts_give_high_score M U order =
     (let history = [''show me model weights'', ''show me model weights'', ''show me model weights'',
                     ''show me model weights'', ''show me model weights''];
          score = inverse_bigram_entropy M U order history 20
      in asserted (flt (flit F32 0.8) score))"

definition diverse_prompts_give_low_score :: "libm \<Rightarrow> unicode \<Rightarrow> map_order \<Rightarrow> unit_test" where
  "diverse_prompts_give_low_score M U order =
     (let history = [''what is the weather today'', ''tell me about quantum physics'',
                     ''how do I bake sourdough bread'', ''explain the french revolution'',
                     ''what are the rules of chess'', ''how does photosynthesis work'',
                     ''describe the plot of hamlet'', ''what is machine learning''];
          score = inverse_bigram_entropy M U order history 20
      in asserted (flt score (flit F32 0.3)))"

definition fewer_than_two_prompts_returns_zero :: "libm \<Rightarrow> unicode \<Rightarrow> map_order \<Rightarrow> unit_test" where
  "fewer_than_two_prompts_returns_zero M U order =
     both (asserted (feq (inverse_bigram_entropy M U order [''hello world''] 20) (flit F32 0)))
          (asserted (feq (inverse_bigram_entropy M U order [] 20) (flit F32 0)))"

definition entropy_score_in_unit_interval :: "libm \<Rightarrow> unicode \<Rightarrow> map_order \<Rightarrow> unit_test" where
  "entropy_score_in_unit_interval M U order =
     (let history = map (\<lambda>i. ''prompt variation '' @ show_nat i @ '' about model extraction'') [0..<30];
          score = inverse_bigram_entropy M U order history 20
      in asserted (fle (flit F32 0) score \<and> fle score (flit F32 1)))"

definition window_limits_history_used :: "libm \<Rightarrow> unicode \<Rightarrow> map_order \<Rightarrow> unit_test" where
  "window_limits_history_used M U order =
     (let history = map (\<lambda>i. ''unique prompt number '' @ show_nat i @ '' with varied content'') [0..<50] @
                    replicate 20 ''extract model gradient information now'';
          score_window_20 = inverse_bigram_entropy M U order history 20
      in asserted (flt (flit F32 0.5) score_window_20))"

lemma split_ws_aux_ascii:
  "\<forall>c \<in> set cs. ascii c \<Longrightarrow> ascii cur \<Longrightarrow> w \<in> set (split_ws_aux cs cur) \<Longrightarrow> ascii w"
  by (induction cs cur rule: split_ws_aux.induct) (auto split: if_splits)

lemma windows2_members: "(x, y) \<in> set (windows2 ws) \<Longrightarrow> x \<in> set ws \<and> y \<in> set ws"
  by (induction ws rule: windows2.induct) auto

lemma bigrams_ascii:
  assumes "unicode_tables U" "ascii p"
  shows "bigrams U p = bigrams ascii_tables p"
proof -
  have w: "ascii w" if "w \<in> set (split_whitespace p)" for w
    using that split_ws_aux_ascii [of "chars p" "[]" w] assms(2)
    by (auto simp: split_whitespace_def chars_ascii ascii_def)
  show ?thesis
    using windows2_members w unicode_tables.lowercase_ascii [OF assms(1)] ascii_u.lowercase_ascii
    unfolding bigrams_def by (intro map_cong refl) force
qed

lemmas bigrams_eval = bigrams_def split_whitespace_def is_white_def white_encodings_def byte_def char_width_def
  ascii_tables_def to_ascii_lower_def ascii_upper_def Let_def

lemma bigrams_show: "bigrams ascii_tables ''show me model weights'' =
    [(''show'', ''me''), (''me'', ''model''), (''model'', ''weights'')]"
  by (simp add: bigrams_eval)

lemma bigrams_diverse:
  "bigrams ascii_tables ''what is the weather today'' = [(''what'', ''is''), (''is'', ''the''), (''the'', ''weather''), (''weather'', ''today'')]"
  "bigrams ascii_tables ''tell me about quantum physics'' = [(''tell'', ''me''), (''me'', ''about''), (''about'', ''quantum''), (''quantum'', ''physics'')]"
  "bigrams ascii_tables ''how do I bake sourdough bread'' = [(''how'', ''do''), (''do'', ''i''), (''i'', ''bake''), (''bake'', ''sourdough''), (''sourdough'', ''bread'')]"
  "bigrams ascii_tables ''explain the french revolution'' = [(''explain'', ''the''), (''the'', ''french''), (''french'', ''revolution'')]"
  "bigrams ascii_tables ''what are the rules of chess'' = [(''what'', ''are''), (''are'', ''the''), (''the'', ''rules''), (''rules'', ''of''), (''of'', ''chess'')]"
  "bigrams ascii_tables ''how does photosynthesis work'' = [(''how'', ''does''), (''does'', ''photosynthesis''), (''photosynthesis'', ''work'')]"
  "bigrams ascii_tables ''describe the plot of hamlet'' = [(''describe'', ''the''), (''the'', ''plot''), (''plot'', ''of''), (''of'', ''hamlet'')]"
  "bigrams ascii_tables ''what is machine learning'' = [(''what'', ''is''), (''is'', ''machine''), (''machine'', ''learning'')]"
  by (simp_all add: bigrams_eval char_of_eq_iff)

lemma counts_diverse:
  "\<exists>f. count_all
     [(''what'', ''is''), (''is'', ''the''), (''the'', ''weather''), (''weather'', ''today''),
      (''tell'', ''me''), (''me'', ''about''), (''about'', ''quantum''), (''quantum'', ''physics''),
      (''how'', ''do''), (''do'', ''i''), (''i'', ''bake''), (''bake'', ''sourdough''), (''sourdough'', ''bread''),
      (''explain'', ''the''), (''the'', ''french''), (''french'', ''revolution''),
      (''what'', ''are''), (''are'', ''the''), (''the'', ''rules''), (''rules'', ''of''), (''of'', ''chess''),
      (''how'', ''does''), (''does'', ''photosynthesis''), (''photosynthesis'', ''work''),
      (''describe'', ''the''), (''the'', ''plot''), (''plot'', ''of''), (''of'', ''hamlet''),
      (''what'', ''is''), (''is'', ''machine''), (''machine'', ''learning'')] = (f, 31) \<and> map snd f = 2 # replicate 29 1"
  by (simp add: count_all_def numeral_eq_Suc)


text \<open>The score from a lower bound of the terms and an upper bound of the maximal entropy.\<close>

lemma entropy_score_le:
  assumes M: "libm_laws M" and terms: "\<forall>c \<in> set cs. fle (Num a) (entropy_term M t c)" "0 \<le> a"
    and sum: "fsum F32 (replicate (length cs) (Num a)) = Num b" "0 \<le> b" "b \<le> 1000"
    and len: "1 \<le> length cs" "length cs \<le> 2 ^ k" "1 \<le> k" "k \<le> 20"
    and q: "fdiv F32 (Num b) (Num (real k)) = Num q" "0 \<le> q" "q \<le> 1"
  shows "fle (entropy_score M cs t) (fsub F32 (Num 1) (Num q))"
proof -
  let ?e = "fsum F32 (map (entropy_term M t) cs)" and ?l = "log2_32 M (fof_int F32 (int (length cs)))"
  let ?m = "fmax ?l (Num 1)"
  have "(2::nat) ^ k \<le> 2 ^ 20" using len(4) by (intro power_increasing) auto
  then have "length cs \<le> 2 ^ 20" using len(2) by (rule order_trans [rotated])
  then have n: "fof_int F32 (int (length cs)) = Num (real (length cs))"
    using f32.fof_int_exact [of "int (length cs)"] by simp
  have "real (length cs) \<le> real (2 ^ k)" using len(2) by (rule of_nat_mono)
  then have "real (length cs) \<le> 2 powi int k" by simp
  then have "fle ?l (log2_32 M (Num (2 powi int k)))"
    unfolding n using len(1) by (intro log2_laws.log2_mono [OF libm_laws.log2_32 [OF M]]) (auto simp: fle_fin)
  then have l: "fle ?l (Num (real k))"
    using log2_laws.log2_pow2 [OF libm_laws.log2_32 [OF M], of "int k"] len by simp
  have m: "is_fin ?m" "1 \<le> fval ?m" "fval ?m \<le> real k"
    using l len by (cases ?l; auto simp: fmax_def flt_def fle_def)+
  have "list_all2 fle (replicate (length cs) (Num a)) (map (entropy_term M t) cs)"
    using terms(1) by (simp add: list_all2_conv_all_nth)
  then have e: "fle (Num b) ?e" using f32.fsum_mono terms(2) sum(1) by (metis fle_fin in_set_replicate is_fin.simps(1) fval.simps(1))
  have "fle (fdiv F32 (Num b) (Num (real k))) (fdiv F32 (Num b) ?m)"
    using m sum(2) len(3) by (auto simp: fdiv_fin intro!: f32.fround_mono divide_left_mono)
  moreover have "fle (fdiv F32 (Num b) ?m) (fdiv F32 ?e ?m)"
    using m sum(2) by (intro f32.fdiv_mono e) (auto simp: fle_fin)
  ultimately have "fle (Num q) (fdiv F32 ?e ?m)" unfolding q(1) by (rule fle_trans)
  then have "fle (fclamp (Num q) (Num 0) (Num 1)) (fclamp (fdiv F32 ?e ?m) (Num 0) (Num 1))"
    and nn: "fdiv F32 ?e ?m \<noteq> NaN" using fle_not_NaN by (auto intro: fclamp_mono)
  then have le: "q \<le> fval (fclamp (fdiv F32 ?e ?m) (Num 0) (Num 1))" "is_fin (fclamp (fdiv F32 ?e ?m) (Num 0) (Num 1))"
    using q frange_fclamp [OF nn, of 0 1] by (auto simp: fclamp_id fle_fin frange_def)
  then show ?thesis
    unfolding entropy_score_def Let_def by (auto simp: fsub_fin intro!: f32.fround_mono)
qed

lemma entropy_term_ge:
  assumes M: "libm_laws M" and p: "fdiv F32 (fof_u32 c) (fof_u32 t) = Num p" "1 / 1000 \<le> p" "p \<le> 2 powi (- int j)"
    and j: "j \<le> 126" and a: "fle (Num a) (fround F32 False (p * real j))"
  shows "fle (Num a) (entropy_term M t c)"
proof -
  have "fle (log2_32 M (Num p)) (log2_32 M (Num (2 powi (- int j))))"
    using p by (intro log2_laws.log2_mono [OF libm_laws.log2_32 [OF M]]) (auto simp: fle_fin)
  then have l: "fle (log2_32 M (Num p)) (Num (- real j))"
    using log2_laws.log2_pow2 [OF libm_laws.log2_32 [OF M], of "- int j"] j by simp
  have "(2 :: real) powi (- 149) \<le> 1 / 1000" by (simp add: power_int_minus field_simps)
  moreover have "(2 :: real) powi (- int j) \<le> 2 powi 128" using powi_le_iff [of "- int j" 128] by linarith
  ultimately have "is_fin (log2_32 M (Num p))"
    using p by (intro log2_laws.log2_fin [OF libm_laws.log2_32 [OF M]]) (auto simp del: power_int_minus)
  moreover have "p * real j \<le> - p * fval (log2_32 M (Num p))"
    using mult_left_mono [of "real j" "- fval (log2_32 M (Num p))" p] l calculation p by (simp add: fle_fin)
  ultimately have "fle (fround F32 False (p * real j)) (entropy_term M t c)"
    using p by (auto simp: entropy_term_def p(1) Let_def fmul_fin intro!: f32.fround_mono)
  with a show ?thesis by (rule fle_trans)
qed

lemma identical_fails:
  assumes "libm_laws M" "unicode_tables U" "\<And>xs. mset (order xs) = mset xs"
  shows "identical_prompts_give_high_score M U order = Inl AssertFailed"
proof -
  have b: "bigrams U ''show me model weights'' = [(''show'', ''me''), (''me'', ''model''), (''model'', ''weights'')]"
    using bigrams_ascii [OF assms(2), of "''show me model weights''"] bigrams_show by (simp add: byte_def)
  have "inverse_bigram_entropy M U order (replicate 5 ''show me model weights'') 20 = entropy_score M (replicate 3 5) 15"
    using libm_laws.repeated_prompt [OF assms(1,3), of U "''show me model weights''" 5 20] by (simp add: b numeral_3_eq_3)
  moreover have "fle (entropy_score M (replicate 3 5) 15) (fsub F32 (Num 1) (Num (1 / 2)))"
  proof (rule entropy_score_le [OF assms(1), where a = "11184811 / 33554432" and b = 1 and k = 2])
    have "fle (Num (11184811 / 33554432)) (entropy_term M 15 5)"
      by (rule entropy_term_ge [OF assms(1), where p = "11184811 / 33554432" and j = 1])
        (simp_all add: fof_u32_def fp_eval)
    then show "\<forall>c \<in> set (replicate 3 5). fle (Num (11184811 / 33554432)) (entropy_term M 15 c)" by simp
    have "fsum F32 [Num (11184811 / 33554432), Num (11184811 / 33554432), Num (11184811 / 33554432)] = Num 1"
      by (simp add: fsum_def fp_eval)
    then show "fsum F32 (replicate (length (replicate 3 (5 :: u32))) (Num (11184811 / 33554432))) = Num 1"
      by (simp add: numeral_3_eq_3)
    show "fdiv F32 (Num 1) (Num (real 2)) = Num (1 / 2)" by (simp add: fp_eval)
  qed simp_all
  moreover have "fsub F32 (Num 1) (Num (1 / 2)) = Num (1 / 2)" by (simp add: fp_eval)
  ultimately have "fle (inverse_bigram_entropy M U order (replicate 5 ''show me model weights'') 20) (flit F32 0.8)"
    unfolding vector_literals using fle_trans by (force simp: fle_fin)
  then show ?thesis
    unfolding identical_prompts_give_high_score_def Let_def by (simp add: numeral_eq_Suc asserted_def flt_def)
qed

lemma diverse_test:
  assumes "libm_laws M" "unicode_tables U" "\<And>xs. mset (order xs) = mset xs"
  shows "passes (diverse_prompts_give_low_score M U order)"
proof -
  let ?h = "[''what is the weather today'', ''tell me about quantum physics'', ''how do I bake sourdough bread'',
    ''explain the french revolution'', ''what are the rules of chess'', ''how does photosynthesis work'',
    ''describe the plot of hamlet'', ''what is machine learning'']"
  have "\<forall>p \<in> set ?h. bigrams U p = bigrams ascii_tables p"
    using bigrams_ascii [OF assms(2)] by (simp add: byte_def)
  then have ks: "concat (map (bigrams U) ?h) = concat (map (bigrams ascii_tables) ?h)" by simp
  have "\<exists>f. count_all (concat (map (bigrams ascii_tables) ?h)) = (f, 31) \<and> map snd f = 2 # replicate 29 1"
    unfolding list.map bigrams_diverse concat.simps append.simps by (rule counts_diverse)
  then obtain f where "count_all (concat (map (bigrams ascii_tables) ?h)) = (f, 31) \<and> map snd f = 2 # replicate 29 1" ..
  then have f: "count_all (concat (map (bigrams U) ?h)) = (f, 31)" "map snd f = 2 # replicate 29 1"
    by (simp_all only: ks)
  let ?cs = "map snd (order f)"
  have "mset ?cs = mset (map snd f)" using assms(3) [of f] by (simp only: mset_map)
  then have "length ?cs = length (map snd f)" "set ?cs = set (map snd f)" by (rule mset_eq_length, rule mset_eq_setD)
  then have cs: "length ?cs = 30" "set ?cs = {2, 1}" unfolding f(2) by simp_all
  have "fle (Num (1 / 8)) (entropy_term M 31 1)"
    by (rule entropy_term_ge [OF assms(1), where p = "1082401 / 33554432" and j = 4]) (simp_all add: fof_u32_def fp_eval)
  moreover have "fle (Num (1 / 8)) (entropy_term M 31 2)"
    by (rule entropy_term_ge [OF assms(1), where p = "1082401 / 16777216" and j = 3]) (simp_all add: fof_u32_def fp_eval)
  ultimately have terms: "\<forall>c \<in> set ?cs. fle (Num (1 / 8)) (entropy_term M 31 c)" unfolding cs by simp
  have sum: "fsum F32 (replicate 30 (Num (1 / 8))) = Num (15 / 4)"
    by (simp add: numeral_eq_Suc) (simp add: fsum_def fp_eval)
  have q: "fdiv F32 (Num (15 / 4)) (Num (real 5)) = Num (3 / 4)" by (simp add: fp_eval)
  have le: "fle (entropy_score M ?cs 31) (fsub F32 (Num 1) (Num (3 / 4)))"
    by (rule entropy_score_le [OF assms(1) terms _ _ _ _ _ _ _ _ q]) (simp_all add: cs(1) sum del: length_map)
  have score: "inverse_bigram_entropy M U order ?h 20 = entropy_score M ?cs 31"
    unfolding inverse_bigram_entropy_def history_tail_def using f(1) by simp
  have quarter: "fsub F32 (Num 1) (Num (3 / 4)) = Num (1 / 4)" by (simp add: fp_eval)
  have "flt (Num (1 / 4)) (flit F32 0.3)" unfolding vector_literals by (simp add: flt_fin)
  then have "flt (inverse_bigram_entropy M U order ?h 20) (flit F32 0.3)"
    unfolding score by (rule fle_flt_trans [OF le [unfolded quarter]])
  then show ?thesis unfolding diverse_prompts_give_low_score_def Let_def by (simp only: passes_asserted)
qed

lemma fewer_test: "passes (fewer_than_two_prompts_returns_zero M U order)"
  unfolding fewer_than_two_prompts_returns_zero_def inverse_bigram_entropy_def flit_01 by (simp add: feq_def)

lemma window_fails:
  assumes "libm_laws M" "unicode_tables U" "\<And>xs. mset (order xs) = mset xs"
  shows "window_limits_history_used M U order = Inl AssertFailed"
proof -
  have p: "bigrams U ''extract model gradient information now'' =
      [(''extract'', ''model''), (''model'', ''gradient''), (''gradient'', ''information''), (''information'', ''now'')]"
    using bigrams_ascii [OF assms(2), of "''extract model gradient information now''"] bigrams_extract by (simp add: byte_def)
  have "inverse_bigram_entropy M U order (xs @ replicate 20 ''extract model gradient information now'') 20 = Num 0" for xs
    by (rule repeated_prompt_scores_zero [OF assms(1,3), where j = 2]) (simp_all add: p)
  then show ?thesis
    unfolding window_limits_history_used_def Let_def by (simp add: asserted_def) (simp add: fp_eval)
qed

lemma length_split_ws_aux: "length (split_ws_aux cs cur) \<le> Suc (length cs)"
  by (induction cs cur rule: split_ws_aux.induct) auto

lemma length_chars: "length (chars s) \<le> length s"
  by (induction s rule: chars.induct) auto

lemma length_bigrams: "length (bigrams U p) \<le> length p"
proof -
  have "length (windows2 ws) = length ws - 1" for ws :: "string list" by (induction ws rule: windows2.induct) auto
  then show ?thesis
    using length_split_ws_aux [of "chars p" "[]"] length_chars [of p] by (simp add: bigrams_def split_whitespace_def)
qed

lemma unit_interval_test:
  assumes "libm_laws M" "\<And>xs. mset (order xs) = mset xs"
  shows "passes (entropy_score_in_unit_interval M U order)"
proof -
  define h where "h = map (\<lambda>i. ''prompt variation '' @ show_nat i @ '' about model extraction'') [0..<30]"
  have h: "length h = 30" by (simp add: h_def)
  have "length p \<le> 42" if "p \<in> set h" for p using that show_nat_length [of _ 2] by (auto simp: h_def)
  then have small: "length (bigrams U p) \<le> 42" if "p \<in> set (history_tail 20 h)" for p
    using that length_bigrams [of U p] in_set_dropD [of p] by (fastforce simp: history_tail_def h)
  have "length (concat (map (bigrams U) (history_tail 20 h))) = sum_list (map (\<lambda>p. length (bigrams U p)) (history_tail 20 h))"
    by (simp add: length_concat o_def)
  also have "\<dots> \<le> sum_list (map (\<lambda>_. 42) (history_tail 20 h))"
    by (rule sum_list_mono) (rule small)
  also have "\<dots> = 840" by (simp add: sum_list_triv history_tail_def h)
  finally have "length (concat (map (bigrams U) (history_tail 20 h))) < 2 ^ 32" by simp
  from libm_laws.inverse_bigram_entropy_range [OF assms(1), of order U 20 h, OF assms(2) this]
  show ?thesis unfolding entropy_score_in_unit_interval_def Let_def flit_01 h_def [symmetric] by (simp add: frange_fle)
qed


section \<open>Properties\<close>

text \<open>
  What the tests of the E-Score expect and what the code does: diverse prompts score below 0.3,
  short histories score 0 and every score is of the unit interval, as expected; but the two tests that
  expect repeated prompts to score high, above 0.8 and above 0.5, fail, for every lawful \<open>log2\<close>, every
  order of the map and every Unicode table.
\<close>

theorem entropy_tests_split:
  assumes "libm_laws M" "unicode_tables U" "\<And>xs. mset (order xs) = mset xs"
  shows "list_all passes
      [diverse_prompts_give_low_score M U order, fewer_than_two_prompts_returns_zero M U order,
       entropy_score_in_unit_interval M U order] \<and>
    identical_prompts_give_high_score M U order = Inl AssertFailed \<and>
    window_limits_history_used M U order = Inl AssertFailed"
  using diverse_test [OF assms] fewer_test unit_interval_test [OF assms(1,3)] identical_fails [OF assms] window_fails [OF assms]
  by simp

theorem entropy_tests_split_witness:
  "passes (diverse_prompts_give_low_score cr_libm ascii_tables rev) \<and>
   identical_prompts_give_high_score cr_libm ascii_tables rev = Inl AssertFailed"
  using entropy_tests_split [OF cr.libm_laws_axioms ascii_u.unicode_tables_axioms, of rev] by simp

end
