(* ===== verification/Regex.thy ===== *)
theory Regex
  imports Numeric
begin

text \<open>
  Regular expressions as backtracking engines document them: the syntax that the patterns of
  \<open>engine/src/defence/numeric.rs\<close> use, how it is written, and where it matches. An engine remains a
  parameter; \<open>implements E r\<close> says that the engine \<open>E\<close> accepts the pattern \<open>r\<close> as it is written and
  finds its matches. The patterns of the code are trees here, and their texts are the literals of the
  code (\<open>pattern_texts\<close>).
\<close>

section \<open>Patterns and their text\<close>

text \<open>A class is a list of ranges. \<open>Digits\<close> is one digit or more, as many as possible.\<close>

datatype rx =
    Digits
  | Literal char
  | Maybe rx
  | Then rx rx
  | Capture rx
  | Uncaptured rx
  | NotAfter "(char \<times> char) list"
  | NotBefore "(char \<times> char) list"

definition class_text :: "(char \<times> char) list \<Rightarrow> string" where
  "class_text rs = ''['' @ concat (map (\<lambda>(a, b). if a = b then [a] else [a, CHR ''-'', b]) rs) @ '']''"

primrec rx_text :: "rx \<Rightarrow> string" where
  "rx_text Digits = [CHR 0x5C] @ ''d+''"
| "rx_text (Literal c) = (if c = CHR ''.'' then [CHR 0x5C, c] else [c])"
| "rx_text (Maybe r) = rx_text r @ ''?''"
| "rx_text (Then r q) = rx_text r @ rx_text q"
| "rx_text (Capture r) = ''('' @ rx_text r @ '')''"
| "rx_text (Uncaptured r) = ''(?:'' @ rx_text r @ '')''"
| "rx_text (NotAfter rs) = ''(?<!'' @ class_text rs @ '')''"
| "rx_text (NotBefore rs) = ''(?!'' @ class_text rs @ '')''"

definition letters :: "(char \<times> char) list" where
  "letters = [(CHR ''a'', CHR ''z''), (CHR ''A'', CHR ''Z'')]"

definition number_rx :: rx where
  "number_rx =
     Then (NotAfter letters)
       (Then (Capture (Then (Maybe (Literal CHR ''-''))
                (Then Digits (Maybe (Uncaptured (Then (Literal CHR ''.'') Digits))))))
             (NotBefore (letters @ [(CHR ''%'', CHR ''%'')])))"

definition decimal_rx :: rx where
  "decimal_rx = Capture (Then Digits (Then (Literal CHR ''.'') Digits))"

definition value_rx :: rx where
  "value_rx = foldr (\<lambda>c. Then (Literal c)) ''value is '' (Capture (Then (Maybe (Literal CHR ''-'')) Digits))"

section \<open>Where a pattern matches\<close>

text \<open>
  A place in a text: the number of bytes before it, the last of them, and the rest. The ways a
  pattern can match from a place come in the order an engine prefers them, with the place each ends
  at and the last span captured.
\<close>

type_synonym place = "nat \<times> char option \<times> string"

fun digit_ends :: "place \<Rightarrow> place list" where
  "digit_ends (n, b, []) = []"
| "digit_ends (n, b, c # cs) =
     (if is_digit c then digit_ends (n + 1, Some c, cs) @ [(n + 1, Some c, cs)] else [])"

definition in_class :: "(char \<times> char) list \<Rightarrow> char \<Rightarrow> bool" where
  "in_class rs c = list_ex (\<lambda>(a, b). byte a \<le> byte c \<and> byte c \<le> byte b) rs"

primrec rx_runs :: "rx \<Rightarrow> place \<times> span option \<Rightarrow> (place \<times> span option) list" where
  "rx_runs Digits = (\<lambda>(p, g). map (\<lambda>q. (q, g)) (digit_ends p))"
| "rx_runs (Literal c) = (\<lambda>((n, b, s), g).
     case s of [] \<Rightarrow> [] | x # xs \<Rightarrow> if x = c then [((n + 1, Some x, xs), g)] else [])"
| "rx_runs (Maybe r) = (\<lambda>x. rx_runs r x @ [x])"
| "rx_runs (Then r q) = (\<lambda>x. concat (map (rx_runs q) (rx_runs r x)))"
| "rx_runs (Capture r) = (\<lambda>x. map (\<lambda>(p, g). (p, Some (fst (fst x), fst p))) (rx_runs r x))"
| "rx_runs (Uncaptured r) = rx_runs r"
| "rx_runs (NotAfter rs) = (\<lambda>((n, b, s), g).
     if (case b of None \<Rightarrow> False | Some c \<Rightarrow> in_class rs c) then [] else [((n, b, s), g)])"
| "rx_runs (NotBefore rs) = (\<lambda>((n, b, s), g).
     if (case s of [] \<Rightarrow> False | c # _ \<Rightarrow> in_class rs c) then [] else [((n, b, s), g)])"

text \<open>
  The successive matches of a text, leftmost first, each with the span of group 1. No pattern here
  matches the empty text, so a match always advances.
\<close>

function rx_scan :: "rx \<Rightarrow> place \<Rightarrow> (span \<times> span) list" where
  "rx_scan r (n, b, s) =
     (case s of
        [] \<Rightarrow> []
      | c # cs \<Rightarrow>
          (case rx_runs r ((n, b, s), None) of
             [] \<Rightarrow> rx_scan r (n + 1, Some c, cs)
           | ((n', b', s'), g) # _ \<Rightarrow>
               if length s' < length s
               then ((n, n'), case g of Some h \<Rightarrow> h | None \<Rightarrow> (n, n')) # rx_scan r (n', b', s')
               else rx_scan r (n + 1, Some c, cs)))"
  by pat_completeness auto
termination
  by (relation "measure (\<lambda>(r, (n, b, s)). length s)") auto

declare rx_scan.simps [simp del]

lemma rx_scan_eval:
  "rx_scan r (n, b, []) = []"
  "rx_scan r (n, b, c # cs) =
     (case rx_runs r ((n, b, c # cs), None) of
        [] \<Rightarrow> rx_scan r (n + 1, Some c, cs)
      | ((n', b', s'), g) # _ \<Rightarrow>
          if length s' < Suc (length cs)
          then ((n, n'), case g of Some h \<Rightarrow> h | None \<Rightarrow> (n, n')) # rx_scan r (n', b', s')
          else rx_scan r (n + 1, Some c, cs))"
  by (simp_all add: rx_scan.simps split: list.split)

section \<open>Engines\<close>

text \<open>
  The contract is about ASCII texts: there a byte is a character, and \<open>\d\<close> is one of the ten digits.
\<close>

definition implements :: "'re regex_engine \<Rightarrow> rx \<Rightarrow> bool" where
  "implements E r \<longleftrightarrow>
     (\<exists>re. re_new E (rx_text r) = Some re \<and> (\<forall>s. ascii s \<longrightarrow> re_captures E re s = rx_scan r (0, None, s)))"

locale look_around_engine =
  fixes E :: "'re regex_engine"
  assumes finds_numbers: "implements E number_rx" and finds_decimals: "implements E decimal_rx"
    and finds_values: "implements E value_rx"

text \<open>An engine of these patterns, which compiles a text to the pattern written so.\<close>

definition rx_engine :: "rx regex_engine" where
  "rx_engine =
     \<lparr>re_new = (\<lambda>p. find (\<lambda>r. rx_text r = p) [number_rx, decimal_rx, value_rx]),
      re_captures = (\<lambda>r s. rx_scan r (0, None, s))\<rparr>"

interpretation rx_eng: look_around_engine rx_engine
  by unfold_locales
    (simp_all add: implements_def rx_engine_def number_rx_def decimal_rx_def value_rx_def letters_def class_text_def)

lemma number_pattern_text: "rx_text number_rx = number_pattern"
  by (simp add: number_rx_def number_pattern_def letters_def class_text_def)

end
