(* ===== verification/Numeric_Tests.thy ===== *)
theory Numeric_Tests
  imports Regex Testing
begin

text \<open>
  The unit tests of \<open>engine/src/defence/numeric.rs\<close>, over a regular-expression engine: they panic with
  one that rejects look-around, as the \<open>regex\<close> crate does, and pass with every one that implements it.
\<close>

section \<open>\<open>defence/numeric.rs\<close>\<close>

definition contains :: "string \<Rightarrow> string \<Rightarrow> bool" where
  "contains s pat = list_ex (\<lambda>i. starts_with (drop i s) pat) [0..<Suc (length s)]"

definition same_seed_same_output :: "'re regex_engine \<Rightarrow> unit_test" where
  "same_seed_same_output E =
     (let txt = ''Score is 0.923, samples: 1000, threshold 0.5''
      in bind_run (perturb E txt (flit F32 0.05) ''fixed-seed-xyz'') (\<lambda>a.
         bind_run (perturb E txt (flit F32 0.05) ''fixed-seed-xyz'') (\<lambda>b. asserted (a = b))))"

definition different_seeds_different_output :: "'re regex_engine \<Rightarrow> unit_test" where
  "different_seeds_different_output E =
     (let txt = ''Accuracy 0.88 on 500 examples.''
      in bind_run (perturb E txt (flit F32 0.05) ''seed-aaa'') (\<lambda>a.
         bind_run (perturb E txt (flit F32 0.05) ''seed-bbb'') (\<lambda>b. asserted (a \<noteq> b))))"

definition zero_fraction_passthrough :: "'re regex_engine \<Rightarrow> unit_test" where
  "zero_fraction_passthrough E =
     (let txt = ''Value is 42 and rate is 0.75.''
      in bind_run (perturb E txt (flit F32 0) ''any-seed'') (\<lambda>a. asserted (a = txt)))"

definition empty_text_passthrough :: "'re regex_engine \<Rightarrow> unit_test" where
  "empty_text_passthrough E = bind_run (perturb E '''' (flit F32 0.05) ''seed'') (\<lambda>a. asserted (a = ''''))"

definition non_numeric_text_unchanged :: "'re regex_engine \<Rightarrow> unit_test" where
  "non_numeric_text_unchanged E =
     (let txt = ''This response contains no numbers whatsoever.''
      in bind_run (perturb E txt (flit F32 0.10) ''seed'') (\<lambda>a. asserted (a = txt)))"

definition integer_stays_integer :: "'re regex_engine \<Rightarrow> unit_test" where
  "integer_stays_integer E =
     bind_run (perturb E ''There are 100 items.'' (flit F32 0.05) ''seed-abc'') (\<lambda>result.
       asserted (\<not> contains result ''100.''))"

definition decimal_pattern :: string where
  "decimal_pattern = ''('' @ [CHR 0x5C] @ ''d+'' @ [CHR 0x5C] @ ''.'' @ [CHR 0x5C] @ ''d+)''"

definition first_capture :: "'re regex_engine \<Rightarrow> 're \<Rightarrow> string \<Rightarrow> string option" where
  "first_capture E re s = (case re_captures E re s of [] \<Rightarrow> None | (m, (c, d)) # _ \<Rightarrow> Some (sub_text s c d))"

definition float_preserves_decimal_places :: "'re regex_engine \<Rightarrow> unit_test" where
  "float_preserves_decimal_places E =
     bind_run (perturb E ''Confidence: 0.923.'' (flit F32 0.05) ''seed-abc'') (\<lambda>result.
       case re_new E decimal_pattern of
         None \<Rightarrow> Inl UnwrapFailed
       | Some re \<Rightarrow>
           (case first_capture E re result of
              None \<Rightarrow> ok ()
            | Some num \<Rightarrow>
                let decimals = (if CHR ''.'' \<in> set num then length num - length (takeWhile (\<lambda>c. c \<noteq> CHR ''.'') num) - 1 else 0)
                in asserted (decimals = 3)))"

definition value_pattern :: string where
  "value_pattern = ''value is (-?'' @ [CHR 0x5C] @ ''d+)''"

definition ffloor :: "fp \<Rightarrow> fp" where
  "ffloor x = fneg (fceil (fneg x))"

definition to_i64 :: "fp \<Rightarrow> int" where
  "to_i64 = fto_int (- (2 ^ 63)) (2 ^ 63 - 1)"

definition bounds_case :: "'re regex_engine \<Rightarrow> 're \<Rightarrow> nat \<Rightarrow> unit_test" where
  "bounds_case E re i =
     (let original = 1000; txt = ''value is '' @ show_int original; seed = ''test-seed-'' @ show_nat i
      in bind_run (perturb E txt (flit F32 0.10) seed) (\<lambda>result.
         case first_capture E re result of
           None \<Rightarrow> ok ()
         | Some num \<Rightarrow>
             (case parse_i64 num of
                None \<Rightarrow> Inl UnwrapFailed
              | Some perturbed \<Rightarrow>
                  let max_allowed = to_i64 (fceil (fmul F64 (fof_int F64 original) (flit F64 1.10)));
                      min_allowed = to_i64 (ffloor (fmul F64 (fof_int F64 original) (flit F64 0.90)))
                  in asserted (min_allowed \<le> perturbed \<and> perturbed \<le> max_allowed))))"

definition perturbation_within_bounds :: "'re regex_engine \<Rightarrow> unit_test" where
  "perturbation_within_bounds E =
     (case re_new E value_pattern of
        None \<Rightarrow> Inl UnwrapFailed
      | Some re \<Rightarrow> foldr (\<lambda>i. both (bounds_case E re i)) [0..<50] (ok ()))"

definition negative_numbers_perturbed_correctly :: "'re regex_engine \<Rightarrow> unit_test" where
  "negative_numbers_perturbed_correctly E =
     bind_run (perturb E ''Temperature delta is -3.5 degrees.'' (flit F32 0.05) ''neg-seed'') (\<lambda>result.
       asserted (contains result ''-''))"

definition numbers_in_words_not_matched :: "'re regex_engine \<Rightarrow> unit_test" where
  "numbers_in_words_not_matched E =
     (let txt = ''Play the mp3 file and check IPv4 connectivity in 3D.''
      in bind_run (perturb E txt (flit F32 0.10) ''seed'') (\<lambda>a. asserted (a = txt)))"

lemma fractions: "flit F32 0 = Num 0" "flit F32 0.05 = Num (13421773 / 268435456)" "flit F32 0.10 = Num (13421773 / 134217728)"
  by (simp_all add: fp_eval)

lemma perturb_no_pattern:
  "re_new E number_pattern = None \<Longrightarrow> s \<noteq> [] \<Longrightarrow> \<not> fle fraction (Num 0) \<Longrightarrow> perturb E s fraction seed = Inl UnwrapFailed"
  by (simp add: perturb_def)

lemma numeric_tests_panic:
  assumes "re_new E number_pattern = None"
  shows "same_seed_same_output E = Inl UnwrapFailed" "different_seeds_different_output E = Inl UnwrapFailed"
    "non_numeric_text_unchanged E = Inl UnwrapFailed" "integer_stays_integer E = Inl UnwrapFailed"
    "float_preserves_decimal_places E = Inl UnwrapFailed" "perturbation_within_bounds E = Inl UnwrapFailed"
    "negative_numbers_perturbed_correctly E = Inl UnwrapFailed" "numbers_in_words_not_matched E = Inl UnwrapFailed"
proof -
  have p: "perturb E (c # s) (Num (13421773 / 268435456)) seed = Inl UnwrapFailed"
    "perturb E (c # s) (Num (13421773 / 134217728)) seed = Inl UnwrapFailed" for c s seed
    by (simp_all add: perturb_no_pattern [OF assms] fle_fin)
  show "same_seed_same_output E = Inl UnwrapFailed" "different_seeds_different_output E = Inl UnwrapFailed"
    "non_numeric_text_unchanged E = Inl UnwrapFailed" "integer_stays_integer E = Inl UnwrapFailed"
    "float_preserves_decimal_places E = Inl UnwrapFailed" 
    "negative_numbers_perturbed_correctly E = Inl UnwrapFailed" "numbers_in_words_not_matched E = Inl UnwrapFailed"
    unfolding same_seed_same_output_def different_seeds_different_output_def non_numeric_text_unchanged_def
      integer_stays_integer_def float_preserves_decimal_places_def negative_numbers_perturbed_correctly_def
      numbers_in_words_not_matched_def fractions Let_def p bind_run.simps by (rule refl)+
  have "bounds_case E re i = Inl UnwrapFailed" for re i
    unfolding bounds_case_def fractions Let_def append.simps p bind_run.simps by (rule refl)
  then have "foldr (\<lambda>i. both (bounds_case E re i)) (i # is) (ok ()) = Inl UnwrapFailed" for re i "is"
    by (simp add: both_def)
  moreover have "[0..<50] = 0 # [1..<50::nat]" by (simp add: upt_rec)
  ultimately show "perturbation_within_bounds E = Inl UnwrapFailed"
    unfolding perturbation_within_bounds_def by (auto split: option.split)
qed

lemma numeric_tests_pass: "passes (zero_fraction_passthrough E)" "passes (empty_text_passthrough E)"
  unfolding zero_fraction_passthrough_def empty_text_passthrough_def fractions Let_def perturb_def by simp_all

text \<open>
  \<open>perturbation_within_bounds\<close> means to try fifty seeds. They share their first eight bytes, which are
  all the code reads.
\<close>

lemma fifty_seeds_are_one: "seed_to_u64 (''test-seed-'' @ s) = seed_to_u64 ''test-seed-''"
  by (simp add: seed_to_u64_def)

lemma bounds_case_one_seed: "bounds_case E re i = bounds_case E re j"
  unfolding bounds_case_def perturb_def Let_def fifty_seeds_are_one by (rule refl)


section \<open>What an engine with look-around finds\<close>

lemma pattern_texts: "rx_text number_rx = number_pattern" "rx_text decimal_rx = decimal_pattern"
  "rx_text value_rx = value_pattern"
  by (simp_all add: number_pattern_text decimal_rx_def decimal_pattern_def value_rx_def value_pattern_def)

lemmas rx_eval = rx_scan_eval number_rx_def decimal_rx_def value_rx_def letters_def in_class_def is_digit_def byte_def

lemma rx_matches:
  "rx_scan number_rx (0, None, ''This response contains no numbers whatsoever.'') = []"
  "rx_scan number_rx (0, None, ''Play the mp3 file and check IPv4 connectivity in 3D.'') = []"
  "rx_scan number_rx (0, None, ''There are 100 items.'') = [((10, 13), (10, 13))]"
  "rx_scan number_rx (0, None, ''Accuracy 0.88 on 500 examples.'') = [((9, 13), (9, 13)), ((17, 20), (17, 20))]"
  "rx_scan number_rx (0, None, ''Temperature delta is -3.5 degrees.'') = [((21, 25), (21, 25))]"
  "rx_scan number_rx (0, None, ''Confidence: 0.923.'') = [((12, 17), (12, 17))]"
  "rx_scan decimal_rx (0, None, ''Confidence: 0.918.'') = [((12, 17), (12, 17))]"
  "rx_scan number_rx (0, None, ''value is 1000'') = [((9, 13), (9, 13))]"
  "rx_scan value_rx (0, None, ''value is 969'') = [((0, 12), (9, 12))]"
  by (simp_all add: rx_eval)

lemma seed_values:
  "seed_to_u64 (''test-seed-'' @ s) = 3284502043800"
  "seed_to_u64 ''neg-seed'' = 3119019311246"
  "seed_to_u64 ''seed-aaa'' = 3256573827813"
  "seed_to_u64 ''seed-abc'' = 3256573827846"
  "seed_to_u64 ''seed-bbb'' = 3256573828806"
  by (simp_all add: seed_to_u64_def byte_def)

lemma factor_values:
  "perturbation_factor 3256573827813 9 (Num (13421773 / 268435456)) = Num (4523712104460747 / 4503599627370496)"
  "perturbation_factor 3256573827813 17 (Num (13421773 / 268435456)) = Num (1151088481797191 / 1125899906842624)"
  "perturbation_factor 3256573828806 9 (Num (13421773 / 268435456)) = Num (8660418949330979 / 9007199254740992)"
  "perturbation_factor 3256573828806 17 (Num (13421773 / 268435456)) = Num (8821702594577297 / 9007199254740992)"
  "perturbation_factor 3256573827846 10 (Num (13421773 / 268435456)) = Num (4571751441376087 / 4503599627370496)"
  "perturbation_factor 3119019311246 21 (Num (13421773 / 268435456)) = Num (1152721394466409 / 1125899906842624)"
  "perturbation_factor 3256573827846 12 (Num (13421773 / 268435456)) = Num (4479321904669893 / 4503599627370496)"
  "perturbation_factor 3284502043800 9 (Num (13421773 / 134217728)) = Num (8725812846357411 / 9007199254740992)"
  by (simp_all add: perturbation_factor_def lcg_def fp_eval)

lemma digit_chars:
  "char_of (48 :: nat) = CHR ''0''" "char_of (49 :: nat) = CHR ''1''" "char_of (50 :: nat) = CHR ''2''"
  "char_of (51 :: nat) = CHR ''3''" "char_of (52 :: nat) = CHR ''4''" "char_of (53 :: nat) = CHR ''5''"
  "char_of (54 :: nat) = CHR ''6''" "char_of (55 :: nat) = CHR ''7''" "char_of (56 :: nat) = CHR ''8''"
  "char_of (57 :: nat) = CHR ''9''"
  by (simp_all add: char_of_eq_iff)

lemma number_values:
  "perturb_number (Num (4523712104460747 / 4503599627370496)) ''0.88'' = ''0.88''"
  "perturb_number (Num (1151088481797191 / 1125899906842624)) ''500'' = ''511''"
  "perturb_number (Num (8660418949330979 / 9007199254740992)) ''0.88'' = ''0.85''"
  "perturb_number (Num (8821702594577297 / 9007199254740992)) ''500'' = ''490''"
  "perturb_number (Num (4571751441376087 / 4503599627370496)) ''100'' = ''102''"
  "perturb_number (Num (1152721394466409 / 1125899906842624)) ''-3.5'' = ''-3.6''"
  "perturb_number (Num (4479321904669893 / 4503599627370496)) ''0.923'' = ''0.918''"
  "perturb_number (Num (8725812846357411 / 9007199254740992)) ''1000'' = ''969''"
  by (simp_all add: perturb_number_def decimals_of_def parse_f64_def parse_i64_def split_sign_def is_number_def is_digit_def
      read_digits_def digit_val_def byte_def perturb_int_def fround_away.simps show_fixed_real_def show_int_def show_nat.simps
      digit_char_def digit_chars Let_def fp_eval)


context look_around_engine
begin

lemma engine_number:
  obtains re where "re_new E number_pattern = Some re"
    "\<And>s. ascii s \<Longrightarrow> re_captures E re s = rx_scan number_rx (0, None, s)"
  using finds_numbers unfolding implements_def pattern_texts by blast

lemma engine_perturb:
  assumes "\<not> fle fraction (Num 0)" "s \<noteq> []" "ascii s"
  shows "perturb E s fraction seed =
    ok (replace_all (\<lambda>pos. perturb_number (perturbation_factor (seed_to_u64 seed) (of_nat pos) fraction)) s 0
         (rx_scan number_rx (0, None, s)))"
  by (rule engine_number) (use assms in \<open>simp add: perturb_def\<close>)

lemma engine_runs:
  "perturb E ''This response contains no numbers whatsoever.'' (flit F32 0.10) ''seed'' =
     ok ''This response contains no numbers whatsoever.''"
  "perturb E ''Play the mp3 file and check IPv4 connectivity in 3D.'' (flit F32 0.10) ''seed'' =
     ok ''Play the mp3 file and check IPv4 connectivity in 3D.''"
  "perturb E ''There are 100 items.'' (flit F32 0.05) ''seed-abc'' = ok ''There are 102 items.''"
  "perturb E ''Accuracy 0.88 on 500 examples.'' (flit F32 0.05) ''seed-aaa'' = ok ''Accuracy 0.88 on 511 examples.''"
  "perturb E ''Accuracy 0.88 on 500 examples.'' (flit F32 0.05) ''seed-bbb'' = ok ''Accuracy 0.85 on 490 examples.''"
  "perturb E ''Temperature delta is -3.5 degrees.'' (flit F32 0.05) ''neg-seed'' = ok ''Temperature delta is -3.6 degrees.''"
  "perturb E ''Confidence: 0.923.'' (flit F32 0.05) ''seed-abc'' = ok ''Confidence: 0.918.''"
  "perturb E ''value is 1000'' (flit F32 0.10) (''test-seed-'' @ s) = ok ''value is 969''"
  unfolding fractions
  by (simp_all add: engine_perturb fle_fin rx_matches ascii_def byte_def sub_text_def seed_values seed_values(1) [simplified]
      factor_values number_values)

lemma engine_decimal:
  obtains re where "re_new E decimal_pattern = Some re" "first_capture E re ''Confidence: 0.918.'' = Some ''0.918''"
proof -
  obtain re where "re_new E decimal_pattern = Some re"
    "\<And>s. ascii s \<Longrightarrow> re_captures E re s = rx_scan decimal_rx (0, None, s)"
    using finds_decimals unfolding implements_def pattern_texts by blast
  with that show ?thesis by (simp add: first_capture_def rx_matches ascii_def byte_def sub_text_def)
qed

lemma engine_value:
  obtains re where "re_new E value_pattern = Some re" "first_capture E re ''value is 969'' = Some ''969''"
proof -
  obtain re where "re_new E value_pattern = Some re"
    "\<And>s. ascii s \<Longrightarrow> re_captures E re s = rx_scan value_rx (0, None, s)"
    using finds_values unfolding implements_def pattern_texts by blast
  with that show ?thesis by (simp add: first_capture_def rx_matches ascii_def byte_def sub_text_def)
qed

lemma bounds_pass:
  assumes "first_capture E re ''value is 969'' = Some ''969''"
  shows "passes (bounds_case E re i)"
proof -
  have "show_int 1000 = ''1000''" by (simp add: show_int_def show_nat.simps digit_char_def digit_chars)
  then have whole: "''value is '' @ show_int 1000 = ''value is 1000''" by simp
  have "parse_i64 ''969'' = Some 969"
    by (simp add: parse_i64_def split_sign_def is_number_def is_digit_def read_digits_def digit_val_def byte_def)
  moreover have "to_i64 (fceil (fmul F64 (fof_int F64 1000) (flit F64 1.10))) = 1100"
    by (simp add: to_i64_def fp_eval)
  moreover have "to_i64 (ffloor (fmul F64 (fof_int F64 1000) (flit F64 0.90))) = 900"
    by (simp add: to_i64_def ffloor_def fp_eval)
  ultimately show ?thesis unfolding bounds_case_def Let_def whole engine_runs bind_run.simps assms by simp
qed

lemma engine_tests:
  "passes (same_seed_same_output E)" "passes (different_seeds_different_output E)"
  "passes (non_numeric_text_unchanged E)" "passes (integer_stays_integer E)"
  "passes (float_preserves_decimal_places E)" "passes (perturbation_within_bounds E)"
  "passes (negative_numbers_perturbed_correctly E)" "passes (numbers_in_words_not_matched E)"
proof -
  show "passes (same_seed_same_output E)"
    unfolding same_seed_same_output_def fractions by (simp add: engine_perturb fle_fin ascii_def byte_def)
  show "passes (different_seeds_different_output E)"
    unfolding different_seeds_different_output_def Let_def engine_runs by simp
  show "passes (non_numeric_text_unchanged E)" "passes (numbers_in_words_not_matched E)"
    unfolding non_numeric_text_unchanged_def numbers_in_words_not_matched_def Let_def engine_runs by simp_all
  show "passes (integer_stays_integer E)" "passes (negative_numbers_perturbed_correctly E)"
    unfolding integer_stays_integer_def negative_numbers_perturbed_correctly_def engine_runs
    by (simp_all add: contains_def starts_with_def upt_rec)
  obtain re where "re_new E decimal_pattern = Some re" "first_capture E re ''Confidence: 0.918.'' = Some ''0.918''"
    by (rule engine_decimal)
  then show "passes (float_preserves_decimal_places E)"
    unfolding float_preserves_decimal_places_def engine_runs by simp
  obtain re where re: "re_new E value_pattern = Some re" "first_capture E re ''value is 969'' = Some ''969''"
    by (rule engine_value)
  have "passes (foldr (\<lambda>i. both (bounds_case E re i)) xs (ok ()))" for xs :: "nat list"
    by (induction xs) (simp_all add: bounds_pass [OF re(2)])
  then show "passes (perturbation_within_bounds E)"
    unfolding perturbation_within_bounds_def re(1) by simp
qed

end

section \<open>Properties\<close>



end
