(* ===== verification/Defence_Tests.thy ===== *)
theory Defence_Tests
  imports Pipeline Testing
begin

text \<open>
  The unit tests of \<open>engine/src/defence/synonym.rs\<close> and \<open>engine/src/defence/mod.rs\<close>, over a random
  generator, the cryptography and the numeric step the pipeline is given.
\<close>

section \<open>\<open>defence/synonym.rs\<close>\<close>

definition test_rng :: "'g rng \<Rightarrow> 'g" where
  "test_rng R = seed_from_u64 R 42"

definition substitutes_known_words :: "unicode \<Rightarrow> 'g rng \<Rightarrow> unit_test" where
  "substitutes_known_words U R =
     (let txt = ''The model prediction has high confidence.''
      in bind_run (substitute U R txt (flit F32 1) (test_rng R)) (\<lambda>(result, g). asserted (result \<noteq> txt)))"

definition preserves_text_without_known_words :: "unicode \<Rightarrow> 'g rng \<Rightarrow> unit_test" where
  "preserves_text_without_known_words U R =
     (let txt = ''Xyzzy plugh twisty maze passages.''
      in bind_run (substitute U R txt (flit F32 1) (test_rng R)) (\<lambda>(result, g). asserted (result = txt)))"

definition deterministic_with_same_rng_seed :: "unicode \<Rightarrow> 'g rng \<Rightarrow> unit_test" where
  "deterministic_with_same_rng_seed U R =
     (let txt = ''The model generates a prediction with high accuracy.''
      in bind_run (substitute U R txt (flit F32 0.5) (seed_from_u64 R 1)) (\<lambda>(r1, g1).
         bind_run (substitute U R txt (flit F32 0.5) (seed_from_u64 R 1)) (\<lambda>(r2, g2). asserted (r1 = r2))))"

definition preserves_capitalisation :: "unicode \<Rightarrow> 'g rng \<Rightarrow> unit_test" where
  "preserves_capitalisation U R =
     bind_run (substitute U R ''Prediction is high.'' (flit F32 1) (test_rng R)) (\<lambda>(result, g).
       case split_whitespace result of
         [] \<Rightarrow> Inl UnwrapFailed
       | first_word # _ \<Rightarrow>
           (case chars first_word of
              [] \<Rightarrow> Inl UnwrapFailed
            | c # _ \<Rightarrow> asserted (is_uppercase U c)))"

definition empty_input :: "unicode \<Rightarrow> 'g rng \<Rightarrow> unit_test" where
  "empty_input U R = bind_run (substitute U R '''' (flit F32 0.5) (test_rng R)) (\<lambda>(result, g). asserted (result = ''''))"

section \<open>\<open>defence/mod.rs\<close>\<close>

definition test_cfg :: defence_config where
  "test_cfg =
     \<lparr>tier2_synonym_ratio = flit F32 0.45, tier3_synonym_ratio = flit F32 0.70,
      numeric_perturb_pct = flit F32 0.05, reorder_sentences_on = True\<rparr>"

definition tier1_passthrough :: "unicode \<Rightarrow> 'g rng \<Rightarrow> crypto \<Rightarrow> 'g numeric_step \<Rightarrow> unit_test" where
  "tier1_passthrough U R C numeric =
     bind_run (run_pipeline U R C numeric ''Hello world.'' 1 ''abc'' 0 test_cfg) (\<lambda>r.
       both (asserted (served_response r = ''Hello world.'')) (asserted (steps_applied r = [])))"

definition tier2_applies_steps :: "unicode \<Rightarrow> 'g rng \<Rightarrow> crypto \<Rightarrow> 'g numeric_step \<Rightarrow> unit_test" where
  "tier2_applies_steps U R C numeric =
     bind_run (run_pipeline U R C numeric ''The model returns confidence values for each class.'' 2 ''abc'' 0 test_cfg) (\<lambda>r.
       asserted (steps_applied r \<noteq> []))"

definition deterministic_with_same_seed :: "unicode \<Rightarrow> 'g rng \<Rightarrow> crypto \<Rightarrow> 'g numeric_step \<Rightarrow> unit_test" where
  "deterministic_with_same_seed U R C numeric =
     (let txt = ''The quick brown fox jumps over the lazy dog.''
      in bind_run (run_pipeline U R C numeric txt 2 ''sess'' 1000 test_cfg) (\<lambda>r1.
         bind_run (run_pipeline U R C numeric txt 2 ''sess'' 1000 test_cfg) (\<lambda>r2.
           asserted (served_response r1 = served_response r2))))"

lemma split_texts:
  "split_whitespace ''The model prediction has high confidence.'' = [''The'', ''model'', ''prediction'', ''has'', ''high'', ''confidence.'']"
  "split_whitespace ''Xyzzy plugh twisty maze passages.'' = [''Xyzzy'', ''plugh'', ''twisty'', ''maze'', ''passages.'']"
  "split_whitespace ''Prediction is high.'' = [''Prediction'', ''is'', ''high.'']"
  by (simp_all add: split_whitespace_def is_white_def white_encodings_def byte_def char_width_def)

lemma trim_matches_cong:
  assumes "\<And>c. c \<in> set (chars s) \<Longrightarrow> P c = Q c"
  shows "trim_matches P s = trim_matches Q s"
proof -
  have "dropWhile P (chars s) = dropWhile Q (chars s)" using assms by (intro dropWhile_cong) auto
  moreover have "dropWhile P (rev (dropWhile Q (chars s))) = dropWhile Q (rev (dropWhile Q (chars s)))"
    using assms set_dropWhileD by (intro dropWhile_cong) fastforce+
  ultimately show ?thesis by (simp add: trim_matches_def)
qed

lemma trim_matches_set: "set (trim_matches P s) \<subseteq> set s"
proof
  fix c assume "c \<in> set (trim_matches P s)"
  then obtain x where "x \<in> set (chars s)" "c \<in> set x" by (auto simp: trim_matches_def dest!: set_dropWhileD)
  then have "c \<in> set (concat (chars s))" unfolding set_concat by blast
  then show "c \<in> set s" by simp
qed

lemmas core_eval = core_of_def trim_matches_def ascii_tables_def ascii_alpha_def byte_def char_width_def
  to_ascii_lower_def ascii_upper_def synonyms_of_def substitution_table_def Let_def

lemma char_x: "char_of (120 :: nat) = CHR ''x''"
  by (simp add: char_of_eq_iff)

lemma unknown_cores:
  "core_of ascii_tables ''Xyzzy'' = ''xyzzy''" "core_of ascii_tables ''plugh'' = ''plugh''"
  "core_of ascii_tables ''twisty'' = ''twisty''" "core_of ascii_tables ''maze'' = ''maze''"
  "core_of ascii_tables ''passages.'' = ''passages''"
  by (simp_all add: core_eval char_x)

lemma no_known_word: "(\<And>w. w \<in> set ws \<Longrightarrow> synonyms_of (core_of U w) = None) \<Longrightarrow> substitutable U ws = []"
  by (simp add: substitutable_def filter_empty_conv)

context synonym_env
begin

lemma core_of_ascii: "ascii w \<Longrightarrow> core_of U w = core_of ascii_tables w"
proof -
  assume w: "ascii w"
  have "is_alphabetic U c = is_alphabetic ascii_tables c" if "c \<in> set (chars w)" for c
    using that w alphabetic_ascii ascii_u.alphabetic_ascii by (auto simp: chars_ascii ascii_def)
  then have t: "trim_matches (\<lambda>c. \<not> is_alphabetic U c) w = trim_matches (\<lambda>c. \<not> is_alphabetic ascii_tables c) w"
    by (intro trim_matches_cong) blast
  have "ascii (trim_matches (\<lambda>c. \<not> is_alphabetic ascii_tables c) w)"
    using w trim_matches_set by (fastforce simp: ascii_def)
  then show ?thesis unfolding core_of_def t using lowercase_ascii ascii_u.lowercase_ascii by simp
qed

lemma known_words: "substitutable U (split_whitespace ''The model prediction has high confidence.'') \<noteq> []"
proof -
  have "core_of U ''model'' = core_of ascii_tables ''model''" by (rule core_of_ascii) (simp add: byte_def)
  then have "synonyms_of (core_of U ''model'') \<noteq> None" by (simp add: core_eval)
  then have "1 \<in> set (substitutable U (split_whitespace ''The model prediction has high confidence.''))"
    unfolding substitutable_set split_texts by simp
  then show ?thesis by auto
qed

lemma unknown_words: "substitutable U (split_whitespace ''Xyzzy plugh twisty maze passages.'') = []"
proof -
  let ?ws = "[''Xyzzy'', ''plugh'', ''twisty'', ''maze'', ''passages.'']"
  have none: "\<forall>w \<in> set ?ws. synonyms_of (core_of ascii_tables w) = None"
    by (simp add: unknown_cores) (simp add: synonyms_of_def substitution_table_def)
  have "\<forall>w \<in> set ?ws. ascii w" by (simp add: byte_def)
  then have "synonyms_of (core_of U w) = None" if "w \<in> set ?ws" for w
    using that none by (simp only: core_of_ascii)
  then show ?thesis unfolding split_texts by (rule no_known_word)
qed

lemma known_test: "passes (substitutes_known_words U R)"
proof -
  let ?t = "''The model prediction has high confidence.''"
  have "whole_chars ?t" by (simp add: whole_chars_ascii byte_def)
  from substitute_changes [OF this known_words, of "flit F32 1" "test_rng R"] obtain out g' where
    s: "substitute U R ?t (flit F32 1) (test_rng R) = ok (out, g')"
    "card {i. i < length (split_whitespace ?t) \<and> split_whitespace out ! i \<noteq> split_whitespace ?t ! i} =
      n_replace (length (substitutable U (split_whitespace ?t))) (flit F32 1)" by blast
  have "out \<noteq> ?t" using s(2) n_replace_bounds [of "length (substitutable U (split_whitespace ?t))" "flit F32 1"] known_words
    by auto
  then show ?thesis unfolding substitutes_known_words_def Let_def s(1) by simp
qed

lemma synonym_tests:
  "passes (preserves_text_without_known_words U R)" "passes (deterministic_with_same_rng_seed U R)"
  "passes (empty_input U R)"
proof -
  show "passes (preserves_text_without_known_words U R)"
    unfolding preserves_text_without_known_words_def Let_def substitute_def unknown_words by simp
  obtain r where "substitute U R ''The model generates a prediction with high accuracy.'' (flit F32 0.5) (seed_from_u64 R 1) = ok r"
    using substitute_no_panic by blast
  then show "passes (deterministic_with_same_rng_seed U R)"
    unfolding deterministic_with_same_rng_seed_def Let_def by (simp add: split_beta)
  show "passes (empty_input U R)"
    unfolding empty_input_def substitute_def by (simp add: split_whitespace_def)
qed

lemma capital_first:
  assumes "65 \<le> byte c" "byte c \<le> 90"
  shows "\<exists>d ds. chars (c # cs) = d # ds \<and> is_uppercase U d"
  using assms uppercase_ascii [of c] by (simp add: char_width_def Let_def ascii_upper_def)

lemma capitalisation_test: "passes (preserves_capitalisation U R)"
proof -
  let ?t = "''Prediction is high.''" and ?P = "CHR ''P''"
  have whole: "whole_chars ?t" by (simp add: whole_chars_ascii byte_def)
  have "core_of U ''high.'' = core_of ascii_tables ''high.''" by (rule core_of_ascii) (simp add: byte_def)
  then have "synonyms_of (core_of U ''high.'') \<noteq> None" by (simp add: core_eval)
  then have "2 \<in> set (substitutable U (split_whitespace ?t))" unfolding substitutable_set split_texts by simp
  then have ne: "substitutable U (split_whitespace ?t) \<noteq> []" by auto
  obtain out g' ws' chosen where s: "substitute U R ?t (flit F32 1) (test_rng R) = ok (out, g')"
    "split_whitespace out = ws'" "length ws' = length (split_whitespace ?t)"
    "\<forall>i < length ws'. if i \<in> set chosen then replacement U (split_whitespace ?t ! i) (ws' ! i) else ws' ! i = split_whitespace ?t ! i"
    by (rule substitute_ok [OF whole ne])
  then obtain w ws where w: "ws' = w # ws" "replacement U ''Prediction'' w \<or> w = ''Prediction''"
    unfolding split_texts by (cases ws') (auto split: if_splits)
  have P: "chars ''Prediction'' = map (\<lambda>c. [c]) ''Prediction''" by (rule chars_ascii) (simp add: byte_def)
  have "\<exists>d ds. chars w = d # ds \<and> is_uppercase U d"
  proof (cases "w = ''Prediction''")
    case True
    then show ?thesis using capital_first [of ?P "''rediction''"] by (simp add: byte_def)
  next
    case False
    then obtain syns x where x: "synonyms_of (core_of U ''Prediction'') = Some syns" "x \<in> set syns"
      "w = leading_of U ''Prediction'' @ recase U ''Prediction'' x @ trailing_of U ''Prediction''"
      using w(2) by (auto simp: replacement_def)
    have "leading_of U ''Prediction'' = []"
      unfolding leading_of_def P using alphabetic_ascii [of ?P] by (simp add: byte_def ascii_alpha_def)
    moreover obtain c cs where c: "x = c # cs" "97 \<le> byte c" "byte c \<le> 122"
      using synonyms_of_ok(3) [OF x(1,2)] by (cases x) (auto simp: plain_word_def)
    moreover have "is_char_boundary x 1"
      using alpha_word_chars(1) [OF plain_alpha [OF synonyms_of_ok(3) [OF x(1,2)]]] c by (intro is_char_boundary_ascii) auto
    then have "recase U ''Prediction'' x = to_ascii_upper c # cs"
      unfolding recase_def P using c uppercase_ascii [of ?P]
      by (simp add: byte_def ascii_upper_def capitalise_def)
    ultimately show ?thesis using x(3) upper_letter(1) [of c] 
        capital_first [of "to_ascii_upper c" "cs @ trailing_of U ''Prediction''"] by simp
  qed
  then show ?thesis unfolding preserves_capitalisation_def s(1) bind_run.simps prod.case s(2) w(1) by auto
qed

lemma pipeline_tests:
  assumes "crypto_laws C" "\<forall>t p g. \<exists>x. numeric t p g = Inr x"
  shows "passes (tier1_passthrough U R C numeric)" "passes (tier2_applies_steps U R C numeric)"
    "passes (deterministic_with_same_seed U R C numeric)"
proof -
  have ok: "\<exists>r. run_pipeline U R C numeric clean tier h t test_cfg = Inr r" for clean tier h t
    by (rule crypto_laws.run_pipeline_no_panic [OF assms(1) synonym_env_axioms assms(2)])
  show "passes (tier1_passthrough U R C numeric)"
    by (simp add: tier1_passthrough_def run_pipeline_def)
  obtain r where r: "run_pipeline U R C numeric ''The model returns confidence values for each class.'' 2 ''abc'' 0 test_cfg = Inr r"
    using ok by blast
  have "(2 :: u8) \<noteq> 1" by simp
  then have "steps_applied r \<noteq> []"
    by (rule run_pipeline_Inr [OF r]) (auto dest: run_steps_steps)
  then show "passes (tier2_applies_steps U R C numeric)" unfolding tier2_applies_steps_def r by simp
  obtain r' where "run_pipeline U R C numeric ''The quick brown fox jumps over the lazy dog.'' 2 ''sess'' 1000 test_cfg = Inr r'"
    using ok by blast
  then show "passes (deterministic_with_same_seed U R C numeric)" unfolding deterministic_with_same_seed_def Let_def by simp
qed

text \<open>A numeric step that panics, as the one whose pattern does not compile, panics in both Tier 2 tests.\<close>

lemma pipeline_tests_panic:
  assumes "crypto_laws C"
  shows "tier2_applies_steps U R C (\<lambda>_ _ _. Inl p) = Inl p" "deterministic_with_same_seed U R C (\<lambda>_ _ _. Inl p) = Inl p"
proof -
  have "run_pipeline U R C (\<lambda>_ _ _. Inl p) clean 2 h t test_cfg = Inl p" for clean h t
  proof -
    have two: "(2 :: u8) \<noteq> 1" "(2 :: u8) \<noteq> 3" by simp_all
    obtain x g' where "substitute U R clean (tier2_synonym_ratio test_cfg)
        (seed_from_u64 R (from_le_bytes (take 8 (derive_session_seed C h t)))) = Inr (x, g')"
      using substitute_no_panic by (metis surj_pair)
    then show ?thesis
      using two by (simp add: run_pipeline_def Let_def crypto_laws.seed_length [OF assms] run_steps_def synonym_step_def perturb_step_def)
  qed
  then show "tier2_applies_steps U R C (\<lambda>_ _ _. Inl p) = Inl p" "deterministic_with_same_seed U R C (\<lambda>_ _ _. Inl p) = Inl p"
    by (simp_all add: tier2_applies_steps_def deterministic_with_same_seed_def)
qed

end


section \<open>Properties\<close>

text \<open>
  The tests of the synonym step and the Tier 1 test of the pipeline pass, whatever the generator draws,
  the HMAC returns and the Unicode tables say beyond ASCII. The two Tier 2 tests pass with a numeric
  step that does not panic, and panic with one that does.
\<close>

theorem defence_tests_split:
  assumes "unicode_tables U" "rng_laws R" "crypto_laws C"
  shows "list_all passes
      [substitutes_known_words U R, preserves_text_without_known_words U R, deterministic_with_same_rng_seed U R,
       preserves_capitalisation U R, empty_input U R, tier1_passthrough U R C numeric]"
    and "(\<forall>t p g. \<exists>x. numeric t p g = Inr x) \<Longrightarrow>
      list_all passes [tier2_applies_steps U R C numeric, deterministic_with_same_seed U R C numeric]"
    and "list_all (\<lambda>t. t = Inl p)
      [tier2_applies_steps U R C (\<lambda>_ _ _. Inl p), deterministic_with_same_seed U R C (\<lambda>_ _ _. Inl p)]"
proof -
  note env = synonym_env.intro [OF assms(1,2)]
  show "list_all passes
      [substitutes_known_words U R, preserves_text_without_known_words U R, deterministic_with_same_rng_seed U R,
       preserves_capitalisation U R, empty_input U R, tier1_passthrough U R C numeric]"
    by (simp add: synonym_env.known_test [OF env] synonym_env.synonym_tests [OF env]
        synonym_env.capitalisation_test [OF env] tier1_passthrough_def run_pipeline_def)
  show "list_all passes [tier2_applies_steps U R C numeric, deterministic_with_same_seed U R C numeric]"
    if "\<forall>t p g. \<exists>x. numeric t p g = Inr x"
    by (simp only: list.pred_inject simp_thms synonym_env.pipeline_tests [OF env assms(3) that])
  show "list_all (\<lambda>t. t = Inl p)
      [tier2_applies_steps U R C (\<lambda>_ _ _. Inl p), deterministic_with_same_seed U R C (\<lambda>_ _ _. Inl p)]"
    by (simp only: list.pred_inject simp_thms synonym_env.pipeline_tests_panic [OF env assms(3)])
qed

end
