(* ===== verification/Gateway_Config.thy ===== *)
theory Gateway_Config
  imports Text
begin

text \<open>
  \<open>gateway/internal/config/config.go\<close>: the gateway's settings, \<open>Load\<close> and \<open>validate\<close>. A Go
  \<open>int\<close> and a \<open>time.Duration\<close> (nanoseconds) are 64-bit words read as signed numbers. The \<open>viper\<close>
  library, which merges defaults, file and environment and decodes them, is the record \<open>viper\<close>
  over its type \<open>'v\<close> of values; \<open>viper_laws\<close> is what the gateway relies on.
\<close>

section \<open>The structs\<close>

type_synonym go_int = "64 word"

record gw_server =
  gs_public_port :: go_int
  gs_admin_port :: go_int
  gs_read_timeout :: go_int
  gs_write_timeout :: go_int
  gs_shutdown_timeout :: go_int
  gs_trusted_proxies :: "string list"

record gw_auth =
  ga_jwt_secret :: string
  ga_jwt_expiry_minutes :: go_int
  ga_admin_username :: string
  ga_admin_password :: string
  ga_api_key_header :: string
  ga_api_key :: string

record gw_engine =
  ge_address :: string
  ge_dial_timeout :: go_int
  ge_request_timeout :: go_int
  ge_max_retries :: go_int
  ge_use_tls :: bool
  ge_tls_cert_file :: string
  ge_tls_key_file :: string

record gw_limits =
  gl_requests_per_second :: fp
  gl_burst :: go_int
  gl_max_prompt_bytes :: go_int
  gl_session_header_name :: string

record gw_logging =
  gg_level :: string
  gg_format :: string

record gw_config =
  gw_server :: gw_server
  gw_auth :: gw_auth
  gw_engine :: gw_engine
  gw_limits :: gw_limits
  gw_logging :: gw_logging

section \<open>The library\<close>

type_synonym 'v settings = "(string \<times> 'v) list"

record 'v viper =
  vp_str :: "string \<Rightarrow> 'v"
  vp_int :: "int \<Rightarrow> 'v"
  vp_f64 :: "fp \<Rightarrow> 'v"
  vp_bool :: "bool \<Rightarrow> 'v"
  vp_strs :: "string list \<Rightarrow> 'v"
  vp_as_str :: "'v \<Rightarrow> string + string"
  vp_as_int :: "'v \<Rightarrow> string + go_int"
  vp_as_f64 :: "'v \<Rightarrow> string + fp"
  vp_as_bool :: "'v \<Rightarrow> string + bool"
  vp_as_duration :: "'v \<Rightarrow> string + go_int"
  vp_as_strs :: "'v \<Rightarrow> string + string list"
  vp_all_settings :: "'v settings \<Rightarrow> 'v settings \<Rightarrow> string \<Rightarrow> char \<times> char \<Rightarrow> (string \<Rightarrow> string option) \<Rightarrow> string \<Rightarrow> 'v option"
  vp_decode_error :: "string list \<Rightarrow> string"

text \<open>
  \<open>vp_all_settings defaults file prefix replacer env\<close> is what \<open>Unmarshal\<close> decodes after
  \<open>AutomaticEnv\<close>. Viper looks an environment variable up for a key it knows from a default, the
  file or \<open>BindEnv\<close> (which the gateway does not call): a key known from nowhere has no value.
\<close>

locale viper_laws =
  fixes P :: "'v viper"
  assumes unknown_key: "map_of defaults k = None \<Longrightarrow> map_of file k = None \<Longrightarrow>
      vp_all_settings P defaults file prefix repl env k = None"

section \<open>Loading\<close>

text \<open>\<open>ReadInConfig\<close>: no file, a file that cannot be read or parsed, or its settings.\<close>

datatype 'v config_file = FileNotFound | FileUnreadable string | FileSettings "'v settings"

definition gw_defaults :: "'v viper \<Rightarrow> 'v settings" where
  "gw_defaults P =
     [(''server.public_port'', vp_int P 8080),
      (''server.admin_port'', vp_int P 8081),
      (''server.read_timeout'', vp_str P ''10s''),
      (''server.write_timeout'', vp_str P ''30s''),
      (''server.shutdown_timeout'', vp_str P ''15s''),
      (''server.trusted_proxies'', vp_strs P []),
      (''auth.jwt_expiry_minutes'', vp_int P 480),
      (''auth.admin_username'', vp_str P ''admin''),
      (''auth.api_key_header'', vp_str P ''X-Vyse-Key''),
      (''engine.address'', vp_str P ''localhost:50051''),
      (''engine.dial_timeout'', vp_str P ''5s''),
      (''engine.request_timeout'', vp_str P ''30s''),
      (''engine.max_retries'', vp_int P 3),
      (''engine.use_tls'', vp_bool P False),
      (''limits.requests_per_second'', vp_f64 P (Num 10)),
      (''limits.burst'', vp_int P 20),
      (''limits.max_prompt_bytes'', vp_int P 16384),
      (''limits.session_header_name'', vp_str P ''X-Vyse-Session''),
      (''logging.level'', vp_str P ''info''),
      (''logging.format'', vp_str P ''json'')]"

text \<open>A field whose key has no value keeps the zero value of its type.\<close>

definition field :: "(string \<Rightarrow> 'v option) \<Rightarrow> ('v \<Rightarrow> string + 'a) \<Rightarrow> 'a \<Rightarrow> string \<Rightarrow> string + 'a" where
  "field look conv zero k = (case look k of None \<Rightarrow> Inr zero | Some v \<Rightarrow> conv v)"

definition message :: "string + 'a \<Rightarrow> string list" where
  "message x = (case x of Inl m \<Rightarrow> [m] | Inr _ \<Rightarrow> [])"

definition unmarshal :: "'v viper \<Rightarrow> (string \<Rightarrow> 'v option) \<Rightarrow> string + gw_config" where
  "unmarshal P look =
     (let str = field look (vp_as_str P) []; num = field look (vp_as_int P) 0;
          dur = field look (vp_as_duration P) 0; bit = field look (vp_as_bool P) False;
          strs = field look (vp_as_strs P) [] ''server.trusted_proxies'';
          rps = field look (vp_as_f64 P) (Num 0) ''limits.requests_per_second'';
          errors =
            concat (map (\<lambda>k. message (str k))
              [''auth.jwt_secret'', ''auth.admin_username'', ''auth.admin_password'', ''auth.api_key_header'',
               ''auth.api_key'', ''engine.address'', ''engine.tls_cert_file'', ''engine.tls_key_file'',
               ''limits.session_header_name'', ''logging.level'', ''logging.format'']) @
            concat (map (\<lambda>k. message (num k))
              [''server.public_port'', ''server.admin_port'', ''auth.jwt_expiry_minutes'', ''engine.max_retries'',
               ''limits.burst'', ''limits.max_prompt_bytes'']) @
            concat (map (\<lambda>k. message (dur k))
              [''server.read_timeout'', ''server.write_timeout'', ''server.shutdown_timeout'',
               ''engine.dial_timeout'', ''engine.request_timeout'']) @
            message (bit ''engine.use_tls'') @ message strs @ message rps
      in if errors \<noteq> [] then Inl (vp_decode_error P errors)
         else Inr
           \<lparr>gw_server = \<lparr>gs_public_port = projr (num ''server.public_port''),
              gs_admin_port = projr (num ''server.admin_port''),
              gs_read_timeout = projr (dur ''server.read_timeout''),
              gs_write_timeout = projr (dur ''server.write_timeout''),
              gs_shutdown_timeout = projr (dur ''server.shutdown_timeout''), gs_trusted_proxies = projr strs\<rparr>,
            gw_auth = \<lparr>ga_jwt_secret = projr (str ''auth.jwt_secret''),
              ga_jwt_expiry_minutes = projr (num ''auth.jwt_expiry_minutes''),
              ga_admin_username = projr (str ''auth.admin_username''),
              ga_admin_password = projr (str ''auth.admin_password''),
              ga_api_key_header = projr (str ''auth.api_key_header''), ga_api_key = projr (str ''auth.api_key'')\<rparr>,
            gw_engine = \<lparr>ge_address = projr (str ''engine.address''),
              ge_dial_timeout = projr (dur ''engine.dial_timeout''),
              ge_request_timeout = projr (dur ''engine.request_timeout''),
              ge_max_retries = projr (num ''engine.max_retries''), ge_use_tls = projr (bit ''engine.use_tls''),
              ge_tls_cert_file = projr (str ''engine.tls_cert_file''),
              ge_tls_key_file = projr (str ''engine.tls_key_file'')\<rparr>,
            gw_limits = \<lparr>gl_requests_per_second = projr rps, gl_burst = projr (num ''limits.burst''),
              gl_max_prompt_bytes = projr (num ''limits.max_prompt_bytes''),
              gl_session_header_name = projr (str ''limits.session_header_name'')\<rparr>,
            gw_logging = \<lparr>gg_level = projr (str ''logging.level''), gg_format = projr (str ''logging.format'')\<rparr>\<rparr>)"

definition gw_errors :: "gw_config \<Rightarrow> string list" where
  "gw_errors c =
     (if ga_jwt_secret (gw_auth c) = [] then [''auth.jwt_secret must be set via VYSE_AUTH_JWT_SECRET''] else []) @
     (if length (ga_jwt_secret (gw_auth c)) < 32 then [''auth.jwt_secret must be at least 32 characters''] else []) @
     (if ga_admin_password (gw_auth c) = []
      then [''auth.admin_password must be set via VYSE_AUTH_ADMIN_PASSWORD''] else []) @
     (if ga_api_key (gw_auth c) = [] then [''auth.api_key must be set via VYSE_AUTH_API_KEY''] else []) @
     (if length (ga_api_key (gw_auth c)) < 32 then [''auth.api_key must be at least 32 characters''] else []) @
     (if ge_address (gw_engine c) = [] then [''engine.address must not be empty''] else []) @
     (if fle (gl_requests_per_second (gw_limits c)) (Num 0)
      then [''limits.requests_per_second must be greater than 0''] else []) @
     (if sint (gl_burst (gw_limits c)) \<le> 0 then [''limits.burst must be greater than 0''] else []) @
     (if sint (gl_max_prompt_bytes (gw_limits c)) \<le> 0
      then [''limits.max_prompt_bytes must be greater than 0''] else [])"

definition gw_separator :: string where
  "gw_separator = CHR 0x0A # ''  - ''"

definition gw_validate :: "gw_config \<Rightarrow> string + unit" where
  "gw_validate c =
     (if gw_errors c = [] then Inr () else Inl (gw_separator @ join gw_separator (gw_errors c)))"

text \<open>
  \<open>Load\<close>, with the file found in one of the two directories and the process environment. The prefix
  of the variables is \<open>VYSE\<close>, and the points of a key become underscores.
\<close>

definition gw_load :: "'v viper \<Rightarrow> 'v config_file \<Rightarrow> (string \<Rightarrow> string option) \<Rightarrow> string + gw_config" where
  "gw_load P file env =
     (let decode = (\<lambda>settings.
            case unmarshal P (vp_all_settings P (gw_defaults P) settings ''VYSE'' (CHR ''.'', CHR ''_'') env) of
              Inl m \<Rightarrow> Inl (''unmarshalling config: '' @ m)
            | Inr c \<Rightarrow> (case gw_validate c of
                Inl m \<Rightarrow> Inl (''invalid config: '' @ m)
              | Inr _ \<Rightarrow> Inr c))
      in case file of
           FileNotFound \<Rightarrow> decode []
         | FileUnreadable m \<Rightarrow> Inl (''reading config file: '' @ m)
         | FileSettings settings \<Rightarrow> decode settings)"

section \<open>What an accepted configuration guarantees\<close>

lemma gw_validate_Inr:
  "gw_validate c = Inr () \<longleftrightarrow>
     32 \<le> length (ga_jwt_secret (gw_auth c)) \<and> ga_admin_password (gw_auth c) \<noteq> [] \<and>
     32 \<le> length (ga_api_key (gw_auth c)) \<and> ge_address (gw_engine c) \<noteq> [] \<and>
     \<not> fle (gl_requests_per_second (gw_limits c)) (Num 0) \<and>
     0 < sint (gl_burst (gw_limits c)) \<and> 0 < sint (gl_max_prompt_bytes (gw_limits c))"
  by (auto simp: gw_validate_def gw_errors_def)

lemma gw_validate_secrets:
  assumes "gw_validate c = Inr ()"
  shows "ga_jwt_secret (gw_auth c) \<noteq> []" "ga_admin_password (gw_auth c) \<noteq> []" "ga_api_key (gw_auth c) \<noteq> []"
  using assms by (auto simp: gw_validate_Inr)

text \<open>The comparison accepts a rate that is not a number.\<close>

lemma NaN_rate_accepted:
  "gw_validate c = Inr () \<Longrightarrow>
     gw_validate (c\<lparr>gw_limits := (gw_limits c)\<lparr>gl_requests_per_second := NaN\<rparr>\<rparr>) = Inr ()"
  by (simp add: gw_validate_Inr fle_def)

lemma gw_load_cases:
  assumes "gw_load P file env = Inr c"
  obtains settings where
    "settings = (case file of FileSettings s \<Rightarrow> s | _ \<Rightarrow> [])"
    "unmarshal P (vp_all_settings P (gw_defaults P) settings ''VYSE'' (CHR ''.'', CHR ''_'') env) = Inr c"
    "gw_validate c = Inr ()"
  using assms by (cases "file") (auto simp: gw_load_def Let_def split: sum.splits)

lemma unmarshal_absent:
  assumes "unmarshal P look = Inr c"
  shows "look ''auth.jwt_secret'' = None \<Longrightarrow> ga_jwt_secret (gw_auth c) = []"
    and "look ''auth.admin_password'' = None \<Longrightarrow> ga_admin_password (gw_auth c) = []"
    and "look ''auth.api_key'' = None \<Longrightarrow> ga_api_key (gw_auth c) = []"
  using assms by (auto simp: unmarshal_def Let_def field_def split: if_splits)

lemma secrets_have_no_default:
  "map_of (gw_defaults P) ''auth.jwt_secret'' = None"
  "map_of (gw_defaults P) ''auth.admin_password'' = None"
  "map_of (gw_defaults P) ''auth.api_key'' = None"
  by (simp_all add: gw_defaults_def)

section \<open>A provider\<close>

text \<open>
  The documented precedence over a type of values: an environment variable that is set and not
  empty, then the file, then the default, for a key of the file or the defaults.
\<close>

datatype viper_value = VStr string | VInt int | VF64 fp | VBool bool | VStrs "string list"

definition env_name :: "string \<Rightarrow> char \<times> char \<Rightarrow> string \<Rightarrow> string" where
  "env_name prefix repl k =
     map to_ascii_upper (prefix @ ''_'' @ map (\<lambda>c. if c = fst repl then snd repl else c) k)"

definition layered :: "viper_value settings \<Rightarrow> viper_value settings \<Rightarrow> string \<Rightarrow> char \<times> char \<Rightarrow>
    (string \<Rightarrow> string option) \<Rightarrow> string \<Rightarrow> viper_value option" where
  "layered defaults file prefix repl env k =
     (let known = (case map_of file k of Some v \<Rightarrow> Some v | None \<Rightarrow> map_of defaults k)
      in if known = None then None
         else case env (env_name prefix repl k) of
                Some (c # cs) \<Rightarrow> Some (VStr (c # cs))
              | _ \<Rightarrow> known)"

definition seconds_text :: "string \<Rightarrow> string + go_int" where
  "seconds_text s =
     (if s \<noteq> [] \<and> last s = CHR ''s'' \<and> is_number (butlast s)
      then Inr (word_of_int (int (read_digits (butlast s)) * 10 ^ 9)) else Inl ''duration'')"

definition simple_viper :: "viper_value viper" where
  "simple_viper =
     \<lparr>vp_str = VStr, vp_int = VInt, vp_f64 = VF64, vp_bool = VBool, vp_strs = VStrs,
      vp_as_str = (\<lambda>v. case v of VStr s \<Rightarrow> Inr s | _ \<Rightarrow> Inl ''string''),
      vp_as_int = (\<lambda>v. case v of VInt i \<Rightarrow> Inr (word_of_int i) | _ \<Rightarrow> Inl ''int''),
      vp_as_f64 = (\<lambda>v. case v of VF64 x \<Rightarrow> Inr x | _ \<Rightarrow> Inl ''float''),
      vp_as_bool = (\<lambda>v. case v of VBool b \<Rightarrow> Inr b | _ \<Rightarrow> Inl ''bool''),
      vp_as_duration = (\<lambda>v. case v of VStr s \<Rightarrow> seconds_text s | _ \<Rightarrow> Inl ''duration''),
      vp_as_strs = (\<lambda>v. case v of VStrs ss \<Rightarrow> Inr ss | _ \<Rightarrow> Inl ''strings''),
      vp_all_settings = layered, vp_decode_error = join '', ''\<rparr>"

interpretation layered: viper_laws simple_viper
  by unfold_locales (simp add: simple_viper_def layered_def)

definition demo_secrets :: "viper_value settings" where
  "demo_secrets =
     [(''auth.jwt_secret'', VStr (replicate 32 CHR ''s'')), (''auth.admin_password'', VStr ''pw''),
      (''auth.api_key'', VStr (replicate 32 CHR ''k''))]"

lemma demo_secrets_load:
  "case gw_load simple_viper (FileSettings demo_secrets) (\<lambda>_. None) of Inr _ \<Rightarrow> True | Inl _ \<Rightarrow> False"
  by code_simp

section \<open>Properties\<close>

text \<open>
  C37. The gateway starts only from a file that holds its secrets: a loaded configuration was read
  from a file with settings for the token secret, the administrator's password and the API key,
  each long enough. Without such a file \<open>Load\<close> fails, whatever the environment holds, although
  the documentation wants the secrets in the environment and never in the file.
\<close>

theorem gateway_secrets_need_the_file:
  assumes "viper_laws P" "gw_load P file env = Inr c"
  shows "\<exists>settings. file = FileSettings settings \<and>
      (\<forall>k \<in> {''auth.jwt_secret'', ''auth.admin_password'', ''auth.api_key''}. map_of settings k \<noteq> None) \<and>
      32 \<le> length (ga_jwt_secret (gw_auth c)) \<and> 32 \<le> length (ga_api_key (gw_auth c)) \<and>
      ga_admin_password (gw_auth c) \<noteq> []"
proof -
  obtain settings where s: "settings = (case file of FileSettings s \<Rightarrow> s | _ \<Rightarrow> [])"
    "unmarshal P (vp_all_settings P (gw_defaults P) settings ''VYSE'' (CHR ''.'', CHR ''_'') env) = Inr c"
    "gw_validate c = Inr ()"
    using assms(2) by (rule gw_load_cases)
  let ?look = "vp_all_settings P (gw_defaults P) settings ''VYSE'' (CHR ''.'', CHR ''_'') env"
  have "?look ''auth.jwt_secret'' \<noteq> None" "?look ''auth.admin_password'' \<noteq> None" "?look ''auth.api_key'' \<noteq> None"
    using unmarshal_absent [OF s(2)] gw_validate_secrets [OF s(3)] by blast+
  moreover have "map_of settings k \<noteq> None" if "map_of (gw_defaults P) k = None" "?look k \<noteq> None" for k
    using that viper_laws.unknown_key [OF assms(1), of "gw_defaults P" k settings] by metis
  ultimately have "\<forall>k \<in> {''auth.jwt_secret'', ''auth.admin_password'', ''auth.api_key''}. map_of settings k \<noteq> None"
    using secrets_have_no_default [of P] by blast
  then show ?thesis using s(1,3) by (cases "file") (auto simp: gw_validate_Inr)
qed

theorem gateway_secrets_need_the_file_witness:
  "\<exists>c. gw_load simple_viper (FileSettings demo_secrets) (\<lambda>_. None) = Inr c \<and>
     ga_admin_password (gw_auth c) \<noteq> [] \<and> map_of demo_secrets ''auth.api_key'' \<noteq> None"
proof -
  obtain c where c: "gw_load simple_viper (FileSettings demo_secrets) (\<lambda>_. None) = Inr c"
    using demo_secrets_load by (auto split: sum.splits)
  show ?thesis
    using c gateway_secrets_need_the_file [OF layered.viper_laws_axioms c] by auto
qed

end
