(* ===== verification/Gin.thy ===== *)
theory Gin
  imports Gateway_Config
begin

text \<open>
  What the gateway's handlers share: the request context of the \<open>gin\<close> library as far as they read
  and write it, and the JSON answers they give. A middleware either ends the request with an answer
  (\<open>c.AbortWithStatusJSON\<close>) or passes the context on (\<open>c.Next\<close>); a Go slice out of range panics.
\<close>

record admin_claims =
  ac_issuer :: string
  ac_subject :: string
  ac_issued_at :: int
  ac_expires_at :: int
  ac_username :: string
  ac_role :: string

text \<open>
  \<open>gc_header\<close> is \<open>c.GetHeader\<close> (the empty text for a header that is absent), \<open>gc_client_ip\<close>
  \<open>c.ClientIP()\<close>. The other fields are the keys the middlewares set with \<open>c.Set\<close>, and read as the
  empty text before that.
\<close>

record gin_ctx =
  gc_header :: "string \<Rightarrow> string"
  gc_client_ip :: string
  gc_body :: string
  gc_session_id :: string
  gc_session_id_hash :: string
  gc_log_session_hash :: string
  gc_admin_claims :: "admin_claims option"

datatype json_body =
    ErrorBody string string
  | InferBody string "32 word" string
  | TokenBody string go_int string
  | HealthBody string string string fp "string \<times> int \<times> string \<times> string"

record http_response =
  hr_status :: nat
  hr_headers :: "(string \<times> string) list"
  hr_body :: json_body

definition json_response :: "nat \<Rightarrow> json_body \<Rightarrow> http_response" where
  "json_response status body = \<lparr>hr_status = status, hr_headers = [], hr_body = body\<rparr>"

definition error_response :: "string \<Rightarrow> string \<Rightarrow> json_body" where
  "error_response msg code = ErrorBody msg code"

definition abort_unauthorized :: "string \<Rightarrow> http_response" where
  "abort_unauthorized msg = json_response 401 (ErrorBody msg ''UNAUTHORIZED'')"

text \<open>\<open>s[:n]\<close> of a Go string counts bytes, and panics past the end.\<close>

definition go_slice :: "string \<Rightarrow> nat \<Rightarrow> string run" where
  "go_slice s n = (if length s < n then Inl SliceOutOfRange else Inr (take n s))"

end
