(* ===== verification/Rate_Limiter.thy ===== *)
theory Rate_Limiter
  imports Gin
begin

text \<open>
  \<open>gateway/internal/middleware/ratelimit.go\<close>: a token bucket per client address, kept in a map and
  evicted when idle. The buckets are \<open>golang.org/x/time/rate\<close>, the record \<open>bucket\<close>; they are
  shared by pointer, so they live on a heap. The goroutines are steps between the locks the
  code takes, interleaved in any order with each other and with the eviction.
\<close>

section \<open>The library\<close>

record 'l bucket =
  bk_new :: "fp \<Rightarrow> go_int \<Rightarrow> 'l"
  bk_allow :: "int \<Rightarrow> 'l \<Rightarrow> bool \<times> 'l"

fun outcomes :: "'l bucket \<Rightarrow> 'l \<Rightarrow> int list \<Rightarrow> bool list" where
  "outcomes B l [] = []"
| "outcomes B l (t # ts) = fst (bk_allow B t l) # outcomes B (snd (bk_allow B t l)) ts"

fun bucket_after :: "'l bucket \<Rightarrow> 'l \<Rightarrow> int list \<Rightarrow> 'l" where
  "bucket_after B l [] = l"
| "bucket_after B l (t # ts) = bucket_after B (snd (bk_allow B t l)) ts"

lemma outcomes_append: "outcomes B l (xs @ ys) = outcomes B l xs @ outcomes B (bucket_after B l xs) ys"
  by (induction xs arbitrary: l) simp_all

lemma bucket_after_append: "bucket_after B l (xs @ ys) = bucket_after B (bucket_after B l xs) ys"
  by (induction xs arbitrary: l) simp_all

lemma length_outcomes [simp]: "length (outcomes B l ts) = length ts"
  by (induction ts arbitrary: l) simp_all

text \<open>
  What the documentation says of a limiter of a rate and a burst, in nanoseconds: it is a bucket of
  \<open>burst\<close> tokens, initially full, that gains \<open>rate\<close> tokens a second. So over any stretch it
  admits at most the burst and what was gained, and it is full again, as a new one, after \<open>refill\<close>.
\<close>

locale token_bucket =
  fixes B :: "'l bucket" and rps :: fp and burst :: go_int and refill :: int
  assumes refill_nonneg: "0 \<le> refill"
    and refilled: "sorted (xs @ ys) \<Longrightarrow> (\<And>x y. x \<in> set xs \<Longrightarrow> y \<in> set ys \<Longrightarrow> x + refill \<le> y) \<Longrightarrow>
        outcomes B (bk_new B rps burst) (xs @ ys) = outcomes B (bk_new B rps burst) xs @ outcomes B (bk_new B rps burst) ys"
    and capped: "sorted (xs @ ys) \<Longrightarrow> ys \<noteq> [] \<Longrightarrow>
        real (length (filter id (outcomes B (bucket_after B (bk_new B rps burst) xs) ys)))
          \<le> real_of_int (sint burst) + fval rps * real_of_int (last ys - hd ys) / 10 ^ 9"

section \<open>The limiter\<close>

record ip_limiter =
  il_limiter :: nat                          \<comment> \<open>a pointer\<close>
  il_last_seen :: int

record 'l rate_limiter =
  rl_limiters :: "string \<Rightarrow> ip_limiter option"
  rl_rps :: fp
  rl_burst :: go_int
  rl_cleanup_interval :: int
  rl_idle_timeout :: int
  rl_heap :: "nat \<Rightarrow> 'l option"
  rl_next :: nat

definition new_rate_limiter :: "fp \<Rightarrow> go_int \<Rightarrow> 'l rate_limiter" where
  "new_rate_limiter rps burst =
     \<lparr>rl_limiters = (\<lambda>_. None), rl_rps = rps, rl_burst = burst, rl_cleanup_interval = 5 * 60 * 10 ^ 9,
      rl_idle_timeout = 10 * 60 * 10 ^ 9, rl_heap = (\<lambda>_. None), rl_next = 0\<rparr>"

text \<open>Under the read lock: a limiter that exists is marked as seen.\<close>

definition fast_path :: "string \<Rightarrow> int \<Rightarrow> 'l rate_limiter \<Rightarrow> (nat \<times> 'l rate_limiter) option" where
  "fast_path ip now rl =
     (case rl_limiters rl ip of
        Some e \<Rightarrow> Some (il_limiter e, rl\<lparr>rl_limiters := (rl_limiters rl)(ip \<mapsto> e\<lparr>il_last_seen := now\<rparr>)\<rparr>)
      | None \<Rightarrow> None)"

text \<open>Under the write lock: look again, and create the limiter if it is still missing.\<close>

definition slow_path :: "'l bucket \<Rightarrow> string \<Rightarrow> int \<Rightarrow> 'l rate_limiter \<Rightarrow> nat \<times> 'l rate_limiter" where
  "slow_path B ip now rl =
     (case rl_limiters rl ip of
        Some e \<Rightarrow> (il_limiter e, rl\<lparr>rl_limiters := (rl_limiters rl)(ip \<mapsto> e\<lparr>il_last_seen := now\<rparr>)\<rparr>)
      | None \<Rightarrow>
          (rl_next rl,
           rl\<lparr>rl_limiters := (rl_limiters rl)(ip \<mapsto> \<lparr>il_limiter = rl_next rl, il_last_seen = now\<rparr>),
             rl_heap := (rl_heap rl)(rl_next rl \<mapsto> bk_new B (rl_rps rl) (rl_burst rl)), rl_next := rl_next rl + 1\<rparr>))"

definition get_limiter :: "'l bucket \<Rightarrow> string \<Rightarrow> int \<Rightarrow> int \<Rightarrow> 'l rate_limiter \<Rightarrow> nat \<times> 'l rate_limiter" where
  "get_limiter B ip now later rl =
     (case fast_path ip now rl of Some found \<Rightarrow> found | None \<Rightarrow> slow_path B ip later rl)"

text \<open>\<open>limiter.Allow()\<close> on the bucket behind a pointer; a dangling one would panic.\<close>

definition allow_at :: "'l bucket \<Rightarrow> nat \<Rightarrow> int \<Rightarrow> 'l rate_limiter \<Rightarrow> (bool \<times> 'l rate_limiter) option" where
  "allow_at B a now rl =
     (case rl_heap rl a of
        None \<Rightarrow> None
      | Some l \<Rightarrow> (case bk_allow B now l of (b, l') \<Rightarrow> Some (b, rl\<lparr>rl_heap := (rl_heap rl)(a \<mapsto> l')\<rparr>)))"

definition too_many_requests :: http_response where
  "too_many_requests =
     \<lparr>hr_status = 429, hr_headers = [(''Retry-After'', ''1'')],
      hr_body = ErrorBody (''rate limit exceeded '' @ [CHR 0xE2, CHR 0x80, CHR 0x94] @ '' slow down'') ''RATE_LIMITED''\<rparr>"

text \<open>The middleware of one request that no other step interleaves with.\<close>

definition rate_limit :: "'l bucket \<Rightarrow> int \<Rightarrow> int \<Rightarrow> int \<Rightarrow> gin_ctx \<Rightarrow> 'l rate_limiter \<Rightarrow>
    (http_response + gin_ctx) run \<times> 'l rate_limiter" where
  "rate_limit B now later decided c rl =
     (case get_limiter B (gc_client_ip c) now later rl of
        (a, rl') \<Rightarrow>
          (case allow_at B a decided rl' of
             Some (True, rl'') \<Rightarrow> (Inr (Inr c), rl'')
           | Some (False, rl'') \<Rightarrow> (Inr (Inl too_many_requests), rl'')
           | None \<Rightarrow> (Inl UnwrapFailed, rl')))"

definition evict_idle :: "int \<Rightarrow> 'l rate_limiter \<Rightarrow> 'l rate_limiter" where
  "evict_idle now rl =
     rl\<lparr>rl_limiters := (\<lambda>ip. case rl_limiters rl ip of
          Some e \<Rightarrow> if il_last_seen e < now - rl_idle_timeout rl then None else Some e
        | None \<Rightarrow> None)\<rparr>"

section \<open>Requests, interleaved\<close>

text \<open>
  A goroutine between two locks: it missed in the map, or it holds a pointer it got at some instant.
  A step of the system happens at an instant, not before the last one; \<open>D\<close> bounds the time
  a goroutine takes from the map to \<open>Allow\<close>. The eviction reads the clock at \<open>u\<close>, before it has
  the lock. A decision is reported with its address and instant.
\<close>

datatype stage = Missed | Holding nat int

record 'l rl_system =
  sys_limiter :: "'l rate_limiter"
  sys_clock :: int
  sys_requests :: "(string \<times> stage) list"

type_synonym decision = "string \<times> int \<times> bool"

definition at_instant :: "int \<Rightarrow> int \<Rightarrow> 'l rl_system \<Rightarrow> bool" where
  "at_instant D t s \<longleftrightarrow> sys_clock s \<le> t \<and> (\<forall>(ip, st) \<in> set (sys_requests s). \<forall>a g. st = Holding a g \<longrightarrow> t \<le> g + D)"

inductive rl_step :: "'l bucket \<Rightarrow> int \<Rightarrow> 'l rl_system \<Rightarrow> decision list \<Rightarrow> 'l rl_system \<Rightarrow> bool"
  for B :: "'l bucket" and D :: int where
  hit: "at_instant D t s \<Longrightarrow> fast_path ip t (sys_limiter s) = Some (a, rl) \<Longrightarrow>
    rl_step B D s [] \<lparr>sys_limiter = rl, sys_clock = t, sys_requests = (ip, Holding a t) # sys_requests s\<rparr>"
| miss: "at_instant D t s \<Longrightarrow> fast_path ip t (sys_limiter s) = None \<Longrightarrow>
    rl_step B D s [] (s\<lparr>sys_clock := t, sys_requests := (ip, Missed) # sys_requests s\<rparr>)"
| lock: "at_instant D t s \<Longrightarrow> sys_requests s = xs @ (ip, Missed) # ys \<Longrightarrow>
    slow_path B ip t (sys_limiter s) = (a, rl) \<Longrightarrow>
    rl_step B D s [] \<lparr>sys_limiter = rl, sys_clock = t, sys_requests = (ip, Holding a t) # xs @ ys\<rparr>"
| decide: "at_instant D t s \<Longrightarrow> sys_requests s = xs @ (ip, Holding a g) # ys \<Longrightarrow>
    allow_at B a t (sys_limiter s) = Some (b, rl) \<Longrightarrow>
    rl_step B D s [(ip, t, b)] \<lparr>sys_limiter = rl, sys_clock = t, sys_requests = xs @ ys\<rparr>"
| evict: "at_instant D t s \<Longrightarrow> u \<le> t \<Longrightarrow>
    rl_step B D s [] (s\<lparr>sys_limiter := evict_idle u (sys_limiter s), sys_clock := t\<rparr>)"

inductive rl_run :: "'l bucket \<Rightarrow> int \<Rightarrow> 'l rl_system \<Rightarrow> decision list \<Rightarrow> 'l rl_system \<Rightarrow> bool"
  for B :: "'l bucket" and D :: int where
  start: "rl_run B D s [] s"
| next_step: "rl_run B D s tr s' \<Longrightarrow> rl_step B D s' ds s'' \<Longrightarrow> rl_run B D s (tr @ ds) s''"

definition rl_start :: "fp \<Rightarrow> go_int \<Rightarrow> int \<Rightarrow> 'l rl_system" where
  "rl_start rps burst t = \<lparr>sys_limiter = new_rate_limiter rps burst, sys_clock = t, sys_requests = []\<rparr>"

text \<open>The instants at which an address was decided, and what was decided.\<close>

definition times_of :: "string \<Rightarrow> decision list \<Rightarrow> int list" where
  "times_of ip tr = map (\<lambda>(_, t, _). t) (filter (\<lambda>d. fst d = ip) tr)"

definition verdicts_of :: "string \<Rightarrow> decision list \<Rightarrow> bool list" where
  "verdicts_of ip tr = map (\<lambda>(_, _, b). b) (filter (\<lambda>d. fst d = ip) tr)"

lemma times_of_simps [simp]:
  "times_of ip [] = []" "times_of ip (tr @ tr') = times_of ip tr @ times_of ip tr'"
  "times_of ip [(ip', t, b)] = (if ip' = ip then [t] else [])"
  by (auto simp: times_of_def)

lemma verdicts_of_simps [simp]:
  "verdicts_of ip [] = []" "verdicts_of ip (tr @ tr') = verdicts_of ip tr @ verdicts_of ip tr'"
  "verdicts_of ip [(ip', t, b)] = (if ip' = ip then [b] else [])"
  by (auto simp: verdicts_of_def)

section \<open>Every address has a bucket of its own\<close>

context token_bucket
begin

abbreviation full :: 'l where
  "full \<equiv> bk_new B rps burst"

text \<open>
  The bucket of a map entry has the decisions since some instant \<open>c\<close>, when it was full; the
  earlier ones were too long before to matter.
\<close>

definition bucket_of :: "int \<Rightarrow> 'l option \<Rightarrow> int list \<Rightarrow> bool" where
  "bucket_of clock l ts \<longleftrightarrow>
     (\<exists>old cur c. ts = old @ cur \<and> l = Some (bucket_after B full cur) \<and>
        (\<forall>x \<in> set old. x + refill \<le> c) \<and> (\<forall>y \<in> set cur. c \<le> y) \<and> c \<le> clock)"

lemma bucket_of_later: "bucket_of clock l ts \<Longrightarrow> clock \<le> t \<Longrightarrow> bucket_of t l ts"
  unfolding bucket_of_def using order_trans by blast

lemma bucket_of_new: "\<forall>x \<in> set ts. x + refill \<le> t \<Longrightarrow> bucket_of t (Some full) ts"
  unfolding bucket_of_def by (intro exI [of _ ts] exI [of _ "[]"] exI [of _ t]) simp

lemma bucket_of_decide:
  assumes "bucket_of clock (Some l) ts" "sorted ts" "\<forall>x \<in> set ts. x \<le> clock" "clock \<le> t"
  shows "outcomes B full (ts @ [t]) = outcomes B full ts @ [fst (bk_allow B t l)]"
    and "bucket_of t (Some (snd (bk_allow B t l))) (ts @ [t])"
proof -
  obtain old cur c where ts: "ts = old @ cur" and l: "l = bucket_after B full cur"
    and c: "\<forall>x \<in> set old. x + refill \<le> c" "\<forall>y \<in> set cur. c \<le> y" "c \<le> clock"
    using assms(1) unfolding bucket_of_def by auto
  have "\<forall>x \<in> set ts. x \<le> t" using assms(3,4) by fastforce
  then have s: "sorted (old @ cur @ [t])" "sorted (old @ cur)"
    using assms(2) ts by (simp_all add: sorted_append)
  have sep: "x + refill \<le> y" if "x \<in> set old" "y \<in> set (cur @ [t])" for x y
    using that c assms(4) by fastforce
  have "outcomes B full (old @ cur @ [t]) = outcomes B full old @ outcomes B full (cur @ [t])"
    using s(1) sep by (rule refilled)
  moreover have "outcomes B full (old @ cur) = outcomes B full old @ outcomes B full cur"
    using s(2) sep by (intro refilled) simp_all
  ultimately show "outcomes B full (ts @ [t]) = outcomes B full ts @ [fst (bk_allow B t l)]"
    by (simp add: ts l outcomes_append)
  show "bucket_of t (Some (snd (bk_allow B t l))) (ts @ [t])"
    unfolding bucket_of_def
    by (intro exI [of _ old] exI [of _ "cur @ [t]"] exI [of _ c])
      (use c assms(4) in \<open>auto simp: ts l bucket_after_append\<close>)
qed

text \<open>The invariant of a run, for the decisions \<open>tr\<close> so far.\<close>

definition entry_ok :: "int \<Rightarrow> int \<Rightarrow> 'l rate_limiter \<Rightarrow> ip_limiter \<Rightarrow> int list \<Rightarrow> bool" where
  "entry_ok D clock rl e ts \<longleftrightarrow>
     il_limiter e < rl_next rl \<and> il_last_seen e \<le> clock \<and> (\<forall>x \<in> set ts. x \<le> il_last_seen e + D) \<and>
     bucket_of clock (rl_heap rl (il_limiter e)) ts"

definition entries_ok :: "int \<Rightarrow> 'l rl_system \<Rightarrow> decision list \<Rightarrow> bool" where
  "entries_ok D s tr \<longleftrightarrow>
     (\<forall>ip. case rl_limiters (sys_limiter s) ip of
        Some e \<Rightarrow> entry_ok D (sys_clock s) (sys_limiter s) e (times_of ip tr)
      | None \<Rightarrow> \<forall>x \<in> set (times_of ip tr). x + refill \<le> sys_clock s)"

lemma entry_ok_later: "entry_ok D clock rl e ts \<Longrightarrow> clock \<le> t \<Longrightarrow> entry_ok D t rl e ts"
  by (auto simp: entry_ok_def intro: bucket_of_later)

lemma entries_ok_Some:
  "entries_ok D s tr \<Longrightarrow> rl_limiters (sys_limiter s) ip = Some e \<Longrightarrow> sys_clock s \<le> t \<Longrightarrow>
     entry_ok D t (sys_limiter s) e (times_of ip tr)"
  unfolding entries_ok_def by (drule spec [of _ ip]) (auto intro: entry_ok_later)

lemma entries_ok_None:
  "entries_ok D s tr \<Longrightarrow> rl_limiters (sys_limiter s) ip = None \<Longrightarrow> sys_clock s \<le> t \<Longrightarrow>
     \<forall>x \<in> set (times_of ip tr). x + refill \<le> t"
  unfolding entries_ok_def by (drule spec [of _ ip]) fastforce

lemma entries_okI:
  assumes "\<And>ip e. rl_limiters (sys_limiter s) ip = Some e \<Longrightarrow> entry_ok D (sys_clock s) (sys_limiter s) e (times_of ip tr)"
    and "\<And>ip x. rl_limiters (sys_limiter s) ip = None \<Longrightarrow> x \<in> set (times_of ip tr) \<Longrightarrow> x + refill \<le> sys_clock s"
  shows "entries_ok D s tr"
  using assms unfolding entries_ok_def by (auto split: option.splits)

definition pointers_ok :: "'l rl_system \<Rightarrow> bool" where
  "pointers_ok s \<longleftrightarrow>
     (\<forall>ip ip' e e'. rl_limiters (sys_limiter s) ip = Some e \<longrightarrow> rl_limiters (sys_limiter s) ip' = Some e' \<longrightarrow>
        il_limiter e = il_limiter e' \<longrightarrow> ip = ip') \<and>
     (\<forall>ip a g. (ip, Holding a g) \<in> set (sys_requests s) \<longrightarrow>
        (\<exists>e. rl_limiters (sys_limiter s) ip = Some e \<and> il_limiter e = a \<and> g \<le> il_last_seen e))"

definition decisions_ok :: "'l rl_system \<Rightarrow> decision list \<Rightarrow> bool" where
  "decisions_ok s tr \<longleftrightarrow>
     (\<forall>ip. sorted (times_of ip tr) \<and> (\<forall>x \<in> set (times_of ip tr). x \<le> sys_clock s) \<and>
        verdicts_of ip tr = outcomes B full (times_of ip tr))"

definition settings_ok :: "'l rl_system \<Rightarrow> bool" where
  "settings_ok s \<longleftrightarrow>
     rl_rps (sys_limiter s) = rps \<and> rl_burst (sys_limiter s) = burst \<and> rl_idle_timeout (sys_limiter s) = 600 * 10 ^ 9"

definition rl_inv :: "int \<Rightarrow> 'l rl_system \<Rightarrow> decision list \<Rightarrow> bool" where
  "rl_inv D s tr \<longleftrightarrow> settings_ok s \<and> decisions_ok s tr \<and> pointers_ok s \<and> entries_ok D s tr"

lemma rl_inv_start: "rl_inv D (rl_start rps burst t) []"
  by (simp add: rl_inv_def rl_start_def new_rate_limiter_def settings_ok_def decisions_ok_def pointers_ok_def
      entries_ok_def)

lemma decisions_ok_later: "decisions_ok s tr \<Longrightarrow> sys_clock s \<le> sys_clock s' \<Longrightarrow> decisions_ok s' tr"
  unfolding decisions_ok_def by (meson order_trans)

lemma at_instant_clock: "at_instant D t s \<Longrightarrow> sys_clock s \<le> t"
  by (simp add: at_instant_def)

lemma inv_touch:
  assumes inv: "rl_inv D s tr" and t: "at_instant D t s" and D: "0 \<le> D"
    and e: "rl_limiters (sys_limiter s) ip = Some e"
    and rs: "set rs \<subseteq> insert (ip, Holding (il_limiter e) t) (set (sys_requests s))"
  shows "rl_inv D \<lparr>sys_limiter = (sys_limiter s)\<lparr>rl_limiters := (rl_limiters (sys_limiter s))(ip \<mapsto> e\<lparr>il_last_seen := t\<rparr>)\<rparr>,
      sys_clock = t, sys_requests = rs\<rparr> tr" (is "rl_inv D ?s tr")
proof -
  note c = at_instant_clock [OF t]
  have d: "decisions_ok s tr" and p: "pointers_ok s" and ent: "entries_ok D s tr"
    using inv by (simp_all add: rl_inv_def)
  note some = entries_ok_Some [OF ent _ c] and none = entries_ok_None [OF ent _ c]
  have "settings_ok ?s" using inv by (simp add: rl_inv_def settings_ok_def)
  moreover have "decisions_ok ?s tr" using d c by (auto intro: decisions_ok_later)
  moreover have "pointers_ok ?s"
    unfolding pointers_ok_def
  proof (intro conjI allI impI)
    fix i i' x x'
    assume "rl_limiters (sys_limiter ?s) i = Some x" "rl_limiters (sys_limiter ?s) i' = Some x'"
      "il_limiter x = il_limiter x'"
    then show "i = i'" using p e unfolding pointers_ok_def by (auto split: if_splits)
  next
    fix i a h
    assume "(i, Holding a h) \<in> set (sys_requests ?s)"
    then have "(i = ip \<and> a = il_limiter e \<and> h = t) \<or> (i, Holding a h) \<in> set (sys_requests s)"
      using rs by auto
    moreover have "il_last_seen e \<le> t" using some [OF e] by (simp add: entry_ok_def)
    ultimately show "\<exists>x. rl_limiters (sys_limiter ?s) i = Some x \<and> il_limiter x = a \<and> h \<le> il_last_seen x"
      using p e unfolding pointers_ok_def by fastforce
  qed
  moreover have "entries_ok D ?s tr"
  proof (rule entries_okI)
    have "\<forall>x \<in> set (times_of ip tr). x \<le> t + D" using d c D unfolding decisions_ok_def by fastforce
    then show "entry_ok D (sys_clock ?s) (sys_limiter ?s) x (times_of i tr)" if "rl_limiters (sys_limiter ?s) i = Some x" for i x
      using that some [OF e] some [of i x] by (auto simp: entry_ok_def split: if_splits)
  qed (use none e in \<open>auto split: if_splits\<close>)
  ultimately show ?thesis by (simp add: rl_inv_def)
qed

lemma inv_create:
  assumes inv: "rl_inv D s tr" and t: "at_instant D t s" and D: "0 \<le> D"
    and e: "rl_limiters (sys_limiter s) ip = None"
    and sp: "slow_path B ip t (sys_limiter s) = (a, rl)"
    and rs: "set rs \<subseteq> insert (ip, Holding a t) (set (sys_requests s))"
  shows "rl_inv D \<lparr>sys_limiter = rl, sys_clock = t, sys_requests = rs\<rparr> tr" (is "rl_inv D ?s tr")
proof -
  note c = at_instant_clock [OF t]
  have st: "settings_ok s" and d: "decisions_ok s tr" and p: "pointers_ok s" and ent: "entries_ok D s tr"
    using inv by (simp_all add: rl_inv_def)
  note some = entries_ok_Some [OF ent _ c] and none = entries_ok_None [OF ent _ c]
  have a: "a = rl_next (sys_limiter s)"
    and rl: "rl = (sys_limiter s)\<lparr>rl_limiters := (rl_limiters (sys_limiter s))(ip \<mapsto> \<lparr>il_limiter = a, il_last_seen = t\<rparr>),
       rl_heap := (rl_heap (sys_limiter s))(a \<mapsto> full), rl_next := a + 1\<rparr>"
    using sp e st by (auto simp: slow_path_def settings_ok_def)
  have fresh: "il_limiter x < a" if "rl_limiters (sys_limiter s) i = Some x" for i x
    using some [OF that] a by (simp add: entry_ok_def)
  have "settings_ok ?s" using st by (simp add: rl settings_ok_def)
  moreover have "decisions_ok ?s tr" using d c by (auto intro: decisions_ok_later)
  moreover have "pointers_ok ?s"
    unfolding pointers_ok_def
  proof (intro conjI allI impI)
    fix i i' x x'
    assume "rl_limiters (sys_limiter ?s) i = Some x" "rl_limiters (sys_limiter ?s) i' = Some x'"
      "il_limiter x = il_limiter x'"
    then show "i = i'" using p unfolding pointers_ok_def rl
      by (cases "i = ip"; cases "i' = ip") (auto dest: fresh)
  next
    fix i b h
    assume "(i, Holding b h) \<in> set (sys_requests ?s)"
    then have "(i = ip \<and> b = a \<and> h = t) \<or> (i, Holding b h) \<in> set (sys_requests s)"
      using rs by auto
    then show "\<exists>x. rl_limiters (sys_limiter ?s) i = Some x \<and> il_limiter x = b \<and> h \<le> il_last_seen x"
      using p e unfolding pointers_ok_def rl by fastforce
  qed
  moreover have "entries_ok D ?s tr"
  proof (rule entries_okI)
    have x: "\<forall>x \<in> set (times_of ip tr). x + refill \<le> t" by (rule none [OF e])
    then have "\<forall>x \<in> set (times_of ip tr). x \<le> t + D" using D refill_nonneg by fastforce
    with bucket_of_new [OF x]
    show "entry_ok D (sys_clock ?s) (sys_limiter ?s) x (times_of i tr)" if "rl_limiters (sys_limiter ?s) i = Some x" for i x
      using that some [of i x] fresh [of i x] by (auto simp: entry_ok_def rl split: if_splits)
  qed (use none in \<open>auto simp: rl split: if_splits\<close>)
  ultimately show ?thesis by (simp add: rl_inv_def)
qed

lemma inv_decide:
  assumes inv: "rl_inv D s tr" and t: "at_instant D t s"
    and rs: "(ip, Holding a g) \<in> set (sys_requests s)" "set rs \<subseteq> set (sys_requests s)"
    and al: "allow_at B a t (sys_limiter s) = Some (b, rl)"
  shows "rl_inv D \<lparr>sys_limiter = rl, sys_clock = t, sys_requests = rs\<rparr> (tr @ [(ip, t, b)])" (is "rl_inv D ?s ?tr")
proof -
  note c = at_instant_clock [OF t]
  have st: "settings_ok s" and d: "decisions_ok s tr" and p: "pointers_ok s" and ent: "entries_ok D s tr"
    using inv by (simp_all add: rl_inv_def)
  note some = entries_ok_Some [OF ent _ c] and none = entries_ok_None [OF ent _ c]
  obtain l where l: "rl_heap (sys_limiter s) a = Some l" and b: "b = fst (bk_allow B t l)"
    and rl: "rl = (sys_limiter s)\<lparr>rl_heap := (rl_heap (sys_limiter s))(a \<mapsto> snd (bk_allow B t l))\<rparr>"
    using al by (auto simp: allow_at_def split: option.splits prod.splits)
  obtain e where e: "rl_limiters (sys_limiter s) ip = Some e" "il_limiter e = a" "g \<le> il_last_seen e"
    using p rs(1) unfolding pointers_ok_def by blast
  have td: "t \<le> g + D" using t rs(1) unfolding at_instant_def by fastforce
  have "bucket_of (sys_clock s) (Some l) (times_of ip tr)"
    using entries_ok_Some [OF ent e(1) order_refl] e(2) l by (simp add: entry_ok_def)
  moreover have "sorted (times_of ip tr)" "\<forall>x \<in> set (times_of ip tr). x \<le> sys_clock s"
    using d by (simp_all add: decisions_ok_def)
  ultimately have new: "outcomes B full (times_of ip tr @ [t]) = outcomes B full (times_of ip tr) @ [b]"
    "bucket_of t (Some (snd (bk_allow B t l))) (times_of ip tr @ [t])"
    using bucket_of_decide c b by blast+
  have "settings_ok ?s" using st by (simp add: rl settings_ok_def)
  moreover have "decisions_ok ?s ?tr"
    using d c new(1) unfolding decisions_ok_def by (fastforce simp: sorted_append)
  moreover have "pointers_ok ?s"
    using p rs(2) unfolding pointers_ok_def rl by fastforce
  moreover have "entries_ok D ?s ?tr"
  proof (rule entries_okI)
    have other: "il_limiter x \<noteq> a" if "rl_limiters (sys_limiter s) i = Some x" "i \<noteq> ip" for i x
      using that e p unfolding pointers_ok_def by blast
    show "entry_ok D (sys_clock ?s) (sys_limiter ?s) x (times_of i ?tr)" if "rl_limiters (sys_limiter ?s) i = Some x" for i x
      using that some [of i x] other [of i x] e td new(2) by (cases "i = ip") (auto simp: entry_ok_def rl)
  qed (use none e in \<open>auto simp: rl split: if_splits\<close>)
  ultimately show ?thesis by (simp add: rl_inv_def)
qed

lemma inv_evict:
  assumes inv: "rl_inv D s tr" and t: "at_instant D t s" and D: "refill + D \<le> 600 * 10 ^ 9" and u: "u \<le> t"
  shows "rl_inv D (s\<lparr>sys_limiter := evict_idle u (sys_limiter s), sys_clock := t\<rparr>) tr" (is "rl_inv D ?s tr")
proof -
  note c = at_instant_clock [OF t]
  have st: "settings_ok s" and d: "decisions_ok s tr" and p: "pointers_ok s" and ent: "entries_ok D s tr"
    using inv by (simp_all add: rl_inv_def)
  note some = entries_ok_Some [OF ent _ c] and none = entries_ok_None [OF ent _ c]
  have kept: "rl_limiters (sys_limiter ?s) i =
      (case rl_limiters (sys_limiter s) i of Some e \<Rightarrow> if il_last_seen e < u - 600 * 10 ^ 9 then None else Some e | None \<Rightarrow> None)" for i
    using st by (auto simp: evict_idle_def settings_ok_def split: option.split)
  have "settings_ok ?s" using st by (simp add: evict_idle_def settings_ok_def)
  moreover have "decisions_ok ?s tr" using d c by (auto intro: decisions_ok_later)
  moreover have "pointers_ok ?s"
    unfolding pointers_ok_def
  proof (intro conjI allI impI)
    fix i i' x x'
    assume "rl_limiters (sys_limiter ?s) i = Some x" "rl_limiters (sys_limiter ?s) i' = Some x'"
      "il_limiter x = il_limiter x'"
    then show "i = i'" using p unfolding pointers_ok_def kept by (auto split: option.splits if_splits)
  next
    fix i a g
    assume h: "(i, Holding a g) \<in> set (sys_requests ?s)"
    then obtain e where e: "rl_limiters (sys_limiter s) i = Some e" "il_limiter e = a" "g \<le> il_last_seen e"
      using p unfolding pointers_ok_def by fastforce
    have "t \<le> g + D" using t h unfolding at_instant_def by fastforce
    then have "\<not> il_last_seen e < u - 600 * 10 ^ 9" using D e(3) refill_nonneg u by simp
    then show "\<exists>x. rl_limiters (sys_limiter ?s) i = Some x \<and> il_limiter x = a \<and> g \<le> il_last_seen x"
      unfolding kept using e by auto
  qed
  moreover have "entries_ok D ?s tr"
  proof (rule entries_okI)
    fix i x
    show "rl_limiters (sys_limiter ?s) i = Some x \<Longrightarrow> entry_ok D (sys_clock ?s) (sys_limiter ?s) x (times_of i tr)"
      unfolding kept using some [of i x] by (auto simp: entry_ok_def evict_idle_def split: option.splits if_splits)
  next
    fix i x
    assume i: "rl_limiters (sys_limiter ?s) i = None" and x: "x \<in> set (times_of i tr)"
    show "x + refill \<le> sys_clock ?s"
    proof (cases "rl_limiters (sys_limiter s) i")
      case None
      then show ?thesis using none x by auto
    next
      case (Some e)
      then have "il_last_seen e < u - 600 * 10 ^ 9" using i unfolding kept by (auto split: if_splits)
      moreover have "x \<le> il_last_seen e + D" using some [OF Some] x by (simp add: entry_ok_def)
      ultimately show ?thesis using D u by simp
    qed
  qed
  ultimately show ?thesis by (simp add: rl_inv_def)
qed

lemma inv_miss:
  assumes inv: "rl_inv D s tr" and t: "at_instant D t s"
  shows "rl_inv D (s\<lparr>sys_clock := t, sys_requests := (ip, Missed) # sys_requests s\<rparr>) tr" (is "rl_inv D ?s tr")
proof -
  note c = at_instant_clock [OF t]
  have d: "decisions_ok s tr" and ent: "entries_ok D s tr" using inv by (simp_all add: rl_inv_def)
  have "decisions_ok ?s tr" using d c by (auto intro: decisions_ok_later)
  moreover have "entries_ok D ?s tr"
    by (rule entries_okI) (use entries_ok_Some [OF ent _ c] entries_ok_None [OF ent _ c] in simp_all)
  ultimately show ?thesis using inv by (simp add: rl_inv_def settings_ok_def pointers_ok_def)
qed

lemma rl_inv_step:
  assumes "rl_step B D s ds s'" "rl_inv D s tr" "0 \<le> D" "refill + D \<le> 600 * 10 ^ 9"
  shows "rl_inv D s' (tr @ ds)"
  using assms(1)
proof cases
  case (hit t ip a rl)
  then obtain e where "rl_limiters (sys_limiter s) ip = Some e" "a = il_limiter e"
    "rl = (sys_limiter s)\<lparr>rl_limiters := (rl_limiters (sys_limiter s))(ip \<mapsto> e\<lparr>il_last_seen := t\<rparr>)\<rparr>"
    by (auto simp: fast_path_def split: option.splits)
  with hit show ?thesis using inv_touch [OF assms(2) _ assms(3), of t ip e] by auto
next
  case (miss t ip)
  then show ?thesis using inv_miss [OF assms(2)] by simp
next
  case (lock t xs ip ys a rl)
  have rs: "set ((ip, Holding a t) # xs @ ys) \<subseteq> insert (ip, Holding a t) (set (sys_requests s))"
    unfolding lock(4) by auto
  show ?thesis
  proof (cases "rl_limiters (sys_limiter s) ip")
    case None
    then show ?thesis using lock inv_create [OF assms(2) lock(3) assms(3) None lock(5) rs] by simp
  next
    case (Some e)
    then have "a = il_limiter e"
      "rl = (sys_limiter s)\<lparr>rl_limiters := (rl_limiters (sys_limiter s))(ip \<mapsto> e\<lparr>il_last_seen := t\<rparr>)\<rparr>"
      using lock(5) by (simp_all add: slow_path_def)
    then show ?thesis using lock inv_touch [OF assms(2) lock(3) assms(3) Some] rs by simp
  qed
next
  case (decide t xs ip a g ys b rl)
  then show ?thesis using inv_decide [OF assms(2) decide(3) _ _ decide(5), of ip g "xs @ ys"] by auto
next
  case (evict t u)
  then show ?thesis using inv_evict [OF assms(2) _ assms(4)] by simp
qed

lemma rl_inv_run:
  assumes "rl_run B D s tr s'" "s = rl_start rps burst t" "0 \<le> D" "refill + D \<le> 600 * 10 ^ 9"
  shows "rl_inv D s' tr"
  using assms(1,2)
proof induction
  case (next_step s tr s' ds s'')
  then show ?case using rl_inv_step assms(3,4) by blast
qed (simp add: rl_inv_start)

lemma private_buckets:
  assumes "rl_run B D (rl_start rps burst t) tr s" "0 \<le> D" "refill + D \<le> 600 * 10 ^ 9"
  shows "verdicts_of ip tr = outcomes B full (times_of ip tr)" "sorted (times_of ip tr)"
  using rl_inv_run [OF assms(1) refl assms(2,3)] by (simp_all add: rl_inv_def decisions_ok_def)

text \<open>The pointer a request finds in the map is never dangling, so the middleware always answers.\<close>

lemma rate_limit_answers:
  assumes "rl_inv D s tr"
  shows "\<exists>res rl. rate_limit B now later decided c (sys_limiter s) = (Inr res, rl)"
proof -
  have "\<exists>a rl l. get_limiter B (gc_client_ip c) now later (sys_limiter s) = (a, rl) \<and> rl_heap rl a = Some l"
  proof (cases "rl_limiters (sys_limiter s) (gc_client_ip c)")
    case (Some e)
    then have "entry_ok D (sys_clock s) (sys_limiter s) e (times_of (gc_client_ip c) tr)"
      using assms entries_ok_Some by (auto simp: rl_inv_def)
    with Some show ?thesis by (auto simp: get_limiter_def fast_path_def entry_ok_def bucket_of_def)
  qed (simp add: get_limiter_def fast_path_def slow_path_def)
  then show ?thesis by (auto simp: rate_limit_def allow_at_def split: prod.splits bool.splits)
qed

end

section \<open>What a stretch of time admits\<close>

lemma filter_by_time:
  "sorted (map fst ds) \<Longrightarrow> ds = filter (\<lambda>d. fst d < a) ds @ filter (\<lambda>d. \<not> fst d < a) ds" for a :: int
proof (induction ds)
  case (Cons d ds)
  show ?case
  proof (cases "fst d < a")
    case False
    then have "\<forall>x \<in> set ds. \<not> fst x < a" using Cons.prems by fastforce
    then have "filter (\<lambda>d. fst d < a) ds = []" "filter (\<lambda>d. \<not> fst d < a) ds = ds"
      by (simp_all add: filter_empty_conv filter_id_conv)
    with False show ?thesis by simp
  qed (use Cons in simp)
qed simp

lemma window_bound:
  assumes "token_bucket B rps burst refill" "0 \<le> fval rps" "a \<le> b" "sorted (map fst ds)"
    and "map snd ds = outcomes B (bk_new B rps burst) (map fst ds)"
  shows "real (length (filter (\<lambda>(t, v). v \<and> a \<le> t \<and> t \<le> b) ds))
    \<le> max 0 (real_of_int (sint burst) + fval rps * real_of_int (b - a) / 10 ^ 9)"
proof -
  define xs r where "xs = filter (\<lambda>d. fst d < a) ds" and "r = filter (\<lambda>d. \<not> fst d < a) ds"
  define ys zs where "ys = filter (\<lambda>d. fst d < b + 1) r" and "zs = filter (\<lambda>d. \<not> fst d < b + 1) r"
  have ds: "ds = xs @ r" unfolding xs_def r_def by (rule filter_by_time [OF assms(4)])
  have sr: "sorted (map fst r)" using assms(4) ds by (simp add: sorted_append)
  have r: "r = ys @ zs" unfolding ys_def zs_def by (rule filter_by_time [OF sr])
  have all: "filter (\<lambda>(t, v). v \<and> a \<le> t \<and> t \<le> b) ds = filter snd ys"
    by (auto simp: ys_def r_def intro: filter_cong)
  have out: "map snd ys = outcomes B (bucket_after B (bk_new B rps burst) (map fst xs)) (map fst ys)"
  proof -
    have "map snd xs @ map snd ys @ map snd zs = outcomes B (bk_new B rps burst) (map fst xs) @
        outcomes B (bucket_after B (bk_new B rps burst) (map fst xs)) (map fst ys @ map fst zs)"
      using assms(5) by (simp add: ds r outcomes_append)
    then have "map snd ys @ map snd zs =
        outcomes B (bucket_after B (bk_new B rps burst) (map fst xs)) (map fst ys @ map fst zs)"
      by simp
    then show ?thesis by (simp add: outcomes_append)
  qed
  show ?thesis
  proof (cases "ys = []")
    case True
    then show ?thesis by (simp add: all)
  next
    case False
    have "sorted (map fst xs @ map fst ys)" using assms(4) by (simp add: ds r sorted_append)
    then have "real (length (filter id (map snd ys)))
        \<le> real_of_int (sint burst) + fval rps * real_of_int (last (map fst ys) - hd (map fst ys)) / 10 ^ 9"
      unfolding out using False by (intro token_bucket.capped [OF assms(1)]) simp_all
    moreover have "length (filter id (map snd ys)) = length (filter snd ys)"
      by (simp add: filter_map o_def)
    moreover have "\<forall>y \<in> set ys. a \<le> fst y \<and> fst y \<le> b" by (auto simp: ys_def r_def)
    then have "last (map fst ys) - hd (map fst ys) \<le> b - a"
      using False by (simp add: last_map hd_map) (smt (verit) hd_in_set last_in_set)
    then have "fval rps * real_of_int (last (map fst ys) - hd (map fst ys)) \<le> fval rps * real_of_int (b - a)"
      using assms(2) by (intro mult_left_mono) simp_all
    then have "fval rps * real_of_int (last (map fst ys) - hd (map fst ys)) / 10 ^ 9 \<le> fval rps * real_of_int (b - a) / 10 ^ 9"
      by (rule divide_right_mono) simp
    ultimately show ?thesis unfolding all by linarith
  qed
qed

lemma decisions_of:
  "map fst (map snd (filter (\<lambda>d. fst d = ip) tr)) = times_of ip tr"
  "map snd (map snd (filter (\<lambda>d. fst d = ip) tr)) = verdicts_of ip tr"
  by (auto simp: times_of_def verdicts_of_def)

section \<open>A provider\<close>

text \<open>A token bucket in exact arithmetic.\<close>

record exact_bucket =
  eb_rate :: real
  eb_burst :: real
  eb_tokens :: real
  eb_last :: "int option"

definition eb_available :: "int \<Rightarrow> exact_bucket \<Rightarrow> real" where
  "eb_available t l =
     (case eb_last l of
        None \<Rightarrow> eb_tokens l
      | Some u \<Rightarrow> min (eb_burst l) (eb_tokens l + eb_rate l * real_of_int (t - u) / 10 ^ 9))"

definition exact_buckets :: "exact_bucket bucket" where
  "exact_buckets =
     \<lparr>bk_new = (\<lambda>rps burst. \<lparr>eb_rate = fval rps, eb_burst = real_of_int (sint burst),
        eb_tokens = real_of_int (sint burst), eb_last = None\<rparr>),
      bk_allow = (\<lambda>t l.
        let n = eb_available t l
        in if 1 \<le> n then (True, l\<lparr>eb_tokens := n - 1, eb_last := Some t\<rparr>)
           else (False, l\<lparr>eb_tokens := n, eb_last := Some t\<rparr>))\<rparr>"

definition eb_ok :: "real \<Rightarrow> real \<Rightarrow> exact_bucket \<Rightarrow> bool" where
  "eb_ok rate burst l \<longleftrightarrow> eb_rate l = rate \<and> eb_burst l = burst \<and> 0 \<le> eb_tokens l \<and> eb_tokens l \<le> burst"

lemma eb_allow:
  assumes "eb_ok rate burst l" "0 \<le> rate" "\<forall>u. eb_last l = Some u \<longrightarrow> u \<le> t"
  shows "eb_ok rate burst (snd (bk_allow exact_buckets t l))"
    and "eb_last (snd (bk_allow exact_buckets t l)) = Some t"
    and "eb_tokens (snd (bk_allow exact_buckets t l)) = eb_available t l - (if fst (bk_allow exact_buckets t l) then 1 else 0)"
    and "0 \<le> eb_available t l" "eb_available t l \<le> burst"
proof -
  have "0 \<le> rate * real_of_int (t - u) / 10 ^ 9" if "eb_last l = Some u" for u
    using assms(2,3) that by simp
  then show n: "0 \<le> eb_available t l" "eb_available t l \<le> burst"
    using assms(1) by (auto simp: eb_available_def eb_ok_def split: option.splits)
  then show "eb_ok rate burst (snd (bk_allow exact_buckets t l))"
    using assms(1) by (auto simp: exact_buckets_def Let_def eb_ok_def)
qed (simp_all add: exact_buckets_def Let_def)

lemma eb_count:
  assumes "eb_ok rate burst l" "0 \<le> rate" "\<forall>u. eb_last l = Some u \<longrightarrow> u \<le> t" "sorted (t # ts)"
  shows "real (length (filter id (outcomes exact_buckets l (t # ts))))
    \<le> eb_available t l + rate * real_of_int (last (t # ts) - t) / 10 ^ 9"
  using assms
proof (induction ts arbitrary: t l)
  case Nil
  then show ?case using eb_allow(4) [OF Nil(1-3)] by (auto simp: exact_buckets_def Let_def)
next
  case (Cons u us)
  let ?l = "snd (bk_allow exact_buckets t l)"
  note a = eb_allow [OF Cons.prems(1-3)]
  have s: "t \<le> u" "sorted (u # us)" using Cons.prems(4) by simp_all
  have ih: "real (length (filter id (outcomes exact_buckets ?l (u # us))))
      \<le> eb_available u ?l + rate * real_of_int (last (u # us) - u) / 10 ^ 9"
    by (rule Cons.IH [OF a(1) Cons.prems(2) _ s(2)]) (use a(2) s(1) in simp)
  have "eb_available u ?l \<le> eb_tokens ?l + rate * real_of_int (u - t) / 10 ^ 9"
    using a(1,2) by (simp add: eb_available_def eb_ok_def)
  moreover have "rate * real_of_int (last (u # us) - u) / 10 ^ 9 + rate * real_of_int (u - t) / 10 ^ 9 =
      rate * real_of_int (last (t # u # us) - t) / 10 ^ 9"
    by (simp add: algebra_simps add_divide_distrib [symmetric])
  moreover have "length (filter id (outcomes exact_buckets l (t # u # us))) =
      (if fst (bk_allow exact_buckets t l) then 1 else 0) + length (filter id (outcomes exact_buckets ?l (u # us)))"
    by (simp only: outcomes.simps(2) [of _ _ t]) simp
  ultimately show ?case using ih a(3) by (simp only: of_nat_add) (simp split: if_splits)
qed

lemma eb_after:
  assumes "eb_ok rate burst l" "0 \<le> rate" "sorted ts" "\<forall>u. eb_last l = Some u \<longrightarrow> (\<forall>t \<in> set ts. u \<le> t)"
  shows "eb_ok rate burst (bucket_after exact_buckets l ts) \<and>
    eb_last (bucket_after exact_buckets l ts) = (if ts = [] then eb_last l else Some (last ts))"
  using assms
proof (induction ts arbitrary: l)
  case (Cons t ts)
  have "\<forall>u. eb_last l = Some u \<longrightarrow> u \<le> t" using Cons.prems(4) by simp
  note a = eb_allow [OF Cons.prems(1,2) this]
  show ?case using Cons.IH [OF a(1) Cons.prems(2)] Cons.prems(3) a(2) by simp
qed simp

lemma exact_buckets_laws:
  assumes "0 \<le> fval rps" "0 \<le> sint burst" "0 \<le> refill"
    and "real_of_int (sint burst) * 10 ^ 9 \<le> fval rps * real_of_int refill"
  shows "token_bucket exact_buckets rps burst refill"
proof
  let ?n = "bk_new exact_buckets rps burst"
  let ?b = "real_of_int (sint burst)"
  have b0: "0 \<le> ?b" using assms(2) by (simp only: of_int_0_le_iff)
  have n: "eb_ok (fval rps) ?b ?n" "eb_last ?n = None" "eb_tokens ?n = ?b"
    using b0 by (simp_all add: exact_buckets_def eb_ok_def)
  have after: "eb_ok (fval rps) ?b (bucket_after exact_buckets ?n xs) \<and>
      eb_last (bucket_after exact_buckets ?n xs) = (if xs = [] then None else Some (last xs))" if "sorted xs" for xs
    using eb_after [OF n(1) assms(1) that] n(2) by simp
  show "real (length (filter id (outcomes exact_buckets (bucket_after exact_buckets ?n xs) ys)))
      \<le> ?b + fval rps * real_of_int (last ys - hd ys) / 10 ^ 9" if "sorted (xs @ ys)" "ys \<noteq> []" for xs ys
  proof -
    obtain t ts where ys: "ys = t # ts" using \<open>ys \<noteq> []\<close> by (cases ys) auto
    have "sorted xs" "sorted (t # ts)" "\<forall>u \<in> set xs. u \<le> t" using that(1) by (auto simp: ys sorted_append)
    then have s: "eb_ok (fval rps) ?b (bucket_after exact_buckets ?n xs)"
      "\<forall>u. eb_last (bucket_after exact_buckets ?n xs) = Some u \<longrightarrow> u \<le> t"
      using after [of xs] by auto
    show ?thesis
      using eb_count [OF s(1) assms(1) s(2) \<open>sorted (t # ts)\<close>] eb_allow(5) [OF s(1) assms(1) s(2)] by (simp add: ys)
  qed
  show "outcomes exact_buckets ?n (xs @ ys) = outcomes exact_buckets ?n xs @ outcomes exact_buckets ?n ys"
    if "sorted (xs @ ys)" "\<And>x y. x \<in> set xs \<Longrightarrow> y \<in> set ys \<Longrightarrow> x + refill \<le> y" for xs ys
  proof (cases "xs = [] \<or> ys = []")
    case False
    then obtain t ts where ys: "ys = t # ts" by (cases ys) auto
    let ?l = "bucket_after exact_buckets ?n xs"
    have s: "eb_ok (fval rps) ?b ?l" "eb_last ?l = Some (last xs)"
      using after [of xs] that(1) False by (simp_all add: sorted_append)
    have "real_of_int refill \<le> real_of_int (t - last xs)" using that(2) [of "last xs" t] False ys by simp
    then have "?b * 10 ^ 9 \<le> fval rps * real_of_int (t - last xs)"
      using assms(1,4) by (meson mult_left_mono order_trans)
    then have "?b \<le> fval rps * real_of_int (t - last xs) / 10 ^ 9" by (simp add: pos_le_divide_eq)
    then have "eb_available t ?l = ?b" using s by (simp add: eb_available_def eb_ok_def)
    moreover have "eb_available t ?n = ?b" using n by (simp add: eb_available_def)
    ultimately have "bk_allow exact_buckets t ?l = bk_allow exact_buckets t ?n"
      using s n by (auto simp: exact_buckets_def Let_def eb_ok_def)
    then show ?thesis by (simp add: ys outcomes_append)
  qed (auto simp: outcomes_append)
qed (rule assms(3))

text \<open>The default limits: ten requests a second, twenty at once. The bucket is full after two seconds.\<close>

interpretation default_bucket: token_bucket exact_buckets "Num 10" 20 "2 * 10 ^ 9"
  by (rule exact_buckets_laws) simp_all

section \<open>Concrete runs\<close>

text \<open>One request of a new address: it misses in the map, creates its bucket and is decided.\<close>

lemma run_new_address:
  assumes "rl_run B D s0 tr s" "sys_requests s = []" "sys_clock s \<le> t" "0 \<le> D"
    and "rl_limiters (sys_limiter s) ip = None"
  shows "\<exists>s'. rl_run B D s0 (tr @ [(ip, t, fst (bk_allow B t (bk_new B (rl_rps (sys_limiter s)) (rl_burst (sys_limiter s)))))]) s' \<and>
    sys_requests s' = [] \<and> sys_clock s' = t \<and> rl_idle_timeout (sys_limiter s') = rl_idle_timeout (sys_limiter s) \<and>
    rl_rps (sys_limiter s') = rl_rps (sys_limiter s) \<and> rl_burst (sys_limiter s') = rl_burst (sys_limiter s) \<and>
    (\<exists>a. rl_limiters (sys_limiter s') ip = Some \<lparr>il_limiter = a, il_last_seen = t\<rparr> \<and>
      rl_heap (sys_limiter s') a = Some (snd (bk_allow B t (bk_new B (rl_rps (sys_limiter s)) (rl_burst (sys_limiter s))))))"
proof -
  let ?s1 = "s\<lparr>sys_clock := t, sys_requests := [(ip, Missed)]\<rparr>"
  let ?l = "bk_new B (rl_rps (sys_limiter s)) (rl_burst (sys_limiter s))" and ?a = "rl_next (sys_limiter s)"
  let ?rl = "(sys_limiter s)\<lparr>rl_limiters := (rl_limiters (sys_limiter s))(ip \<mapsto> \<lparr>il_limiter = ?a, il_last_seen = t\<rparr>),
      rl_heap := (rl_heap (sys_limiter s))(?a \<mapsto> ?l), rl_next := ?a + 1\<rparr>"
  let ?s2 = "\<lparr>sys_limiter = ?rl, sys_clock = t, sys_requests = [(ip, Holding ?a t)]\<rparr>"
  let ?rl' = "?rl\<lparr>rl_heap := (rl_heap ?rl)(?a \<mapsto> snd (bk_allow B t ?l))\<rparr>"
  let ?s3 = "\<lparr>sys_limiter = ?rl', sys_clock = t, sys_requests = []\<rparr>"
  have "rl_step B D s [] ?s1"
    using rl_step.miss [of D t s ip B] assms by (simp add: at_instant_def fast_path_def)
  moreover have "rl_step B D ?s1 [] ?s2"
    using rl_step.lock [of D t ?s1 "[]" ip "[]" B ?a ?rl] assms by (simp add: at_instant_def slow_path_def)
  moreover have "rl_step B D ?s2 [(ip, t, fst (bk_allow B t ?l))] ?s3"
    using rl_step.decide [of D t ?s2 "[]" ip ?a t "[]" B "fst (bk_allow B t ?l)" ?rl'] assms
    by (simp add: at_instant_def allow_at_def split_beta)
  ultimately have "rl_run B D s0 (((tr @ []) @ []) @ [(ip, t, fst (bk_allow B t ?l))]) ?s3"
    using assms(1) by (blast intro: rl_run.next_step)
  then have "rl_run B D s0 (tr @ [(ip, t, fst (bk_allow B t ?l))]) ?s3" by simp
  then show ?thesis by (intro exI [of _ ?s3]) auto
qed

text \<open>A later request of an address the map holds.\<close>

lemma run_known_address:
  assumes "rl_run B D s0 tr s" "sys_requests s = []" "sys_clock s \<le> t" "0 \<le> D"
    and "rl_limiters (sys_limiter s) ip = Some e" "rl_heap (sys_limiter s) (il_limiter e) = Some l"
  shows "\<exists>s'. rl_run B D s0 (tr @ [(ip, t, fst (bk_allow B t l))]) s'"
proof -
  let ?rl = "(sys_limiter s)\<lparr>rl_limiters := (rl_limiters (sys_limiter s))(ip \<mapsto> e\<lparr>il_last_seen := t\<rparr>)\<rparr>"
  let ?s1 = "\<lparr>sys_limiter = ?rl, sys_clock = t, sys_requests = [(ip, Holding (il_limiter e) t)]\<rparr>"
  let ?rl' = "?rl\<lparr>rl_heap := (rl_heap ?rl)(il_limiter e \<mapsto> snd (bk_allow B t l))\<rparr>"
  have "rl_step B D s [] ?s1"
    using rl_step.hit [of D t s ip "il_limiter e" ?rl B] assms by (simp add: at_instant_def fast_path_def)
  moreover have "rl_step B D ?s1 [(ip, t, fst (bk_allow B t l))] \<lparr>sys_limiter = ?rl', sys_clock = t, sys_requests = []\<rparr>"
    using rl_step.decide [of D t ?s1 "[]" ip "il_limiter e" t "[]" B "fst (bk_allow B t l)" ?rl'] assms
    by (simp add: at_instant_def allow_at_def split_beta)
  ultimately have "rl_run B D s0 ((tr @ []) @ [(ip, t, fst (bk_allow B t l))]) \<lparr>sys_limiter = ?rl', sys_clock = t, sys_requests = []\<rparr>"
    using assms(1) by (blast intro: rl_run.next_step)
  then show ?thesis by auto
qed

lemma small_bucket: "token_bucket exact_buckets (Num 1) 1 (10 ^ 9)"
  by (rule exact_buckets_laws) simp_all

text \<open>One token a second and one at once: of two requests a millisecond apart the second is refused.\<close>

lemma two_requests:
  "\<exists>s. rl_run exact_buckets 1000 (rl_start (Num 1) 1 0) [(ip, 0, True), (ip, 10 ^ 6, False)] s"
proof -
  let ?s0 = "rl_start (Num 1) 1 0 :: exact_bucket rl_system"
  have r: "rl_run exact_buckets 1000 ?s0 [] ?s0" by (rule rl_run.start)
  obtain s a where s: "rl_run exact_buckets 1000 ?s0 [(ip, 0, True)] s" "sys_requests s = []" "sys_clock s = 0"
    "rl_limiters (sys_limiter s) ip = Some \<lparr>il_limiter = a, il_last_seen = 0\<rparr>"
    "rl_heap (sys_limiter s) a = Some (snd (bk_allow exact_buckets 0 (bk_new exact_buckets (Num 1) 1)))"
    using run_new_address [OF r, of 0 ip]
    by (auto simp: rl_start_def new_rate_limiter_def exact_buckets_def eb_available_def)
  show ?thesis
    using run_known_address [OF s(1,2), of "10 ^ 6" ip, OF _ _ s(4)] s(3,5)
    by (simp add: exact_buckets_def eb_available_def)
qed

text \<open>
  The bound on the refill time is needed: with a token every thousand seconds, which \<open>validate\<close>
  accepts, an address that waits for the eviction is admitted twice in 601 seconds.
\<close>

lemma eviction_refills_early:
  "\<exists>s. rl_run exact_buckets 1000 (rl_start (Num (1 / 1000)) 1 0) [(ip, 0, True), (ip, 601 * 10 ^ 9, True)] s"
proof -
  let ?s0 = "rl_start (Num (1 / 1000)) 1 0 :: exact_bucket rl_system"
  have r: "rl_run exact_buckets 1000 ?s0 [] ?s0" by (rule rl_run.start)
  obtain s a where s: "rl_run exact_buckets 1000 ?s0 [(ip, 0, True)] s" "sys_requests s = []" "sys_clock s = 0"
    "rl_idle_timeout (sys_limiter s) = 600 * 10 ^ 9" "rl_rps (sys_limiter s) = Num (1 / 1000)" "rl_burst (sys_limiter s) = 1"
    "rl_limiters (sys_limiter s) ip = Some \<lparr>il_limiter = a, il_last_seen = 0\<rparr>"
    using run_new_address [OF r, of 0 ip]
    by (auto simp: rl_start_def new_rate_limiter_def exact_buckets_def eb_available_def)
  let ?s' = "s\<lparr>sys_limiter := evict_idle (601 * 10 ^ 9) (sys_limiter s), sys_clock := 601 * 10 ^ 9\<rparr>"
  have "rl_step exact_buckets 1000 s [] ?s'" by (rule rl_step.evict) (simp_all add: at_instant_def s)
  then have r': "rl_run exact_buckets 1000 ?s0 [(ip, 0, True)] ?s'" using rl_run.next_step [OF s(1)] by fastforce
  show ?thesis
    using run_new_address [OF r', of "601 * 10 ^ 9" ip] s
    by (auto simp: evict_idle_def exact_buckets_def eb_available_def)
qed

section \<open>Properties\<close>

text \<open>
  C9. Every address has a token bucket of its own. However the requests of all addresses, the
  creation of limiters by concurrent misses and the evictions interleave, the decisions of an
  address are those of one bucket that saw its requests only and was never evicted, as
  long as a bucket refills, and a goroutine reaches it, within the idle timeout.
\<close>

theorem rate_limiter_private_buckets:
  assumes "token_bucket B rps burst refill" "rl_run B D (rl_start rps burst t) tr s"
    and "0 \<le> D" "refill + D \<le> 600 * 10 ^ 9"
  shows "verdicts_of ip tr = outcomes B (bk_new B rps burst) (times_of ip tr)"
  using assms by (rule token_bucket.private_buckets)

theorem rate_limiter_private_buckets_witness:
  "\<exists>tr s. rl_run exact_buckets 1000 (rl_start (Num 1) 1 0) tr s \<and> verdicts_of ''::1'' tr = [True, False] \<and>
     verdicts_of ''::1'' tr = outcomes exact_buckets (bk_new exact_buckets (Num 1) 1) [0, 10 ^ 6]"
proof -
  obtain s where r: "rl_run exact_buckets 1000 (rl_start (Num 1) 1 0) [(''::1'', 0, True), (''::1'', 10 ^ 6, False)] s"
    using two_requests by blast
  show ?thesis
    using r rate_limiter_private_buckets [OF small_bucket r, of "''::1''"]
    by (intro exI [of _ "[(''::1'', 0, True), (''::1'', 10 ^ 6, False)]"] exI [of _ s])
      (simp add: verdicts_of_def times_of_def)
qed

text \<open>
  C10. No address is admitted more often than its bucket allows: in any stretch of time at most the
  burst and the rate times its length, whatever the other addresses, the evictions and the order
  of the goroutines.
\<close>

theorem admissions_bounded:
  assumes "token_bucket B rps burst refill" "rl_run B D (rl_start rps burst t) tr s"
    and "0 \<le> D" "refill + D \<le> 600 * 10 ^ 9" "0 \<le> fval rps" "0 \<le> sint burst" "a \<le> b"
  shows "real (length (filter (\<lambda>(i, u, v). i = ip \<and> v \<and> a \<le> u \<and> u \<le> b) tr))
    \<le> real_of_int (sint burst) + fval rps * real_of_int (b - a) / 10 ^ 9"
proof -
  let ?ds = "map snd (filter (\<lambda>d. fst d = ip) tr)"
  have "real (length (filter (\<lambda>(u, v). v \<and> a \<le> u \<and> u \<le> b) ?ds))
      \<le> max 0 (real_of_int (sint burst) + fval rps * real_of_int (b - a) / 10 ^ 9)"
    using token_bucket.private_buckets [OF assms(1-4)] assms(1,5,7)
    by (intro window_bound) (simp_all only: decisions_of)
  moreover have "length (filter (\<lambda>(u, v). v \<and> a \<le> u \<and> u \<le> b) ?ds) =
      length (filter (\<lambda>(i, u, v). i = ip \<and> v \<and> a \<le> u \<and> u \<le> b) tr)"
    by (simp add: filter_map o_def filter_filter) (auto intro!: arg_cong [where f = length] filter_cong)
  moreover have "0 \<le> real_of_int (sint burst)" using assms(6) by (simp only: of_int_0_le_iff)
  moreover have "0 \<le> fval rps * real_of_int (b - a) / 10 ^ 9" using assms(5,7) by simp
  ultimately show ?thesis by simp
qed

theorem admissions_bounded_witness:
  "\<exists>tr s. rl_run exact_buckets 1000 (rl_start (Num 1) 1 0) tr s \<and> verdicts_of ''::1'' tr = [True, False] \<and>
     length (filter (\<lambda>(i, u, v). i = ''::1'' \<and> v \<and> 0 \<le> u \<and> u \<le> 10 ^ 8) tr) \<le> 1"
proof -
  obtain s where r: "rl_run exact_buckets 1000 (rl_start (Num 1) 1 0) [(''::1'', 0, True), (''::1'', 10 ^ 6, False)] s"
    using two_requests by blast
  show ?thesis
    using r admissions_bounded [OF small_bucket r, of 0 "10 ^ 8" "''::1''"]
    by (intro exI [of _ "[(''::1'', 0, True), (''::1'', 10 ^ 6, False)]"] exI [of _ s]) (simp add: verdicts_of_def)
qed

end
