(* ===== verification/Gateway_Auth.thy ===== *)
theory Gateway_Auth
  imports Gin
begin

text \<open>
  \<open>gateway/internal/middleware/auth.go\<close> and the administrator's login of
  \<open>gateway/internal/server/server.go\<close>: the API key of the clients, the tokens of the
  administrators. Tokens are signed and parsed by \<open>golang-jwt\<close>, the record \<open>jwt_lib\<close>; instants are
  nanoseconds since the epoch, \<open>jwt_laws\<close> is what the gateway relies on.
\<close>

unbundle bit_operations_syntax

section \<open>The library\<close>

datatype signing_method = HMAC string | OtherMethod string

record jwt_options =
  jo_valid_methods :: "string list"
  jo_expiration_required :: bool
  jo_issued_at :: bool

record jwt_lib =
  jwt_numeric_date :: "int \<Rightarrow> int"
  jwt_sign :: "string \<Rightarrow> string \<Rightarrow> admin_claims \<Rightarrow> string + string"
  jwt_parse :: "jwt_options \<Rightarrow> (signing_method \<Rightarrow> string + string) \<Rightarrow> int \<Rightarrow> string \<Rightarrow> string + admin_claims \<times> bool"

text \<open>
  A numeric date is whole seconds. Claims of plain text and of dates a \<open>float64\<close> holds exactly
  survive the token. A token parses, with the key it was signed with and its method among the valid
  ones, from the instant it was issued at, if that is verified, until it expires.
\<close>

definition plain_claims :: "admin_claims \<Rightarrow> bool" where
  "plain_claims c \<longleftrightarrow>
     ascii (ac_issuer c) \<and> ascii (ac_subject c) \<and> ascii (ac_username c) \<and> ascii (ac_role c) \<and>
     \<bar>ac_issued_at c\<bar> \<le> 2 ^ 53 \<and> \<bar>ac_expires_at c\<bar> \<le> 2 ^ 53"

locale jwt_laws =
  fixes L :: jwt_lib
  assumes numeric_date: "jwt_numeric_date L t = t div 10 ^ 9"
    and signs: "plain_claims c \<Longrightarrow> \<exists>raw. jwt_sign L ''HS256'' key c = Inr raw \<and> raw \<noteq> []"
    and parses: "plain_claims c \<Longrightarrow> jwt_sign L ''HS256'' key c = Inr raw \<Longrightarrow> keyf (HMAC ''HS256'') = Inr key \<Longrightarrow>
        ''HS256'' \<in> set (jo_valid_methods o') \<Longrightarrow> now < ac_expires_at c * 10 ^ 9 \<Longrightarrow>
        (jo_issued_at o' \<Longrightarrow> ac_issued_at c * 10 ^ 9 \<le> now) \<Longrightarrow> jwt_parse L o' keyf now raw = Inr (c, True)"
    and rejects: "plain_claims c \<Longrightarrow> jwt_sign L ''HS256'' key c = Inr raw \<Longrightarrow> keyf (HMAC ''HS256'') = Inr key \<Longrightarrow>
        ac_expires_at c * 10 ^ 9 \<le> now \<or> jo_issued_at o' \<and> now < ac_issued_at c * 10 ^ 9 \<Longrightarrow>
        \<exists>m. jwt_parse L o' keyf now raw = Inl m"

section \<open>The API key\<close>

text \<open>\<open>subtle.ConstantTimeCompare\<close> is 1 on equal byte strings and 0 on others.\<close>

definition constant_time_compare :: "string \<Rightarrow> string \<Rightarrow> nat" where
  "constant_time_compare a b = (if a = b then 1 else 0)"

definition api_key_auth :: "string \<Rightarrow> string \<Rightarrow> gin_ctx \<Rightarrow> http_response + gin_ctx" where
  "api_key_auth header expected c =
     (let key = gc_header c header
      in if key = [] then Inl (abort_unauthorized ''missing API key'')
         else if constant_time_compare key expected \<noteq> 1 then Inl (abort_unauthorized ''invalid API key'')
         else Inr c)"

section \<open>Administrator tokens\<close>

text \<open>
  \<open>strings.EqualFold\<close> against a text of ASCII letters without k and s, the only letters that
  other characters fold to: the comparison of the lower-cased bytes.
\<close>

definition equal_fold :: "string \<Rightarrow> string \<Rightarrow> bool" where
  "equal_fold s t \<longleftrightarrow> map to_ascii_lower s = map to_ascii_lower t"

text \<open>\<open>strings.SplitN(s, " ", 2)\<close>.\<close>

definition split_at_space :: "string \<Rightarrow> string list" where
  "split_at_space s =
     (let a = takeWhile (\<lambda>c. c \<noteq> CHR '' '') s
      in if length a = length s then [s] else [a, drop (length a + 1) s])"

definition extract_bearer_token :: "gin_ctx \<Rightarrow> string + string" where
  "extract_bearer_token c =
     (let header = gc_header c ''Authorization''; parts = split_at_space header
      in if header = [] then Inl ''missing Authorization header''
         else if length parts \<noteq> 2 \<or> \<not> equal_fold (parts ! 0) ''bearer''
         then Inl ''Authorization header must use Bearer scheme''
         else if parts ! 1 = [] then Inl ''Bearer token is empty''
         else Inr (parts ! 1))"

definition jwt_key :: "string \<Rightarrow> signing_method \<Rightarrow> string + string" where
  "jwt_key secret m =
     (case m of HMAC _ \<Rightarrow> Inr secret | OtherMethod alg \<Rightarrow> Inl (''unexpected signing algorithm: '' @ alg))"

definition jwt_checks :: jwt_options where
  "jwt_checks = \<lparr>jo_valid_methods = [''HS256''], jo_expiration_required = True, jo_issued_at = True\<rparr>"

definition jwt_auth :: "jwt_lib \<Rightarrow> string \<Rightarrow> int \<Rightarrow> gin_ctx \<Rightarrow> http_response + gin_ctx" where
  "jwt_auth L secret now c =
     (case extract_bearer_token c of
        Inl m \<Rightarrow> Inl (abort_unauthorized m)
      | Inr raw \<Rightarrow>
          (case jwt_parse L jwt_checks (jwt_key secret) now raw of
             Inr (claims, True) \<Rightarrow> Inr (c\<lparr>gc_admin_claims := Some claims\<rparr>)
           | _ \<Rightarrow> Inl (abort_unauthorized ''invalid or expired token'')))"

text \<open>\<open>time.Duration(expiryMinutes) * time.Minute\<close>: a product of 64 bits, which wraps.\<close>

definition token_lifetime :: "go_int \<Rightarrow> int" where
  "token_lifetime minutes = sint (minutes * 60000000000)"

definition admin_token_claims :: "jwt_lib \<Rightarrow> string \<Rightarrow> int \<Rightarrow> go_int \<Rightarrow> admin_claims" where
  "admin_token_claims L username now minutes =
     \<lparr>ac_issuer = ''vyse-gateway'', ac_subject = username, ac_issued_at = jwt_numeric_date L now,
      ac_expires_at = jwt_numeric_date L (now + token_lifetime minutes), ac_username = username, ac_role = ''admin''\<rparr>"

definition issue_admin_token :: "jwt_lib \<Rightarrow> string \<Rightarrow> string \<Rightarrow> go_int \<Rightarrow> int \<Rightarrow> string + string" where
  "issue_admin_token L username secret minutes now =
     jwt_sign L ''HS256'' secret (admin_token_claims L username now minutes)"

text \<open>
  \<open>IssueToken\<close>: \<open>bind\<close> is \<open>c.ShouldBindJSON\<close> for the two required fields. Both comparisons are made
  before the decision.
\<close>

definition issue_token :: "jwt_lib \<Rightarrow> (string \<Rightarrow> (string \<times> string) option) \<Rightarrow> gw_auth \<Rightarrow> int \<Rightarrow> gin_ctx \<Rightarrow> http_response" where
  "issue_token L bind auth now c =
     (case bind (gc_body c) of
        None \<Rightarrow> json_response 400 (error_response ''username and password are required'' ''BAD_REQUEST'')
      | Some (username, password) \<Rightarrow>
          (let username_match = constant_time_compare username (ga_admin_username auth);
               password_match = constant_time_compare password (ga_admin_password auth)
           in if (username_match AND password_match) \<noteq> 1
              then json_response 401 (error_response ''invalid credentials'' ''UNAUTHORIZED'')
              else case issue_admin_token L username (ga_jwt_secret auth) (ga_jwt_expiry_minutes auth) now of
                     Inl _ \<Rightarrow> json_response 500 (error_response ''token issuance failed'' ''INTERNAL'')
                   | Inr token \<Rightarrow> json_response 200 (TokenBody token (ga_jwt_expiry_minutes auth) ''Bearer'')))"

section \<open>Health\<close>

text \<open>
  \<open>Health\<close>: always healthy. \<open>time.Duration.Seconds\<close> is the whole seconds plus the rest, as
  \<open>float64\<close>; the version and what the Go runtime says of itself are arguments.
\<close>

definition duration_seconds :: "int \<Rightarrow> fp" where
  "duration_seconds d =
     fadd F64 (fof_int F64 (d div 10 ^ 9)) (fdiv F64 (fof_int F64 (d mod 10 ^ 9)) (Num (10 ^ 9)))"

definition gateway_health :: "string \<Rightarrow> string \<times> int \<times> string \<times> string \<Rightarrow> int \<Rightarrow> int \<Rightarrow> http_response" where
  "gateway_health version runtime start now =
     json_response 200 (HealthBody ''healthy'' ''vyse-gateway'' version (duration_seconds (now - start)) runtime)"

lemma split_bearer: "split_at_space (''Bearer '' @ raw) = [''Bearer'', raw]"
  by (simp add: split_at_space_def Let_def)

lemma bearer_folds: "equal_fold ''Bearer'' ''bearer''"
  by code_simp

lemma extract_bearer:
  "gc_header c ''Authorization'' = ''Bearer '' @ raw \<Longrightarrow> raw \<noteq> [] \<Longrightarrow> extract_bearer_token c = Inr raw"
  unfolding extract_bearer_token_def Let_def
  by (simp only: split_bearer) (simp add: bearer_folds)

lemma token_lifetime_bounds: "- (2 ^ 63) \<le> token_lifetime m" "token_lifetime m < 2 ^ 63"
  using sint_greater_eq [of "m * 60000000000"] sint_lt [of "m * 60000000000"] by (simp_all add: token_lifetime_def)

text \<open>A configured lifetime of the default is eight hours; one of about 293 years has passed when it starts.\<close>

lemma default_lifetime: "token_lifetime 480 = 8 * 3600 * 10 ^ 9"
  by (simp add: token_lifetime_def)

lemma lifetime_wraps: "token_lifetime 153722868 < 0"
  by (simp add: token_lifetime_def)

section \<open>A provider\<close>

text \<open>A token that is the key and the claims, each text and number in a self-delimiting code.\<close>

definition enc_text :: "string \<Rightarrow> string" where
  "enc_text s = concat (map (\<lambda>c. [CHR ''1'', c]) s) @ [CHR ''0'']"

fun dec_text :: "string \<Rightarrow> string \<times> string" where
  "dec_text [] = ([], [])"
| "dec_text [a] = ([], [])"
| "dec_text (a # c # r) =
     (if a = CHR ''1'' then (case dec_text r of (s, r') \<Rightarrow> (c # s, r')) else ([], c # r))"

definition enc_num :: "int \<Rightarrow> string" where
  "enc_num i = enc_text ((if i < 0 then ''-'' else []) @ replicate (nat \<bar>i\<bar>) CHR ''x'')"

definition num_of :: "string \<Rightarrow> int" where
  "num_of s = (if s \<noteq> [] \<and> hd s = CHR ''-'' then - int (length (tl s)) else int (length s))"

lemma dec_enc_text: "dec_text (enc_text s @ r) = (s, r)"
proof (induction s)
  case Nil
  show ?case by (cases r) (simp_all add: enc_text_def)
qed (simp add: enc_text_def)

lemma num_of_enc: "num_of ((if i < 0 then ''-'' else []) @ replicate (nat \<bar>i\<bar>) CHR ''x'') = i"
  by (cases "i = 0") (auto simp: num_of_def hd_append)

definition enc_claims :: "string \<Rightarrow> admin_claims \<Rightarrow> string" where
  "enc_claims key c =
     enc_text key @ enc_text (ac_issuer c) @ enc_text (ac_subject c) @ enc_num (ac_issued_at c) @
     enc_num (ac_expires_at c) @ enc_text (ac_username c) @ enc_text (ac_role c)"

definition dec_claims :: "string \<Rightarrow> string \<times> admin_claims" where
  "dec_claims raw =
     (let (key, r1) = dec_text raw; (issuer, r2) = dec_text r1; (subject, r3) = dec_text r2;
          (iat, r4) = dec_text r3; (exp, r5) = dec_text r4; (user, r6) = dec_text r5; (role, r7) = dec_text r6
      in (key, \<lparr>ac_issuer = issuer, ac_subject = subject, ac_issued_at = num_of iat,
                ac_expires_at = num_of exp, ac_username = user, ac_role = role\<rparr>))"

lemma dec_enc_claims: "dec_claims (enc_claims key c) = (key, c)"
proof -
  have last: "dec_text (enc_text s) = (s, [])" for s using dec_enc_text [of s "[]"] by simp
  show ?thesis
    unfolding dec_claims_def enc_claims_def enc_num_def by (simp add: dec_enc_text last num_of_enc)
qed

definition open_jwt :: jwt_lib where
  "open_jwt =
     \<lparr>jwt_numeric_date = (\<lambda>t. t div 10 ^ 9), jwt_sign = (\<lambda>alg key c. Inr (enc_claims key c)),
      jwt_parse = (\<lambda>o' keyf now raw.
        let (key, c) = dec_claims raw
        in if keyf (HMAC ''HS256'') = Inr key \<and> ''HS256'' \<in> set (jo_valid_methods o') \<and> now < ac_expires_at c * 10 ^ 9 \<and>
              (jo_issued_at o' \<longrightarrow> ac_issued_at c * 10 ^ 9 \<le> now)
           then Inr (c, True) else Inl ''token'')\<rparr>"

lemma enc_claims_nonempty: "enc_claims key c \<noteq> []"
  by (simp add: enc_claims_def enc_text_def)

interpretation open_jwt: jwt_laws open_jwt
  by unfold_locales (auto simp: open_jwt_def dec_enc_claims enc_claims_nonempty)

section \<open>Properties\<close>

lemma issued_claims_plain:
  assumes "jwt_laws L" "ascii username" "0 \<le> now" "now \<le> 2 ^ 52 * 10 ^ 9"
  shows "plain_claims (admin_token_claims L username now minutes)"
proof -
  have d: "jwt_numeric_date L t = t div 10 ^ 9" for t by (rule jwt_laws.numeric_date [OF assms(1)])
  have "\<bar>now div 10 ^ 9\<bar> \<le> 2 ^ 53" using assms(3,4) by simp
  moreover have "\<bar>(now + token_lifetime minutes) div 10 ^ 9\<bar> \<le> 2 ^ 53"
    using assms(3,4) token_lifetime_bounds [of minutes] by simp
  ultimately show ?thesis
    using assms(2) by (simp add: plain_claims_def admin_token_claims_def d byte_def)
qed

text \<open>
  C36. A token for the administrator's name and password is accepted exactly from the second it was
  issued in until the configured minutes have passed, counted in 64 bits of nanoseconds and in whole
  seconds, and gives the request the administrator's claims; before and after, it is refused.
\<close>

theorem issued_token_lifetime:
  assumes "jwt_laws L" "bind (gc_body c) = Some (ga_admin_username auth, ga_admin_password auth)"
    and "ascii (ga_admin_username auth)" "0 \<le> now" "now \<le> 2 ^ 52 * 10 ^ 9"
  shows "\<exists>token. issue_token L bind auth now c = json_response 200 (TokenBody token (ga_jwt_expiry_minutes auth) ''Bearer'') \<and>
    (\<forall>later r. gc_header r ''Authorization'' = ''Bearer '' @ token \<longrightarrow>
       jwt_auth L (ga_jwt_secret auth) later r =
         (if now div 10 ^ 9 * 10 ^ 9 \<le> later \<and>
             later < (now + token_lifetime (ga_jwt_expiry_minutes auth)) div 10 ^ 9 * 10 ^ 9
          then Inr (r\<lparr>gc_admin_claims := Some (admin_token_claims L (ga_admin_username auth) now (ga_jwt_expiry_minutes auth))\<rparr>)
          else Inl (abort_unauthorized ''invalid or expired token'')))"
proof -
  let ?key = "ga_jwt_secret auth"
  let ?c = "admin_token_claims L (ga_admin_username auth) now (ga_jwt_expiry_minutes auth)"
  have plain: "plain_claims ?c" by (rule issued_claims_plain [OF assms(1,3-5)])
  then obtain raw where raw: "jwt_sign L ''HS256'' ?key ?c = Inr raw" "raw \<noteq> []"
    using jwt_laws.signs [OF assms(1)] by blast
  have k: "jwt_key ?key (HMAC ''HS256'') = Inr ?key" by (simp add: jwt_key_def)
  have v: "''HS256'' \<in> set (jo_valid_methods jwt_checks)" "jo_issued_at jwt_checks" by (simp_all add: jwt_checks_def)
  have date: "ac_issued_at ?c = now div 10 ^ 9"
    "ac_expires_at ?c = (now + token_lifetime (ga_jwt_expiry_minutes auth)) div 10 ^ 9"
    by (simp_all add: admin_token_claims_def jwt_laws.numeric_date [OF assms(1)])
  have issued: "issue_token L bind auth now c = json_response 200 (TokenBody raw (ga_jwt_expiry_minutes auth) ''Bearer'')"
    using assms(2) raw by (simp add: issue_token_def constant_time_compare_def issue_admin_token_def)
  have "jwt_auth L ?key later r =
      (if ac_issued_at ?c * 10 ^ 9 \<le> later \<and> later < ac_expires_at ?c * 10 ^ 9
       then Inr (r\<lparr>gc_admin_claims := Some ?c\<rparr>) else Inl (abort_unauthorized ''invalid or expired token''))"
    if "gc_header r ''Authorization'' = ''Bearer '' @ raw" for later r
  proof (cases "ac_issued_at ?c * 10 ^ 9 \<le> later \<and> later < ac_expires_at ?c * 10 ^ 9")
    case True
    then have "jwt_parse L jwt_checks (jwt_key ?key) later raw = Inr (?c, True)"
      using jwt_laws.parses [OF assms(1) plain raw(1), of "jwt_key ?key" jwt_checks later] k v(1) by blast
    with True show ?thesis by (simp add: jwt_auth_def extract_bearer [OF that raw(2)])
  next
    case False
    then obtain m where "jwt_parse L jwt_checks (jwt_key ?key) later raw = Inl m"
      using jwt_laws.rejects [OF assms(1) plain raw(1), of "jwt_key ?key" later jwt_checks] k v(2) by (meson not_less)
    with False show ?thesis by (auto simp: jwt_auth_def extract_bearer [OF that raw(2)])
  qed
  with issued show ?thesis unfolding date by blast
qed

definition demo_auth :: gw_auth where
  "demo_auth =
     \<lparr>ga_jwt_secret = replicate 32 CHR ''s'', ga_jwt_expiry_minutes = 480, ga_admin_username = ''admin'',
      ga_admin_password = ''pw'', ga_api_key_header = ''X-Vyse-Key'', ga_api_key = replicate 32 CHR ''k''\<rparr>"

definition login_ctx :: gin_ctx where
  "login_ctx =
     \<lparr>gc_header = (\<lambda>_. []), gc_client_ip = ''10.0.0.1'', gc_body = ''admin pw'',
      gc_session_id = [], gc_session_id_hash = [], gc_log_session_hash = [], gc_admin_claims = None\<rparr>"

theorem issued_token_lifetime_witness:
  "\<exists>token. issue_token open_jwt (\<lambda>_. Some (''admin'', ''pw'')) demo_auth 1500000000 login_ctx =
       json_response 200 (TokenBody token 480 ''Bearer'') \<and>
     (\<forall>r. gc_header r ''Authorization'' = ''Bearer '' @ token \<longrightarrow>
        (\<exists>r'. jwt_auth open_jwt (ga_jwt_secret demo_auth) 2000000000 r = Inr r') \<and>
        jwt_auth open_jwt (ga_jwt_secret demo_auth) (28801 * 10 ^ 9) r =
          Inl (abort_unauthorized ''invalid or expired token''))"
proof -
  let ?bind = "\<lambda>_::string. Some (''admin'', ''pw'')"
  have "?bind (gc_body login_ctx) = Some (ga_admin_username demo_auth, ga_admin_password demo_auth)"
    "ascii (ga_admin_username demo_auth)" "(0::int) \<le> 1500000000" "(1500000000::int) \<le> 2 ^ 52 * 10 ^ 9"
    by (simp_all add: demo_auth_def byte_def)
  note t = issued_token_lifetime [OF open_jwt.jwt_laws_axioms this]
  have m: "ga_jwt_expiry_minutes demo_auth = 480" by (simp add: demo_auth_def)
  obtain token where "issue_token open_jwt ?bind demo_auth 1500000000 login_ctx = json_response 200 (TokenBody token 480 ''Bearer'')"
    and a: "\<And>later r. gc_header r ''Authorization'' = ''Bearer '' @ token \<Longrightarrow>
      jwt_auth open_jwt (ga_jwt_secret demo_auth) later r =
        (if 1500000000 div 10 ^ 9 * 10 ^ 9 \<le> later \<and> later < (1500000000 + token_lifetime 480) div 10 ^ 9 * 10 ^ 9
         then Inr (r\<lparr>gc_admin_claims := Some (admin_token_claims open_jwt (ga_admin_username demo_auth) 1500000000 480)\<rparr>)
         else Inl (abort_unauthorized ''invalid or expired token''))"
    using t unfolding m by blast
  then show ?thesis by (intro exI [of _ token]) (simp add: a default_lifetime)
qed

end
