(* ===== verification/Sha256.thy ===== *)
theory Sha256
  imports Text
begin

text \<open>
  The two packages of Go's standard library the gateway names sessions with: \<open>crypto/sha256\<close>
  (\<open>Sum256\<close>, the hash of FIPS 180-4, over 32-bit words that wrap) and \<open>encoding/hex\<close>. Both are
  computed. The lemmas are the shape of a digest and of its hexadecimal form, and that the form
  can be read back.
\<close>

unbundle bit_operations_syntax

section \<open>Words and bytes\<close>

type_synonym w32 = "32 word"

definition rotate_right :: "nat \<Rightarrow> w32 \<Rightarrow> w32" where
  "rotate_right n x = (drop_bit n x OR push_bit (32 - n) x)"

definition be_word :: "string \<Rightarrow> w32" where
  "be_word bs = foldl (\<lambda>w c. push_bit 8 w OR of_char c) 0 bs"

definition be_bytes :: "nat \<Rightarrow> int \<Rightarrow> string" where
  "be_bytes n v = map (\<lambda>i. char_of (drop_bit (8 * (n - 1 - i)) v)) [0..<n]"

lemma length_be_bytes [simp]: "length (be_bytes n v) = n"
  by (simp add: be_bytes_def)

section \<open>SHA-256\<close>

definition round_constants :: "w32 list" where
  "round_constants =
     [1116352408, 1899447441, 3049323471, 3921009573, 961987163, 1508970993, 2453635748, 2870763221,
      3624381080, 310598401, 607225278, 1426881987, 1925078388, 2162078206, 2614888103, 3248222580,
      3835390401, 4022224774, 264347078, 604807628, 770255983, 1249150122, 1555081692, 1996064986,
      2554220882, 2821834349, 2952996808, 3210313671, 3336571891, 3584528711, 113926993, 338241895,
      666307205, 773529912, 1294757372, 1396182291, 1695183700, 1986661051, 2177026350, 2456956037,
      2730485921, 2820302411, 3259730800, 3345764771, 3516065817, 3600352804, 4094571909, 275423344,
      430227734, 506948616, 659060556, 883997877, 958139571, 1322822218, 1537002063, 1747873779,
      1955562222, 2024104815, 2227730452, 2361852424, 2428436474, 2756734187, 3204031479, 3329325298]"

definition initial_hash :: "w32 list" where
  "initial_hash =
     [1779033703, 3144134277, 1013904242, 2773480762, 1359893119, 2600822924, 528734635, 1541459225]"

text \<open>A message is followed by a set bit, zeros, and its length in bits on eight bytes.\<close>

definition pad_message :: "string \<Rightarrow> string" where
  "pad_message m =
     m @ [char_of (128::nat)] @ replicate ((119 - length m mod 64) mod 64) (char_of (0::nat)) @
     be_bytes 8 (8 * int (length m) mod 2 ^ 64)"

fun chunks_of :: "nat \<Rightarrow> nat \<Rightarrow> 'a list \<Rightarrow> 'a list list" where
  "chunks_of n 0 xs = []"
| "chunks_of n (Suc k) xs = take n xs # chunks_of n k (drop n xs)"

text \<open>The message schedule, latest word first.\<close>

definition next_word :: "w32 list \<Rightarrow> w32" where
  "next_word ws =
     (let s0 = rotate_right 7 (ws ! 14) XOR rotate_right 18 (ws ! 14) XOR drop_bit 3 (ws ! 14);
          s1 = rotate_right 17 (ws ! 1) XOR rotate_right 19 (ws ! 1) XOR drop_bit 10 (ws ! 1)
      in ws ! 15 + s0 + ws ! 6 + s1)"

fun extend_schedule :: "nat \<Rightarrow> w32 list \<Rightarrow> w32 list" where
  "extend_schedule 0 ws = ws"
| "extend_schedule (Suc n) ws = extend_schedule n (next_word ws # ws)"

definition schedule :: "string \<Rightarrow> w32 list" where
  "schedule block = rev (extend_schedule 48 (rev (map be_word (chunks_of 4 16 block))))"

record sha_state =
  sha_a :: w32
  sha_b :: w32
  sha_c :: w32
  sha_d :: w32
  sha_e :: w32
  sha_f :: w32
  sha_g :: w32
  sha_h :: w32

definition sha_words :: "sha_state \<Rightarrow> w32 list" where
  "sha_words s = [sha_a s, sha_b s, sha_c s, sha_d s, sha_e s, sha_f s, sha_g s, sha_h s]"

definition sha_load :: "w32 list \<Rightarrow> sha_state" where
  "sha_load hs =
     \<lparr>sha_a = hs ! 0, sha_b = hs ! 1, sha_c = hs ! 2, sha_d = hs ! 3,
      sha_e = hs ! 4, sha_f = hs ! 5, sha_g = hs ! 6, sha_h = hs ! 7\<rparr>"

definition sha_round :: "sha_state \<Rightarrow> w32 \<times> w32 \<Rightarrow> sha_state" where
  "sha_round s kw =
     (let e = sha_e s; a = sha_a s;
          t1 = sha_h s + (rotate_right 6 e XOR rotate_right 11 e XOR rotate_right 25 e) +
               ((e AND sha_f s) XOR (NOT e AND sha_g s)) + fst kw + snd kw;
          t2 = (rotate_right 2 a XOR rotate_right 13 a XOR rotate_right 22 a) +
               ((a AND sha_b s) XOR (a AND sha_c s) XOR (sha_b s AND sha_c s))
      in \<lparr>sha_a = t1 + t2, sha_b = a, sha_c = sha_b s, sha_d = sha_c s,
          sha_e = sha_d s + t1, sha_f = e, sha_g = sha_f s, sha_h = sha_g s\<rparr>)"

definition sha_block :: "w32 list \<Rightarrow> string \<Rightarrow> w32 list" where
  "sha_block hs block =
     map2 (+) hs (sha_words (foldl sha_round (sha_load hs) (zip round_constants (schedule block))))"

definition sum256 :: "string \<Rightarrow> string" where
  "sum256 m =
     (let p = pad_message m
      in concat (map (\<lambda>w. be_bytes 4 (uint w)) (foldl sha_block initial_hash (chunks_of 64 (length p div 64) p))))"

lemma length_sha_block: "length hs = 8 \<Longrightarrow> length (sha_block hs b) = 8"
  by (simp add: sha_block_def sha_words_def)

lemma length_sha_blocks: "length hs = 8 \<Longrightarrow> length (foldl sha_block hs bs) = 8"
  by (induction bs arbitrary: hs) (simp_all add: length_sha_block)

lemma length_sum256 [simp]: "length (sum256 m) = 32"
proof -
  have "length (concat (map (\<lambda>w. be_bytes 4 (uint w)) hs)) = 4 * length hs" for hs :: "w32 list"
    by (induction hs) simp_all
  then show ?thesis by (simp add: sum256_def Let_def length_sha_blocks initial_hash_def)
qed

lemma pad_message_blocks: "64 dvd length (pad_message m)"
proof -
  have "length (pad_message m) = length m + 9 + (119 - length m mod 64) mod 64"
    by (simp add: pad_message_def)
  moreover have "\<exists>k. n + 9 + (119 - n mod 64) mod 64 = 64 * k" for n :: nat
  proof -
    define q r where "q = n div 64" and "r = n mod 64"
    have n: "n = 64 * q + r" "r < 64" by (simp_all add: q_def r_def)
    show ?thesis
    proof (cases "r \<le> 55")
      case True
      then have "119 - r = (55 - r) + 64 * 1" by simp
      then have "(119 - r) mod 64 = (55 - r) mod 64" by (metis mod_mult_self2)
      then have "(119 - r) mod 64 = 55 - r" by simp
      with n True have "n + 9 + (119 - r) mod 64 = 64 * (q + 1)" by simp
      then show ?thesis unfolding r_def by blast
    next
      case False
      then have "(119 - r) mod 64 = 119 - r" by simp
      with n False have "n + 9 + (119 - r) mod 64 = 64 * (q + 2)" by simp
      then show ?thesis unfolding r_def by blast
    qed
  qed
  ultimately show ?thesis by (metis dvd_triv_left)
qed

section \<open>Hexadecimal\<close>

definition hex_digit :: "nat \<Rightarrow> char" where
  "hex_digit n = char_of (if n < 10 then 48 + n else 87 + n)"

definition hex_encode :: "string \<Rightarrow> string" where
  "hex_encode s = concat (map (\<lambda>c. [hex_digit (byte c div 16), hex_digit (byte c mod 16)]) s)"

definition hex_value :: "char \<Rightarrow> nat" where
  "hex_value c = (if byte c < 58 then byte c - 48 else byte c - 87)"

fun hex_decode :: "string \<Rightarrow> string" where
  "hex_decode (a # b # s) = char_of (16 * hex_value a + hex_value b) # hex_decode s"
| "hex_decode _ = []"

definition lower_hex :: "char \<Rightarrow> bool" where
  "lower_hex c \<longleftrightarrow> (48 \<le> byte c \<and> byte c \<le> 57) \<or> (97 \<le> byte c \<and> byte c \<le> 102)"

lemma hex_value_digit: "n < 16 \<Longrightarrow> hex_value (hex_digit n) = n"
  by (simp add: hex_value_def hex_digit_def byte_char_of)

lemma lower_hex_digit: "n < 16 \<Longrightarrow> lower_hex (hex_digit n)"
  by (simp add: lower_hex_def hex_digit_def byte_char_of)

lemma hex_decode_encode: "hex_decode (hex_encode s) = s"
proof (induction s)
  case (Cons c s)
  have "byte c div 16 < 16" using byte_less [of c] by simp
  with Cons show ?case
    by (simp add: hex_encode_def hex_value_digit char_of_byte)
qed (simp add: hex_encode_def)

lemma hex_encode_inj: "hex_encode s = hex_encode t \<longleftrightarrow> s = t"
  by (metis hex_decode_encode)

lemma length_hex_encode [simp]: "length (hex_encode s) = 2 * length s"
  by (induction s) (simp_all add: hex_encode_def)

lemma hex_encode_lower: "c \<in> set (hex_encode s) \<Longrightarrow> lower_hex c"
proof (induction s)
  case (Cons a s)
  have "byte a div 16 < 16" using byte_less [of a] by simp
  with Cons show ?case by (auto simp: hex_encode_def intro: lower_hex_digit)
qed (simp add: hex_encode_def)

lemma hex_encode_ascii: "ascii (hex_encode s)"
  by (auto simp: ascii_def lower_hex_def dest!: hex_encode_lower)

end
