(* ===== verification/Gateway.thy ===== *)
theory Gateway
  imports Sha256 Gin Handlers
begin

text \<open>
  The way of an inference request through the gateway: the session middleware
  (\<open>gateway/internal/middleware/session.go\<close>), the handler (\<open>internal/handlers/infer.go\<close>), the
  client of the engine (\<open>internal/grpc/client.go\<close>), and behind it the engine's \<open>infer\<close>. Of
  \<open>strings\<close>, \<open>unicode/utf8\<close> and \<open>regexp\<close> what the sources call is computed; \<open>gin\<close>'s reading of the JSON
  body is an argument, and so is what the transport does to a call.
\<close>

section \<open>Strings\<close>

text \<open>
  \<open>strings.TrimSpace\<close>: encoded white space is cut off the front and then off the back. The set is
  the one of \<open>is_white\<close>; a byte that is part of no encoded character is not white.
\<close>

definition white_at_front :: "string \<Rightarrow> nat" where
  "white_at_front s =
     (case find (\<lambda>e. map byte (take (length e) s) = e) white_encodings of Some e \<Rightarrow> length e | None \<Rightarrow> 0)"

definition white_at_back :: "string \<Rightarrow> nat" where
  "white_at_back s =
     (case find (\<lambda>e. map byte (drop (length s - length e) s) = e) white_encodings of Some e \<Rightarrow> length e | None \<Rightarrow> 0)"

lemma white_at_front_bound: "white_at_front s \<le> length s"
proof (cases "find (\<lambda>e. map byte (take (length e) s) = e) white_encodings")
  case (Some e)
  then have "map byte (take (length e) s) = e" by (auto simp: find_Some_iff)
  then have "length (take (length e) s) = length e" by (metis length_map)
  with Some show ?thesis by (simp add: white_at_front_def)
qed (simp add: white_at_front_def)

lemma white_at_back_bound: "white_at_back s \<le> length s"
proof (cases "find (\<lambda>e. map byte (drop (length s - length e) s) = e) white_encodings")
  case (Some e)
  then have "map byte (drop (length s - length e) s) = e" by (auto simp: find_Some_iff)
  then have "length (drop (length s - length e) s) = length e" by (metis length_map)
  with Some show ?thesis by (simp add: white_at_back_def)
qed (simp add: white_at_back_def)

function trim_front :: "string \<Rightarrow> string" where
  "trim_front s = (if white_at_front s = 0 then s else trim_front (drop (white_at_front s) s))"
  by auto
termination
proof (relation "measure length")
  fix s assume "white_at_front s \<noteq> 0"
  with white_at_front_bound [of s] show "(drop (white_at_front s) s, s) \<in> measure length" by simp
qed simp

function trim_back :: "string \<Rightarrow> string" where
  "trim_back s = (if white_at_back s = 0 then s else trim_back (take (length s - white_at_back s) s))"
  by auto
termination
proof (relation "measure length")
  fix s assume "white_at_back s \<noteq> 0"
  with white_at_back_bound [of s] show "(take (length s - white_at_back s) s, s) \<in> measure length" by simp
qed simp

declare trim_front.simps [simp del] trim_back.simps [simp del]

definition trim_space :: "string \<Rightarrow> string" where
  "trim_space s = trim_back (trim_front s)"

text \<open>\<open>utf8.ValidString\<close>: no overlong form, no surrogate, nothing past the last code point.\<close>

definition continuation :: "nat \<Rightarrow> bool" where
  "continuation b \<longleftrightarrow> 128 \<le> b \<and> b < 192"

fun valid_utf8 :: "nat list \<Rightarrow> bool" where
  "valid_utf8 [] = True"
| "valid_utf8 (a # r) =
     (if a < 128 then valid_utf8 r
      else if 194 \<le> a \<and> a < 224 then
        (case r of b # r' \<Rightarrow> continuation b \<and> valid_utf8 r' | _ \<Rightarrow> False)
      else if 224 \<le> a \<and> a < 240 then
        (case r of b # c # r' \<Rightarrow>
            continuation b \<and> continuation c \<and> (a = 224 \<longrightarrow> 160 \<le> b) \<and> (a = 237 \<longrightarrow> b < 160) \<and> valid_utf8 r'
         | _ \<Rightarrow> False)
      else if 240 \<le> a \<and> a < 245 then
        (case r of b # c # d # r' \<Rightarrow>
            continuation b \<and> continuation c \<and> continuation d \<and>
            (a = 240 \<longrightarrow> 144 \<le> b) \<and> (a = 244 \<longrightarrow> b < 144) \<and> valid_utf8 r'
         | _ \<Rightarrow> False)
      else False)"

section \<open>The session middleware\<close>

text \<open>The characters of \<open>sessionIDPattern\<close>.\<close>

definition session_char :: "char \<Rightarrow> bool" where
  "session_char c \<longleftrightarrow> ascii_alpha c \<or> is_digit c \<or> c \<in> set ''-_.@:''"

definition max_session_id_bytes :: nat where
  "max_session_id_bytes = 256"

text \<open>\<open>errorf\<close> keeps its format as the message.\<close>

definition validate_session_id :: "string \<Rightarrow> string option" where
  "validate_session_id s =
     (if \<not> valid_utf8 (map byte s) then Some ''session ID is not valid UTF-8''
      else if max_session_id_bytes < length s then Some ''session ID exceeds %d bytes''
      else if \<exists>c \<in> set s. c \<in> {CHR 0x00, CHR 0x0D, CHR 0x0A}
      then Some ''session ID contains disallowed control characters''
      else if s = [] \<or> \<not> list_all session_char s
      then Some ''session ID contains disallowed characters (allowed: a-z A-Z 0-9 - _ . @ :)''
      else None)"

definition hash_session_id :: "string \<Rightarrow> string" where
  "hash_session_id s = hex_encode (sum256 s)"

definition set_session :: "string \<Rightarrow> gin_ctx \<Rightarrow> gin_ctx run" where
  "set_session raw c =
     (let hash = hash_session_id raw
      in map_run (\<lambda>prefix. c\<lparr>gc_session_id := raw, gc_session_id_hash := hash, gc_log_session_hash := prefix\<rparr>)
           (go_slice hash 12))"

definition session_extractor :: "string \<Rightarrow> gin_ctx \<Rightarrow> (http_response + gin_ctx) run" where
  "session_extractor header c =
     (let raw = trim_space (gc_header c header)
      in if raw = [] then map_run Inr (set_session (''anon:'' @ gc_client_ip c) c)
         else case validate_session_id raw of
                Some err \<Rightarrow> Inr (Inl (json_response 400 (ErrorBody (''invalid session ID in '' @ header) ''INVALID_SESSION_ID'')))
              | None \<Rightarrow> map_run Inr (set_session raw c))"

section \<open>The client of the engine\<close>

record gw_infer_request =
  gq_session_id_hash :: string
  gq_prompt :: string
  gq_client_ip :: string

record gw_infer_response =
  gp_response :: string
  gp_tier :: "32 word"
  gp_hybrid_score :: fp
  gp_duration_mins :: fp
  gp_request_id :: string

definition hash_for_proto :: "string \<Rightarrow> string" where
  "hash_for_proto value = (if value = [] then [] else ''hashed:'' @ value)"

text \<open>The fields of the message the client does not set are empty.\<close>

definition to_proto :: "gw_infer_request \<Rightarrow> infer_request" where
  "to_proto q =
     \<lparr>rq_session_id_hash = gq_session_id_hash q, rq_prompt = gq_prompt q,
      rq_client_ip_hash = hash_for_proto (gq_client_ip q), rq_request_id = [], rq_gateway_version = []\<rparr>"

definition client_infer :: "(infer_request \<Rightarrow> string + infer_response) \<Rightarrow> gw_infer_request \<Rightarrow> string + gw_infer_response" where
  "client_infer rpc q =
     (case rpc (to_proto q) of
        Inl e \<Rightarrow> Inl (''engine Infer RPC: '' @ e)
      | Inr p \<Rightarrow> Inr \<lparr>gp_response = rs_response p, gp_tier = rs_tier p, gp_hybrid_score = rs_hybrid_score p,
                      gp_duration_mins = rs_duration_mins p, gp_request_id = rs_request_id p\<rparr>)"

text \<open>
  \<open>NewEngineClient\<close>: \<open>dial\<close> is \<open>grpc.DialContext\<close> with the timeout and the address. TLS can be
  configured, and is then refused.
\<close>

definition new_engine_client ::
    "(go_int \<Rightarrow> string \<Rightarrow> string + (infer_request \<Rightarrow> string + infer_response)) \<Rightarrow> gw_engine \<Rightarrow>
     string + (gw_infer_request \<Rightarrow> string + gw_infer_response)" where
  "new_engine_client dial cfg =
     (if ge_use_tls cfg then Inl ''TLS is not yet implemented; set engine.use_tls=false for local dev''
      else case dial (ge_dial_timeout cfg) (ge_address cfg) of
             Inl e \<Rightarrow> Inl (''dialing engine at '' @ ge_address cfg @ '': '' @ e)
           | Inr rpc \<Rightarrow> Inr (client_infer rpc))"

text \<open>The stub of \<open>internal/grpc/stub\<close> for a gateway without an engine; its log line slices within the hash.\<close>

definition stub_infer :: "infer_request \<Rightarrow> (string + infer_response) run" where
  "stub_infer req =
     map_run (\<lambda>_. Inr
       \<lparr>rs_response = ''[STUB] Engine not connected. This is a mock response for local gateway development.'',
        rs_tier = 1, rs_hybrid_score = Num 0, rs_duration_mins = Num 0, rs_request_id = ''stub-request-id'',
        rs_v_score = Num 0, rs_d_score = Num 0, rs_e_score = Num 0, rs_a_score = Num 0,
        rs_intent_flagged = False, rs_intent_label = []\<rparr>)
       (go_slice (rq_session_id_hash req) (min 8 (length (rq_session_id_hash req))))"

lemma stub_never_panics: "stub_infer req \<noteq> Inl p"
  by (simp add: stub_infer_def go_slice_def)

text \<open>What the client calls a hash of the address is the address.\<close>

lemma client_address_is_sent:
  "gq_client_ip q \<noteq> [] \<Longrightarrow> rq_client_ip_hash (to_proto q) = ''hashed:'' @ gq_client_ip q"
  by (simp add: to_proto_def hash_for_proto_def)

section \<open>The handler\<close>

record infer_handler =
  ih_engine :: "gw_infer_request \<Rightarrow> string + gw_infer_response"
  ih_max_prompt :: go_int

definition new_infer_handler :: "(gw_infer_request \<Rightarrow> string + gw_infer_response) \<Rightarrow> gw_config \<Rightarrow> infer_handler" where
  "new_infer_handler engine cfg = \<lparr>ih_engine = engine, ih_max_prompt = gl_max_prompt_bytes (gw_limits cfg)\<rparr>"

text \<open>
  \<open>Handle\<close> up to the call of the engine. \<open>bind\<close> is \<open>c.ShouldBindJSON\<close>, the \<open>prompt\<close> of the body
  if it is valid JSON with one.
\<close>

definition infer_prepare :: "(string \<Rightarrow> string option) \<Rightarrow> infer_handler \<Rightarrow> gin_ctx \<Rightarrow> (http_response + gw_infer_request) run" where
  "infer_prepare bind H c =
     (if gc_session_id_hash c = []
      then Inr (Inl (json_response 500 (error_response ''internal configuration error'' ''INTERNAL'')))
      else case bind (gc_body c) of
        None \<Rightarrow> Inr (Inl (json_response 400
          (error_response ''request body must be valid JSON with a non-empty 'prompt' field'' ''BAD_REQUEST'')))
      | Some prompt \<Rightarrow>
          if sint (ih_max_prompt H) < int (length prompt)
          then Inr (Inl (json_response 413 (error_response ''prompt exceeds maximum allowed size'' ''PROMPT_TOO_LARGE'')))
          else if trim_space prompt = []
          then Inr (Inl (json_response 400 (error_response ''prompt must not be empty or whitespace'' ''BAD_REQUEST'')))
          else map_run (\<lambda>_. Inr \<lparr>gq_session_id_hash = gc_session_id_hash c, gq_prompt = prompt,
                                gq_client_ip = gc_client_ip c\<rparr>)
                 (go_slice (gc_session_id_hash c) 12))"

definition engine_unavailable :: http_response where
  "engine_unavailable = json_response 503 (error_response ''inference service unavailable'' ''ENGINE_UNAVAILABLE'')"

definition infer_handle :: "(string \<Rightarrow> string option) \<Rightarrow> infer_handler \<Rightarrow> gin_ctx \<Rightarrow> http_response run" where
  "infer_handle bind H c =
     bind_run (infer_prepare bind H c) (\<lambda>prepared. case prepared of
         Inl resp \<Rightarrow> Inr resp
       | Inr q \<Rightarrow> map_run (\<lambda>_. case ih_engine H q of
             Inl e \<Rightarrow> engine_unavailable
           | Inr p \<Rightarrow> json_response 200 (InferBody (gp_response p) (gp_tier p) (gp_request_id p)))
           (go_slice (gc_session_id_hash c) 12))"

section \<open>The engine behind the client\<close>

text \<open>
  A call: \<open>fault\<close> is what the transport makes of it (a deadline, a lost connection), a panic of
  the engine's task loses the call, and a \<open>Status\<close> arrives as its text.
\<close>

definition engine_rpc ::
    "(infer_request \<Rightarrow> string option) \<Rightarrow> ('st \<Rightarrow> string) \<Rightarrow> ('e, 'st) status_ops \<Rightarrow> ('d, 'e) engine \<Rightarrow> 'd chrono \<Rightarrow>
     ('r, 'e, 'j) redis \<Rightarrow> ('d, 'j) json \<Rightarrow> ('d, 'e) request_env \<Rightarrow> 'r \<Rightarrow> infer_request \<Rightarrow> string + infer_response" where
  "engine_rpc fault text_of T E C D J V r req =
     (case fault req of
        Some m \<Rightarrow> Inl m
      | None \<Rightarrow> (case fst (infer T E C D J V req r) of
            Inl p \<Rightarrow> Inl ''connection lost''
          | Inr (Inl st) \<Rightarrow> Inl (text_of st)
          | Inr (Inr resp) \<Rightarrow> Inr resp))"

definition gateway_infer ::
    "string \<Rightarrow> (string \<Rightarrow> string option) \<Rightarrow> gw_config \<Rightarrow> (infer_request \<Rightarrow> string + infer_response) \<Rightarrow> gin_ctx \<Rightarrow> http_response run" where
  "gateway_infer header bind cfg rpc c =
     bind_run (session_extractor header c) (\<lambda>x. case x of
         Inl resp \<Rightarrow> Inr resp
       | Inr c' \<Rightarrow> infer_handle bind (new_infer_handler (client_infer rpc) cfg) c')"

section \<open>What the session middleware passes on\<close>

lemma length_hash_session_id [simp]: "length (hash_session_id s) = 64"
  by (simp add: hash_session_id_def)

lemma hash_session_id_nonempty [simp]: "hash_session_id s \<noteq> []"
  using length_hash_session_id [of s] by fastforce

lemma hash_session_id_hex: "c \<in> set (hash_session_id s) \<Longrightarrow> lower_hex c"
  by (simp add: hash_session_id_def hex_encode_lower)

lemma hash_session_id_ascii: "ascii (hash_session_id s)"
  by (simp add: hash_session_id_def hex_encode_ascii)

lemma hash_session_id_eq: "hash_session_id s = hash_session_id t \<longleftrightarrow> sum256 s = sum256 t"
  by (simp add: hash_session_id_def hex_encode_inj)

lemma go_slice_ok: "n \<le> length s \<Longrightarrow> go_slice s n = Inr (take n s)"
  by (simp add: go_slice_def)

lemma set_session_ok:
  "set_session raw c = Inr (c\<lparr>gc_session_id := raw, gc_session_id_hash := hash_session_id raw,
     gc_log_session_hash := take 12 (hash_session_id raw)\<rparr>)"
  by (simp add: set_session_def Let_def go_slice_ok)

definition with_session :: "string \<Rightarrow> gin_ctx \<Rightarrow> gin_ctx" where
  "with_session raw c =
     c\<lparr>gc_session_id := raw, gc_session_id_hash := hash_session_id raw,
       gc_log_session_hash := take 12 (hash_session_id raw)\<rparr>"

lemma with_session_simps [simp]:
  "gc_session_id (with_session raw c) = raw" "gc_session_id_hash (with_session raw c) = hash_session_id raw"
  "gc_client_ip (with_session raw c) = gc_client_ip c" "gc_body (with_session raw c) = gc_body c"
  by (simp_all add: with_session_def)

lemma session_extractor_eq:
  "session_extractor header c =
     (let raw = trim_space (gc_header c header)
      in if raw = [] then Inr (Inr (with_session (''anon:'' @ gc_client_ip c) c))
         else if validate_session_id raw = None then Inr (Inr (with_session raw c))
         else Inr (Inl (json_response 400 (ErrorBody (''invalid session ID in '' @ header) ''INVALID_SESSION_ID''))))"
  by (auto simp: session_extractor_def Let_def set_session_ok with_session_def split: option.splits)

lemma session_extractor_hash:
  "session_extractor header c = Inr (Inr c') \<Longrightarrow>
     \<exists>raw. gc_session_id_hash c' = hash_session_id raw \<and> gc_client_ip c' = gc_client_ip c \<and> gc_body c' = gc_body c"
  by (auto simp: session_extractor_eq Let_def split: if_splits)

lemma infer_prepare_request:
  assumes "infer_prepare bind H c = Inr (Inr q)"
  shows "bind (gc_body c) = Some (gq_prompt q)" "int (length (gq_prompt q)) \<le> sint (ih_max_prompt H)"
    and "trim_space (gq_prompt q) \<noteq> []" "gq_session_id_hash q = gc_session_id_hash c" "gq_client_ip q = gc_client_ip c"
  using assms by (auto simp: infer_prepare_def split: option.splits if_splits)

lemma trim_space_Nil: "trim_space [] = []"
proof -
  have "white_at_front [] = 0" using white_at_front_bound [of "[]"] by simp
  moreover have "white_at_back [] = 0" using white_at_back_bound [of "[]"] by simp
  ultimately show ?thesis by (simp add: trim_space_def trim_front.simps [of "[]"] trim_back.simps [of "[]"])
qed

text \<open>A text of session characters is its own trimmed form, and is accepted.\<close>

lemma session_char_byte: "session_char c \<Longrightarrow> 33 \<le> byte c \<and> byte c < 128"
  by (auto simp: session_char_def ascii_alpha_def is_digit_def Let_def byte_def)

lemma white_encodings_ends:
  "e \<in> set white_encodings \<Longrightarrow> e \<noteq> [] \<and> (hd e < 33 \<or> 128 \<le> hd e) \<and> (last e < 33 \<or> 128 \<le> last e)"
  by (auto simp: white_encodings_def)

lemma not_white_at_front:
  assumes "s \<noteq> []" "33 \<le> byte (hd s)" "byte (hd s) < 128"
  shows "white_at_front s = 0"
proof -
  have "map byte (take (length e) s) \<noteq> e" if "e \<in> set white_encodings" for e
  proof
    assume m: "map byte (take (length e) s) = e"
    have "hd (map byte (take (length e) s)) = byte (hd s)"
      using white_encodings_ends [OF that] assms(1) by (simp add: hd_map)
    with m white_encodings_ends [OF that] assms(2,3) show False by simp
  qed
  then show ?thesis by (auto simp: white_at_front_def find_None_iff split: option.split dest: find_Some_iff [THEN iffD1])
qed

lemma not_white_at_back:
  assumes "s \<noteq> []" "33 \<le> byte (last s)" "byte (last s) < 128"
  shows "white_at_back s = 0"
proof -
  have "map byte (drop (length s - length e) s) \<noteq> e" if "e \<in> set white_encodings" for e
  proof
    assume m: "map byte (drop (length s - length e) s) = e"
    then have "drop (length s - length e) s \<noteq> []" using white_encodings_ends [OF that] by auto
    then have "last (map byte (drop (length s - length e) s)) = byte (last s)"
      by (simp add: last_map)
    with m white_encodings_ends [OF that] assms(2,3) show False by simp
  qed
  then show ?thesis by (auto simp: white_at_back_def find_None_iff split: option.split dest: find_Some_iff [THEN iffD1])
qed

lemma trim_space_plain:
  assumes "list_all session_char s"
  shows "trim_space s = s"
proof (cases "s = []")
  case False
  then have "session_char (hd s)" "session_char (last s)" using assms by (simp_all add: list_all_iff)
  then have "white_at_front s = 0" "white_at_back s = 0"
    using False not_white_at_front not_white_at_back by (simp_all add: session_char_byte)
  then show ?thesis by (simp add: trim_space_def trim_front.simps [of s] trim_back.simps [of s])
qed (simp add: trim_space_Nil)

lemma valid_utf8_ascii: "list_all (\<lambda>b. b < 128) bs \<Longrightarrow> valid_utf8 bs"
  by (induction bs) simp_all

lemma validate_plain:
  assumes "list_all session_char s" "s \<noteq> []" "length s \<le> 256"
  shows "validate_session_id s = None"
proof -
  have "valid_utf8 (map byte s)"
    using assms(1) by (intro valid_utf8_ascii) (auto simp: list_all_iff session_char_byte)
  moreover have "byte c < 33" if "c \<in> {CHR 0x00, CHR 0x0D, CHR 0x0A}" for c
    using that by (auto simp: byte_def)
  then have "\<not> (\<exists>c \<in> set s. c \<in> {CHR 0x00, CHR 0x0D, CHR 0x0A})"
    using assms(1) session_char_byte by (fastforce simp: list_all_iff)
  ultimately show ?thesis
    using assms unfolding validate_session_id_def max_session_id_bytes_def by simp
qed

section \<open>The engine on a well-formed hash\<close>

lemma slice_to_ascii: "ascii s \<Longrightarrow> n \<le> length s \<Longrightarrow> slice_to s n = Inr (take n s)"
  by (simp add: slice_to_def is_char_boundary_ascii)

lemma trace_prefix_ascii: "ascii s \<Longrightarrow> trace_prefix traced s = Inr ()"
  by (simp add: trace_prefix_def slice_to_ascii)

lemma bind_io_Inl: "bind_io m f = Inl p \<longleftrightarrow> m = Inl p \<or> (\<exists>x. m = Inr (Inr x) \<and> f x = Inl p)"
  by (induction m f rule: bind_io.induct) auto

text \<open>What the handler calls for a request panicked: a model, the scores, the rate, or the defence.\<close>

definition callee_panics :: "('d, 'e) engine \<Rightarrow> ('d, 'e) request_env \<Rightarrow> string \<Rightarrow> panic \<Rightarrow> bool" where
  "callee_panics E V prompt p \<longleftrightarrow>
     embed V prompt = Inl p \<or> classify_intent V prompt = Inl p \<or> (\<exists>ctx. compute_scores E ctx = Inl p) \<or>
     (\<exists>ts. calculate_rpm E ts = Inl p) \<or> complete V prompt = Inl p \<or>
     (\<exists>clean t seed. apply_defence E clean t seed = Inl p)"

lemma callee_panicsI:
  "embed V prompt = Inl p \<Longrightarrow> callee_panics E V prompt p"
  "classify_intent V prompt = Inl p \<Longrightarrow> callee_panics E V prompt p"
  "compute_scores E ctx = Inl p \<Longrightarrow> callee_panics E V prompt p"
  "calculate_rpm E ts = Inl p \<Longrightarrow> callee_panics E V prompt p"
  "complete V prompt = Inl p \<Longrightarrow> callee_panics E V prompt p"
  "apply_defence E clean t seed = Inl p \<Longrightarrow> callee_panics E V prompt p"
  by (auto simp: callee_panics_def)

lemma bind_run_Inl: "bind_run m f = Inl p \<longleftrightarrow> m = Inl p \<or> (\<exists>x. m = Inr x \<and> f x = Inl p)"
  by (cases m) auto

lemma assess_panic:
  assumes "ascii (rq_session_id_hash req)" "8 \<le> length (rq_session_id_hash req)" "assess E C V req s = Inl p"
  shows "callee_panics E V (rq_prompt req) p"
  using assms(3)
  by (auto simp: assess_def bind_io_Inl bind_run_Inl Let_def start_tracking_def slice_to_ascii [OF assms(1,2)]
      intro: callee_panicsI split: if_splits)

lemma defend_panic: "defend E now hash t clean s = Inl p \<Longrightarrow> callee_panics E V prompt p"
  by (cases t) (auto simp: defend_def bind_io_Inl Let_def intro: callee_panicsI)

lemma handle_infer_panic:
  assumes "ascii (rq_session_id_hash req)" "8 \<le> length (rq_session_id_hash req)"
    and "fst (handle_infer E C D J V req r) = Inl p"
  shows "callee_panics E V (rq_prompt req) p"
proof -
  have "load_session E D J V (rq_session_id_hash req) r \<noteq> Inl p"
    by (auto simp: load_session_def session_get_def trace_prefix_ascii [OF assms(1)] bind_io_Inl Let_def
        split: sum.splits option.splits if_splits)
  moreover have "infer_core E C D J V req r = Inl p"
    using assms(3) by (auto simp: handle_infer_def Let_def split: sum.splits prod.splits)
  ultimately show ?thesis
    using assess_panic [OF assms(1,2)] defend_panic callee_panicsI(5)
    by (fastforce simp: infer_core_def bind_io_Inl)
qed

lemma infer_panic:
  assumes "ascii (rq_session_id_hash req)" "8 \<le> length (rq_session_id_hash req)" "fst (infer T E C D J V req r) = Inl p"
  shows "callee_panics E V (rq_prompt req) p"
proof (rule handle_infer_panic [OF assms(1,2), of E C D J V r p])
  show "fst (handle_infer E C D J V req r) = Inl p"
    using assms(3) by (auto simp: infer_def trace_prefix_ascii [OF assms(1)] split: prod.splits sum.splits if_splits)
qed

lemma infer_echoes_request_id:
  "fst (infer T E C D J V req r) = Inr (Inr resp) \<Longrightarrow> rs_request_id resp = rq_request_id req"
  by (cases rule: handle_infer_cases [of E C D J V req r])
    (auto simp: infer_def make_response_def split: sum.splits if_splits)

text \<open>The characters of a printed IP address.\<close>

definition address_char :: "char \<Rightarrow> bool" where
  "address_char c \<longleftrightarrow> is_digit c \<or> c \<in> set ''abcdef.:''"

lemma anon_chars: "list_all session_char ''anon:''" "list_all session_char ''abcdef.:''"
  by code_simp+

lemma session_char_address: "address_char c \<Longrightarrow> session_char c"
  using anon_chars(2) unfolding address_char_def list_all_iff by (auto simp: session_char_def simp del: list.set)

text \<open>A client of the gateway, and the engine behind it as it is when nothing fails.\<close>

definition demo_ctx :: "string \<Rightarrow> string \<Rightarrow> gin_ctx" where
  "demo_ctx session ip =
     \<lparr>gc_header = (\<lambda>h. if h = ''X-Vyse-Session'' then session else []), gc_client_ip = ip, gc_body = ''hello'',
      gc_session_id = [], gc_session_id_hash = [], gc_log_session_hash = [], gc_admin_claims = None\<rparr>"

definition demo_gw_config :: gw_config where
  "demo_gw_config =
     \<lparr>gw_server = \<lparr>gs_public_port = 8080, gs_admin_port = 8081, gs_read_timeout = 0, gs_write_timeout = 0,
        gs_shutdown_timeout = 0, gs_trusted_proxies = []\<rparr>,
      gw_auth = \<lparr>ga_jwt_secret = [], ga_jwt_expiry_minutes = 480, ga_admin_username = [], ga_admin_password = [],
        ga_api_key_header = [], ga_api_key = []\<rparr>,
      gw_engine = \<lparr>ge_address = [], ge_dial_timeout = 0, ge_request_timeout = 0, ge_max_retries = 3,
        ge_use_tls = False, ge_tls_cert_file = [], ge_tls_key_file = []\<rparr>,
      gw_limits = \<lparr>gl_requests_per_second = Num 10, gl_burst = 20, gl_max_prompt_bytes = 16384,
        gl_session_header_name = ''X-Vyse-Session''\<rparr>,
      gw_logging = \<lparr>gg_level = [], gg_format = []\<rparr>\<rparr>"

abbreviation demo_rpc :: "infer_request \<Rightarrow> string + infer_response" where
  "demo_rpc \<equiv> engine_rpc (\<lambda>_. None) id demo_status demo_engine chrono_ns mem_redis null_json demo_env []"

abbreviation demo_handler :: infer_handler where
  "demo_handler \<equiv> new_infer_handler (client_infer demo_rpc) demo_gw_config"

definition demo_forwarded :: gw_infer_request where
  "demo_forwarded = \<lparr>gq_session_id_hash = hash_session_id ''s1'', gq_prompt = ''hello'', gq_client_ip = ''10.0.0.1''\<rparr>"

lemma demo_texts: "list_all session_char ''s1''" "list_all session_char ''hello''" "list_all address_char ''10.0.0.1''"
  by code_simp+

lemma demo_session:
  "session_extractor ''X-Vyse-Session'' (demo_ctx ''s1'' ''10.0.0.1'') = Inr (Inr (with_session ''s1'' (demo_ctx ''s1'' ''10.0.0.1'')))"
  using validate_plain [OF demo_texts(1)]
  by (simp add: session_extractor_eq demo_ctx_def trim_space_plain [OF demo_texts(1)] Let_def)

lemma demo_prepare:
  "infer_prepare Some demo_handler (with_session ''s1'' (demo_ctx ''s1'' ''10.0.0.1'')) = Inr (Inr demo_forwarded)"
  by (simp add: infer_prepare_def demo_ctx_def new_infer_handler_def demo_gw_config_def go_slice_ok
      trim_space_plain [OF demo_texts(2)] demo_forwarded_def)

lemma demo_call: "\<exists>resp. demo_rpc (to_proto demo_forwarded) = Inr resp \<and> rs_response resp = ''echo hello'' \<and> rs_tier resp = 1"
  by (simp add: engine_rpc_def infer_def to_proto_def demo_forwarded_def trace_prefix_ascii hash_session_id_ascii
      demo_defs make_response_def)

section \<open>Properties\<close>

text \<open>
  C4. The gateway keeps the engine's assumptions. The session middleware never panics, and a request
  it and the handler forward has a session hash of 64 lower-case hexadecimal digits and a prompt that is not
  blank and within the configured size. The engine does not refuse such a request as an invalid argument,
  and if it panics on it, then in a model, the scores, the rate or the defence it calls, with their
  panic: the slices of the hash in the handlers and the stores, which panic for other callers, are
  out of reach behind the gateway.
\<close>

theorem forwarded_requests_are_safe:
  assumes "session_extractor header c = Inr (Inr c')" "infer_prepare bind H c' = Inr (Inr q)"
  shows "length (rq_session_id_hash (to_proto q)) = 64 \<and> list_all lower_hex (rq_session_id_hash (to_proto q)) \<and>
    trim_space (rq_prompt (to_proto q)) \<noteq> [] \<and> int (length (rq_prompt (to_proto q))) \<le> sint (ih_max_prompt H) \<and>
    (\<forall>p. fst (infer T E C D J V (to_proto q) r) = Inl p \<longrightarrow> callee_panics E V (rq_prompt (to_proto q)) p) \<and>
    fst (infer T E C D J V (to_proto q) r) =
      map_run (\<lambda>res. case res of Inl e \<Rightarrow> Inl (st_from T e) | Inr resp \<Rightarrow> Inr resp) (fst (handle_infer E C D J V (to_proto q) r))"
proof -
  obtain raw where h: "rq_session_id_hash (to_proto q) = hash_session_id raw"
    using session_extractor_hash [OF assms(1)] infer_prepare_request(4) [OF assms(2)] by (auto simp: to_proto_def)
  have p: "rq_prompt (to_proto q) = gq_prompt q" by (simp add: to_proto_def)
  have "gq_prompt q \<noteq> []" using infer_prepare_request(3) [OF assms(2)] trim_space_Nil by auto
  then have "fst (infer T E C D J V (to_proto q) r) =
      map_run (\<lambda>res. case res of Inl e \<Rightarrow> Inl (st_from T e) | Inr resp \<Rightarrow> Inr resp) (fst (handle_infer E C D J V (to_proto q) r))"
    by (auto simp: infer_def h p trace_prefix_ascii hash_session_id_ascii split: prod.splits sum.splits)
  moreover have "callee_panics E V (gq_prompt q) pn" if "fst (infer T E C D J V (to_proto q) r) = Inl pn" for pn
    using infer_panic [OF _ _ that] by (simp add: h p hash_session_id_ascii)
  ultimately show ?thesis
    using infer_prepare_request(2,3) [OF assms(2)] unfolding h p by (auto simp: list_all_iff hash_session_id_hex)
qed

theorem forwarded_requests_are_safe_witness:
  "\<exists>resp. fst (infer demo_status demo_engine chrono_ns mem_redis null_json demo_env (to_proto demo_forwarded) []) = Inr (Inr resp) \<and>
     length (rq_session_id_hash (to_proto demo_forwarded)) = 64"
proof -
  obtain resp where "fst (infer demo_status demo_engine chrono_ns mem_redis null_json demo_env (to_proto demo_forwarded) []) = Inr (Inr resp)"
    using demo_call by (auto simp: engine_rpc_def split: sum.splits)
  then show ?thesis
    using forwarded_requests_are_safe [OF demo_session demo_prepare, where T = demo_status and E = demo_engine and
      C = chrono_ns and D = mem_redis and J = null_json and V = demo_env and r = "[]"] by blast
qed

text \<open>
  C34. What the client sees of the engine. A request that passes the checks is answered 200 exactly
  when the call returns a response, with the engine's text and tier; every failure, be it the
  transport, a refusal or a panic, gives the same 503. The request id of the answer is always empty,
  since the client of the engine sets none and the engine echoes what it got: it correlates nothing.
\<close>

theorem gateway_answers_for_the_engine:
  assumes "session_extractor header c = Inr (Inr c')"
    and "infer_prepare bind (new_infer_handler (client_infer (engine_rpc fault text_of T E C D J V r)) cfg) c' = Inr (Inr q)"
  shows "gateway_infer header bind cfg (engine_rpc fault text_of T E C D J V r) c =
    Inr (case engine_rpc fault text_of T E C D J V r (to_proto q) of
           Inl _ \<Rightarrow> engine_unavailable
         | Inr resp \<Rightarrow> json_response 200 (InferBody (rs_response resp) (rs_tier resp) []))"
proof -
  let ?rpc = "engine_rpc fault text_of T E C D J V r"
  have slice: "go_slice (gc_session_id_hash c') 12 = Inr (take 12 (gc_session_id_hash c'))"
    using session_extractor_hash [OF assms(1)] by (auto intro: go_slice_ok)
  have echo: "rs_request_id resp = []" if "?rpc (to_proto q) = Inr resp" for resp
  proof -
    have "fst (infer T E C D J V (to_proto q) r) = Inr (Inr resp)"
      using that by (auto simp: engine_rpc_def split: option.splits sum.splits)
    then show ?thesis using infer_echoes_request_id by (fastforce simp: to_proto_def)
  qed
  show ?thesis
    using assms(2) echo
    by (auto simp: gateway_infer_def assms(1) infer_handle_def slice new_infer_handler_def client_infer_def split: sum.splits)
qed

theorem gateway_answers_for_the_engine_witness:
  "gateway_infer ''X-Vyse-Session'' Some demo_gw_config demo_rpc (demo_ctx ''s1'' ''10.0.0.1'') =
     Inr (json_response 200 (InferBody ''echo hello'' 1 []))"
  using gateway_answers_for_the_engine [OF demo_session demo_prepare] demo_call by auto

text \<open>
  C35. A session without a header belongs to nobody. A client at any address that sends, as its
  session ID, \<open>anon:\<close> and another client's address passes the middleware and gets the session of that
  client's requests without a header: what one sends counts against the other.
\<close>

theorem anonymous_session_can_be_claimed:
  assumes "trim_space (gc_header victim header) = []" "gc_client_ip victim = ip"
    and "gc_header other header = ''anon:'' @ ip" "list_all address_char ip" "ip \<noteq> []" "length ip \<le> 45"
  shows "\<exists>v o'. session_extractor header victim = Inr (Inr v) \<and> session_extractor header other = Inr (Inr o') \<and>
    gc_session_id_hash o' = gc_session_id_hash v \<and> gc_client_ip o' = gc_client_ip other"
proof -
  let ?id = "''anon:'' @ ip"
  have plain: "list_all session_char ?id"
    using assms(4) anon_chars session_char_address by (auto simp: list_all_iff)
  have "validate_session_id ?id = None" by (rule validate_plain [OF plain]) (use assms(6) in simp_all)
  then show ?thesis
    using assms(1-3) trim_space_plain [OF plain] by (simp add: session_extractor_eq)
qed

theorem anonymous_session_can_be_claimed_witness:
  "\<exists>v o'. session_extractor ''X-Vyse-Session'' (demo_ctx [] ''10.0.0.1'') = Inr (Inr v) \<and>
     session_extractor ''X-Vyse-Session'' (demo_ctx ''anon:10.0.0.1'' ''10.9.9.9'') = Inr (Inr o') \<and>
     gc_session_id_hash o' = gc_session_id_hash v \<and> gc_client_ip o' = ''10.9.9.9''"
  using anonymous_session_can_be_claimed [of "demo_ctx [] ''10.0.0.1''" "''X-Vyse-Session''" "''10.0.0.1''" "demo_ctx ''anon:10.0.0.1'' ''10.9.9.9''"]
    demo_texts(3) by (simp add: demo_ctx_def trim_space_Nil)

end
