(* ===== verification/Sha256_Vector.thy ===== *)
theory Sha256_Vector
  imports Sha256
begin

section \<open>The standard's example\<close>

text \<open>The hash of \<open>abc\<close>, in the kernel: its schedule, and the rounds sixteen at a time.\<close>

lemma abc_schedule:
  "schedule (pad_message ''abc'') =
     [1633837952, 0, 0, 0, 0, 0, 0, 0,
      0, 0, 0, 0, 0, 0, 0, 24,
      1633837952, 983040, 2108187653, 1610613702, 1050508152, 25426944, 316456923, 3806512014,
      3357629466, 3073800610, 3854317833, 845560923, 2636160359, 3968280267, 1881225380, 3552024379,
      2482346367, 996719219, 2952069057, 4043988066, 176896406, 1924104970, 2483675966, 610538786,
      2672279444, 4037431130, 1042573945, 657669027, 206005234, 2215296807, 2049510749, 106709978,
      4215179723, 3430291419, 3118885940, 2845390439, 2226839261, 3256115900, 344409900, 2987358873,
      4015503821, 3957764664, 2682456414, 2025622859, 2755645205, 1720397816, 4004225740, 313650667]"
  by code_simp

lemma abc_rounds_1:
  "foldl sha_round (sha_load
      [1779033703, 3144134277, 1013904242, 2773480762, 1359893119, 2600822924, 528734635, 1541459225])
    (zip (take 16 (drop 0 round_constants))
      [1633837952, 0, 0, 0, 0, 0, 0, 0,
      0, 0, 0, 0, 0, 0, 0, 24]) =
   sha_load
      [2969183118, 3227803614, 3643992854, 2274437520, 123276749, 194179596, 1952073950, 509051416]"
  by code_simp

lemma abc_rounds_2:
  "foldl sha_round (sha_load
      [2969183118, 3227803614, 3643992854, 2274437520, 123276749, 194179596, 1952073950, 509051416])
    (zip (take 16 (drop 16 round_constants))
      [1633837952, 983040, 2108187653, 1610613702, 1050508152, 25426944, 316456923, 3806512014,
      3357629466, 3073800610, 3854317833, 845560923, 2636160359, 3968280267, 1881225380, 3552024379]) =
   sha_load
      [1941126133, 3935906338, 2684750640, 909411017, 3126399250, 17410874, 2917635127, 1628611511]"
  by code_simp

lemma abc_rounds_3:
  "foldl sha_round (sha_load
      [1941126133, 3935906338, 2684750640, 909411017, 3126399250, 17410874, 2917635127, 1628611511])
    (zip (take 16 (drop 32 round_constants))
      [2482346367, 996719219, 2952069057, 4043988066, 176896406, 1924104970, 2483675966, 610538786,
      2672279444, 4037431130, 1042573945, 657669027, 206005234, 2215296807, 2049510749, 106709978]) =
   sha_load
      [1098003085, 2706117808, 1923828625, 643991573, 4274981830, 3581645993, 3077922209, 2819559920]"
  by code_simp

lemma abc_rounds_4:
  "foldl sha_round (sha_load
      [1098003085, 2706117808, 1923828625, 643991573, 4274981830, 3581645993, 3077922209, 2819559920])
    (zip (take 16 (drop 48 round_constants))
      [4215179723, 3430291419, 3118885940, 2845390439, 2226839261, 3256115900, 344409900, 2987358873,
      4015503821, 3957764664, 2682456414, 2025622859, 2755645205, 1720397816, 4004225740, 313650667]) =
   sha_load
      [1349398616, 3550093669, 80891244, 3093179625, 1593118500, 4212265488, 2492278198, 2518632596]"
  by code_simp

lemma sum256_abc: "hex_encode (sum256 ''abc'') = ''ba7816bf8f01cfea414140de5dae2223b00361a396177a9cb410ff61f20015ad''"
proof -
  let ?k = "\<lambda>i. take 16 (drop i round_constants)"
  have k: "round_constants = ?k 0 @ ?k 16 @ ?k 32 @ ?k 48" by (simp add: round_constants_def)
  have l: "length (?k i) = 16" if "i \<le> 48" for i using that by (simp add: round_constants_def)
  have h: "initial_hash =
      [1779033703, 3144134277, 1013904242, 2773480762, 1359893119, 2600822924, 528734635, 1541459225]" by (simp add: initial_hash_def)
  have w: "schedule (pad_message ''abc'') =
      [1633837952, 0, 0, 0, 0, 0, 0, 0,
      0, 0, 0, 0, 0, 0, 0, 24] @
      [1633837952, 983040, 2108187653, 1610613702, 1050508152, 25426944, 316456923, 3806512014,
      3357629466, 3073800610, 3854317833, 845560923, 2636160359, 3968280267, 1881225380, 3552024379] @
      [2482346367, 996719219, 2952069057, 4043988066, 176896406, 1924104970, 2483675966, 610538786,
      2672279444, 4037431130, 1042573945, 657669027, 206005234, 2215296807, 2049510749, 106709978] @
      [4215179723, 3430291419, 3118885940, 2845390439, 2226839261, 3256115900, 344409900, 2987358873,
      4015503821, 3957764664, 2682456414, 2025622859, 2755645205, 1720397816, 4004225740, 313650667]"
    by (simp add: abc_schedule)
  have rounds: "foldl sha_round (sha_load initial_hash) (zip round_constants (schedule (pad_message ''abc''))) =
      sha_load
      [1349398616, 3550093669, 80891244, 3093179625, 1593118500, 4212265488, 2492278198, 2518632596]"
    unfolding w h by (subst k) (simp only: zip_append l length_Cons list.size foldl_append abc_rounds_1 abc_rounds_2 abc_rounds_3 abc_rounds_4)
  have p: "length (pad_message ''abc'') = 64" by (simp add: pad_message_def)
  have one: "chunks_of 64 (64 div 64) m = [m]" if "length m = 64" for m :: string
  proof -
    have "(64::nat) div 64 = Suc 0" by simp
    then show ?thesis using that by (simp only: chunks_of.simps take_all order_refl)
  qed
  have "sum256 ''abc'' = concat (map (\<lambda>w. be_bytes 4 (uint w)) (map2 (+) initial_hash (sha_words (sha_load
      [1349398616, 3550093669, 80891244, 3093179625, 1593118500, 4212265488, 2492278198, 2518632596]))))"
    by (simp only: sum256_def Let_def p one [OF p] foldl.simps sha_block_def rounds)
  moreover have "hex_encode (concat (map (\<lambda>w. be_bytes 4 (uint w)) (map2 (+) initial_hash (sha_words (sha_load
      [1349398616, 3550093669, 80891244, 3093179625, 1593118500, 4212265488, 2492278198, 2518632596])))))
      = ''ba7816bf8f01cfea414140de5dae2223b00361a396177a9cb410ff61f20015ad''"
    by (simp add: hex_encode_def hex_digit_def byte_def be_bytes_def upt_rec sha_words_def sha_load_def initial_hash_def
        char_of_def bit_0)
  ultimately show ?thesis by simp
qed

end
