(* ===== verification/Spec2Isabelle.thy ===== *)
theory Spec2Isabelle
  imports Loader Signals Pipeline Handlers Background Lockout Scoring_Tests Entropy_Tests Numeric_Tests Defence_Tests
    Rate_Limiter Gateway_Auth Gateway Sha256_Vector
begin

text \<open>
  Verification of the Vyse engine, the Rust crate under \<open>engine/src/\<close>, and of the Go gateway in
  front of it, \<open>gateway/internal/\<close>.

  The engine answers inference requests over gRPC. It keeps a session per client hash, scores each
  request by four signals, combines them into a hybrid score, classifies the session into a tier
  (1 clean, 2 suspicious, 3 malicious) and serves clean text to Tier 1 and a perturbed text to
  the others; the session and a log line are written after the answer, by spawned tasks. The gateway
  names the session by a hash of the client's session ID, checks and limits what comes in over HTTP,
  and puts each request to the engine.

  \<^bold>\<open>Theories and code.\<close>
  \<^item> \<open>Prelude\<close>: computations that may panic (\<open>'a run\<close>), the fact collections, lists and words.
  \<^item> \<open>Rounding\<close>, \<open>Floats\<close>: Rust's \<open>f32\<close> and \<open>f64\<close>, computed as IEEE 754 values with rounding to
    nearest even; the locale \<open>rounding\<close> is interpreted on both widths and on the reals.
  \<^item> \<open>Libm\<close>, \<open>Clock\<close>, \<open>Text\<close>, \<open>Rng\<close>: the interfaces to \<open>exp\<close> and \<open>log2\<close>, to \<open>chrono\<close>, to the Unicode
    tables and to \<open>rand\<close>. Each is a record of operations, a locale of laws and an
    interpretation on a concrete provider; \<open>Text\<close> also has the byte strings, \<open>split_whitespace\<close>,
    the integer and float parsing and printing the engine uses.
  \<^item> \<open>Config\<close> (\<open>config.rs\<close>): the structs, the defaults, \<open>validate\<close>; \<open>Loader\<close>: \<open>load\<close>, the
    layers and their reading into the structs.
  \<^item> \<open>Scoring\<close> (\<open>scoring/mod.rs\<close>): \<open>compute_hybrid\<close>, \<open>classify_tier\<close>.
  \<^item> \<open>Velocity\<close>, \<open>Divergence\<close>, \<open>Entropy\<close>, \<open>Anomaly\<close> (\<open>scoring/velocity.rs\<close> and its siblings): the
    four signals. The anomaly model behind the global lock is explicit state. \<open>Signals\<close>: the type
    every score has, whatever it is computed from.
  \<^item> \<open>Regex\<close>: the regular expressions the crate names, as a small grammar with its printing and
    its leftmost matching, and the contract of an engine that supports their look-around.
  \<^item> \<open>Synonym\<close>, \<open>Numeric\<close>, \<open>Pipeline\<close> (\<open>defence/synonym.rs\<close>, \<open>defence/numeric.rs\<close>,
    \<open>defence/mod.rs\<close>): the perturbation steps, the session seed and \<open>run_pipeline\<close>.
  \<^item> \<open>Session\<close> (\<open>store/session.rs\<close>, \<open>store/mod.rs\<close>): the profile, its trimming and its storage in
    Redis as JSON; \<open>Json\<close>: JSON values, the readers \<open>derive(Deserialize)\<close> builds from, and the interface
    to \<open>serde_json\<close>'s text. \<open>Logs\<close> (\<open>store/logs.rs\<close>): the query log in PostgreSQL, its two statements
    as the code writes them, with the meaning SQL gives them.
  \<^item> \<open>Service\<close>, \<open>Handlers\<close> (\<open>grpc/service.rs\<close>): \<open>handle_infer\<close>, step by step, and the six methods.
  \<^item> \<open>System\<close>: the running engine as a step relation, requests interleaved with the spawned
    writes, deletions and expiries, in any order; \<open>Background\<close>: the spawned work alone and what it
    leaves in accepting stores; \<open>Lockout\<close>: the runs after a session with a non-finite score.
  \<^item> \<open>Testing\<close>, \<open>Scoring_Tests\<close>, \<open>Entropy_Tests\<close>, \<open>Numeric_Tests\<close>, \<open>Defence_Tests\<close>: every
    \<open>#[test]\<close> of the crate as a definition, with what it returns. They tie the model to the values
    the authors expected of the code, and show which of those expectations the code does not meet.
  \<^item> \<open>Gateway_Config\<close> (\<open>config/config.go\<close>): the structs, the defaults, \<open>Load\<close>; the package viper
    is a record with the locale \<open>viper_laws\<close>. \<open>Sha256\<close>: \<open>crypto/sha256\<close> and \<open>encoding/hex\<close>
    of Go's library, computed on words; \<open>Sha256_Vector\<close>: a published test vector, in the kernel.
  \<^item> \<open>Gin\<close>: the request context and the responses. \<open>Rate_Limiter\<close> (\<open>middleware/ratelimit.go\<close>):
    the shared map of token buckets, its two locks and the eviction, as a step relation over any
    interleaving of clients; \<open>Gateway_Auth\<close> (\<open>middleware/auth.go\<close>, \<open>server/server.go\<close>): the
    API key, the token check, \<open>IssueToken\<close>, \<open>Health\<close>.
  \<^item> \<open>Gateway\<close> (\<open>middleware/session.go\<close>, \<open>handlers/infer.go\<close>, \<open>grpc/client.go\<close>,
    \<open>grpc/stub/stub.go\<close>): the session header, the inference handler, its client and the stub, and
    their composition with \<open>handle_infer\<close> of the engine.
  \<^item> This theory: the service over the scoring module, and the unit tests together.

  \<^bold>\<open>State and errors.\<close> A value that may panic is a sum with \<open>Inl\<close> the panic; an operation that may
  fail is a sum with \<open>Inl\<close> the error; one that may do both is \<open>('e, 'a) io\<close>. The session is the
  record \<open>session\<close>, Redis a state \<open>'r\<close> seen through \<open>content\<close>, PostgreSQL a state \<open>'t\<close> seen through
  \<open>table\<close>, the pending work a list of \<open>task\<close>. Instants are read from \<open>request_env\<close>, never inside the
  model. Counters keep their width: \<open>request_count\<close> is a \<open>64 word\<close> and the bigram counts are
  \<open>32 word\<close>s that wrap, as a release build does; a debug build would panic there instead.

  \<^bold>\<open>What the lemmas show.\<close> Signals and the hybrid score stay in \<open>[0, 1]\<close> under rounding, the tier is
  monotone in every signal, and the routines agree with their textbook specification (cosine,
  Welford, entropy of the bigram table). The defence changes only what it names: words of the
  table, matched numbers, the order of sentences, replayable from the logged seed. The session
  store and the log are round trips; the running engine refines a map of sessions, and every
  stored session and log entry is well-formed under every interleaving. Error paths: what NaN and
  infinity do to the configuration, the detector and the session, what a failed request leaves,
  what a lost update loses, which client stays locked out; and that the documented environment variables cannot
  configure the engine. Every score is a machine float that is NaN or of the unit interval. Of the
  45 unit tests 33 pass whatever the numeric step does; two of the E-Score fail; eight of the numeric step panic with the
  engine the crate uses and pass with any that implements its pattern, and the two of the pipeline at Tier 2
  follow the numeric step they are given. The gateway sends the engine only
  requests with a 64-digit session hash and a prompt within the bound, and its answer is the engine's;
  each client has a bucket of its own, whose admissions are bounded by its rate; a token lives as long
  as configured unless the duration wraps. Here: a flagged prompt is never served clean text, and what
  Tier 3 takes, which is not what the README says.

  \<^bold>\<open>Termination and bounds.\<close> Every loop of the engine is bounded by its input, so the model is total
  without fuel: the list recursions are structural, and the digit and square-root
  recursions have measures. The spawned tasks are a step relation of their own, each step of which removes
  one task. In the gateway the trimming recursions descend on the
  length of the string; a step of the rate limiter is one critical section, so a request that
  misses the map takes the lock twice, with any other steps between. Unit-interval results assume what their statements say, such as fewer than
  \<open>2 ^ 32\<close> bigrams, or embeddings of at most \<open>2 ^ 14\<close> components of size at most \<open>2 ^ 10\<close>.

  \<^bold>\<open>Parameters.\<close> Code the repository does not hold is an argument with named laws: Redis
  (\<open>redis_laws\<close>: get, set and del act on one key, an operation that reports an error may or may not
  have happened), \<open>serde_json\<close> (\<open>json_laws\<close>: values round-trip but for floats, which come back as finite floats
  that need not be equal, as without its feature \<open>float_roundtrip\<close>, or as \<open>null\<close> when not finite),
  PostgreSQL (\<open>postgres_laws\<close>: \<open>INSERT\<close> adds the row, \<open>SELECT\<close> answers a query as SQL defines it), the \<open>config\<close> crate (\<open>config_laws\<close>), \<open>rand\<close>, \<open>regex\<close>, HMAC-SHA256, \<open>chrono\<close>, libm; for the gateway viper
  (\<open>viper_laws\<close>), \<open>golang.org/x/time/rate\<close> (\<open>token_bucket\<close>) and \<open>golang-jwt\<close> (\<open>jwt_laws\<close>). The record \<open>engine\<close>
  stands for what \<open>service.rs\<close> calls and the crate lacks: the error type, the models, the LLM client, \<open>scoring::compute_scores\<close>
  over a context, \<open>defence::apply\<close>, \<open>derive_seed\<close> and \<open>hash_prompt\<close>, and configuration fields of
  other names. The models, the scores, the rate and the defence may panic there, as the crate's own
  do (the anomaly score, the numeric step); the configuration's integers keep their width, and twice the entropy
  window wraps, as in a release build. \<open>exp_decays\<close> is two values of \<open>exp\<close> that two unit tests need; \<open>classifies_as\<close> ties its tiers to the \<open>classify_tier\<close> the crate does have.

  \<^bold>\<open>Not modelled.\<close> Parsing TOML, the network and the pools themselves, the build script, the module
  declarations, and the tracing output other than the slices that can panic. Of the gateway: the
  transport under gin and gRPC, the generated messages and the logger. The program that would assemble
  its router is absent from the repository, so no order of the middleware is assumed beyond what a
  statement says.
  A test that reads the clock reads one instant: time passing during a test is not modelled.
  The modules \<open>audit\<close>, \<open>llm\<close>, \<open>ml\<close>, \<open>error\<close> and \<open>proto\<close> are declared and absent from the repository.
\<close>

section \<open>The service over the scoring module\<close>

text \<open>
  \<open>handle_infer\<close> asks its engine for a tier. \<open>classifies_as cfg E\<close> says that the engine's answer is
  the one of \<open>scoring::classify_tier\<close> on the hybrid score, the tracked duration and the intent
  flag, with the tier numbers of the protocol.
\<close>

definition classifies_as :: "scoring_config \<Rightarrow> ('d, 'e) engine \<Rightarrow> bool" where
  "classifies_as cfg E \<longleftrightarrow>
     tier_i32 E Clean = 1 \<and> tier_i32 E Suspicious = 2 \<and> tier_i32 E Malicious = 3 \<and>
     (\<forall>sc duration. tier_i32 E (classify E sc duration) =
        ucast (classify_tier (is_hybrid sc) duration (is_intent_flagged sc) cfg))"

lemma classifies_as_tier:
  assumes "classifies_as cfg E"
  shows "(classify E sc duration = Clean) = (classify_tier (is_hybrid sc) duration (is_intent_flagged sc) cfg = 1)"
    and "(classify E sc duration = Malicious) = tier3_reached (is_hybrid sc) duration cfg"
proof -
  let ?n = "classify_tier (is_hybrid sc) duration (is_intent_flagged sc) cfg"
  have u: "tier_i32 E (classify E sc duration) = ucast ?n" and e: "tier_i32 E Clean = 1"
    "tier_i32 E Suspicious = 2" "tier_i32 E Malicious = 3"
    using assms by (simp_all add: classifies_as_def)
  have n: "?n \<in> {1, 2, 3}" by (rule classify_tier_range)
  have "(classify E sc duration = Clean) = (?n = 1) \<and> (classify E sc duration = Malicious) = (?n = 3)"
    by (cases "classify E sc duration") (use u n in \<open>auto simp: e\<close>)
  moreover have "(?n = 3) = tier3_reached (is_hybrid sc) duration cfg" by (simp add: classify_tier_def)
  ultimately show "(classify E sc duration = Clean) = (?n = 1)"
    and "(classify E sc duration = Malicious) = tier3_reached (is_hybrid sc) duration cfg"
    by simp_all
qed

text \<open>The service's tier is monotone where \<open>classify_tier\<close> is.\<close>

lemma classify_engine_mono:
  assumes "classifies_as cfg E" "fle (is_hybrid sc) (is_hybrid sc')" "fle d d'"
    and "is_intent_flagged sc \<longrightarrow> is_intent_flagged sc'"
  shows "classify E sc d \<le> classify E sc' d'"
proof -
  let ?n = "classify_tier (is_hybrid sc) d (is_intent_flagged sc) cfg"
    and ?n' = "classify_tier (is_hybrid sc') d' (is_intent_flagged sc') cfg"
  have "?n \<le> ?n'" by (rule classify_tier_mono [OF assms(2-4)])
  moreover have "?n \<in> {1, 2, 3}" "?n' \<in> {1, 2, 3}" by (rule classify_tier_range)+
  ultimately have "?n' = 1 \<longrightarrow> ?n = 1" "?n = 3 \<longrightarrow> ?n' = 3" by (auto simp: word_le_nat_alt)
  moreover have "(?n = 3) = tier3_reached (is_hybrid sc) d cfg" "(?n' = 3) = tier3_reached (is_hybrid sc') d' cfg"
    by (simp_all add: classify_tier_def)
  ultimately show ?thesis
    using classifies_as_tier [OF assms(1), of sc d] classifies_as_tier [OF assms(1), of sc' d']
    by (cases "classify E sc d"; cases "classify E sc' d'") (simp_all add: less_eq_tier_def)
qed

definition repo_engine :: "(int, string) engine" where
  "repo_engine = demo_engine\<lparr>classify := \<lambda>sc duration.
     (let n = classify_tier (is_hybrid sc) duration (is_intent_flagged sc) default_scoring
      in if n = 1 then Clean else if n = 2 then Suspicious else Malicious)\<rparr>"

lemma repo_engine_classifies: "classifies_as default_scoring repo_engine"
  unfolding classifies_as_def
  by (auto simp: repo_engine_def demo_engine_def classify_tier_def Let_def)

lemma demo_tiers: "classify_tier (Num 0) (Num 0) True default_scoring = 2"
  "classify_tier (Num 1) (Num 11) False default_scoring = 3"
  by (simp_all add: classify_tier_def tier3_reached_def fp_eval)

section \<open>Properties\<close>

text \<open>
  C1. A flagged prompt is never served the model's own text: whatever its score and its session's
  age, the answer is Tier 2 or 3 and is the output of the defence under a seed that the same
  request persists.
\<close>

theorem flagged_prompt_is_defended:
  assumes "classifies_as cfg E" "handle_infer E C D J V req r = (Inr (Inr resp), ts)"
    and "classify_intent V (rq_prompt req) = Inr (Inr (True, label))"
  shows "rs_tier resp \<in> {2, 3} \<and> (\<exists>clean t s seed. complete V (rq_prompt req) = Inr (Inr clean) \<and> t \<noteq> Clean \<and>
    PersistSession s (cfg_session_ttl_secs E) \<in> set ts \<and> s_noise_seed s = Some seed \<and>
    apply_defence E clean t seed = Inr (Inr (rs_response resp)))"
proof (cases rule: handle_infer_cases [of E C D J V req r])
  case (answer s sc duration t served noise)
  note k = infer_core_served [OF answer(1)]
  have "is_intent_flagged sc" using infer_core_flagged [OF answer(1)] assms(3) by auto
  then have "classify_tier (is_hybrid sc) duration (is_intent_flagged sc) cfg \<noteq> 1" by (simp add: classify_tier_def)
  then have t: "t \<noteq> Clean" using k classifies_as_tier(1) [OF assms(1), of sc duration] by simp
  then have "tier_i32 E t \<in> {2, 3}" using assms(1) by (cases t) (auto simp: classifies_as_def)
  moreover have "rs_tier resp = tier_i32 E t" "rs_response resp = served"
    "PersistSession s (cfg_session_ttl_secs E) \<in> set ts"
    using assms(2) answer(2) by (auto simp: make_response_def)
  moreover obtain clean seed where "complete V (rq_prompt req) = Inr (Inr clean)" "s_noise_seed s = Some seed"
    "apply_defence E clean t seed = Inr (Inr served)"
    using k t by auto
  ultimately show ?thesis using t by metis
qed (use assms in simp_all)

theorem flagged_prompt_is_defended_witness:
  "\<exists>resp ts. handle_infer repo_engine chrono_ns mem_redis null_json
       (demo_env\<lparr>classify_intent := \<lambda>_. Inr (Inr (True, Some ''extraction''))\<rparr>) (demo_request ''hello'') [] = (Inr (Inr resp), ts) \<and>
     rs_tier resp \<in> {2, 3}"
proof -
  let ?V = "demo_env\<lparr>classify_intent := \<lambda>_. Inr (Inr (True, Some ''extraction''))\<rparr>"
  obtain resp ts where a: "handle_infer repo_engine chrono_ns mem_redis null_json ?V (demo_request ''hello'') [] = (Inr (Inr resp), ts)"
    by (simp add: repo_engine_def demo_defs demo_tiers)
  have i: "classify_intent ?V (rq_prompt (demo_request ''hello'')) = Inr (Inr (True, Some ''extraction''))" by simp
  show ?thesis
    using a flagged_prompt_is_defended [OF repo_engine_classifies a i] by blast
qed

text \<open>
  C2. What the code takes Tier 3 to be, for a configured minimum that is not negative. An answer reports it
  exactly when the score reaches the threshold and the duration exceeds the minimum; a flagged request that misses
  either is Tier 2, and so is never escalated by the flag alone. The duration of a Tier 3 answer is the minutes since
  the session's tracking started, and its audit entry is submitted before anything is persisted. The
  documents say otherwise: the README escalates a flagged prompt to Tier 3 at once, regardless of
  score; and \<open>scoring/mod.rs\<close> describes the duration as the minutes since \<open>first_seen_at\<close>, while the
  service passes those since \<open>tracking_started_at\<close>.
\<close>

theorem tier3_takes_tracked_time:
  assumes "classifies_as cfg E" "handle_infer E C D J V req r = (Inr (Inr resp), ts)"
    and "fle (Num 0) (tier3_min_duration_mins cfg)"
  shows "(rs_tier resp = 3 \<longleftrightarrow> fle (tier3_score_threshold cfg) (rs_hybrid_score resp) \<and>
      flt (tier3_min_duration_mins cfg) (rs_duration_mins resp)) \<and>
    (rs_intent_flagged resp \<and> rs_tier resp \<noteq> 3 \<longrightarrow> rs_tier resp = 2) \<and>
    (rs_tier resp = 3 \<longrightarrow> (\<exists>s started seed rest. s_tracking_started_at s = Some started \<and>
      rs_duration_mins resp = fdiv F32 (fof_int F32 (num_seconds C (at_duration V) started)) (Num 60) \<and>
      ts = SubmitRekor (rq_session_id_hash req) (rs_hybrid_score resp) (rs_duration_mins resp) seed #
           PersistSession s (cfg_session_ttl_secs E) # rest))"
proof (cases rule: handle_infer_cases [of E C D J V req r])
  case (answer s sc duration t served noise)
  note k = infer_core_served [OF answer(1)]
  have r: "rs_tier resp = tier_i32 E t" "rs_hybrid_score resp = is_hybrid sc" "rs_duration_mins resp = duration"
    "rs_intent_flagged resp = is_intent_flagged sc"
    using assms(2) answer(2) by (auto simp: make_response_def)
  note tiers = classifies_as_tier [OF assms(1), of sc duration]
  have num: "rs_tier resp = 3 \<longleftrightarrow> t = Malicious" "rs_tier resp = 1 \<longleftrightarrow> t = Clean" "rs_tier resp \<in> {1, 2, 3}"
    using assms(1) r(1) by (cases t; simp add: classifies_as_def)+
  have c: "t = classify E sc duration" using k by (elim conjE)
  have t3: "t = Malicious \<longleftrightarrow> tier3_reached (is_hybrid sc) duration cfg" using c tiers(2) by simp
  have "is_intent_flagged sc \<Longrightarrow> t \<noteq> Clean" using c tiers(1) by (simp add: classify_tier_def)
  then have flagged: "rs_intent_flagged resp \<and> rs_tier resp \<noteq> 3 \<longrightarrow> rs_tier resp = 2" using num r(4) by auto
  have "\<exists>s started seed rest. s_tracking_started_at s = Some started \<and>
      rs_duration_mins resp = fdiv F32 (fof_int F32 (num_seconds C (at_duration V) started)) (Num 60) \<and>
      ts = SubmitRekor (rq_session_id_hash req) (rs_hybrid_score resp) (rs_duration_mins resp) seed #
           PersistSession s (cfg_session_ttl_secs E) # rest" if m: "t = Malicious"
  proof -
    have d: "duration = tracking_duration_mins C (at_duration V) s" using k by (elim conjE)
    have "duration \<noteq> Num 0" using t3 m assms(3) by (auto simp: tier3_reached_def flt_def)
    then obtain started where "s_tracking_started_at s = Some started"
      using d by (cases "s_tracking_started_at s") (auto simp: tracking_duration_mins_def)
    then show ?thesis using d m r assms(2) answer(2) by (auto simp: tracking_duration_mins_def)
  qed
  moreover have "rs_tier resp = 3 \<longleftrightarrow> fle (tier3_score_threshold cfg) (rs_hybrid_score resp) \<and>
      flt (tier3_min_duration_mins cfg) (rs_duration_mins resp)"
    unfolding num(1) t3 r(2,3) tier3_reached_def ..
  ultimately show ?thesis using num(1) flagged by (intro conjI impI) simp_all
qed (use assms in simp_all)

definition old_session :: "int session" where
  "old_session = (session_new 0 ''session1'')\<lparr>s_tracking_started_at := Some 0\<rparr>"

theorem tier3_takes_tracked_time_witness:
  "\<exists>resp ts started. handle_infer repo_engine chrono_ns mem_redis null_json (demo_env\<lparr>at_duration := 660000000000\<rparr>)
       (demo_request ''steal'') [(session_key ''session1'', stored_text old_session)] = (Inr (Inr resp), ts) \<and>
     flt (Num 10) (fdiv F32 (fof_int F32 (num_seconds chrono_ns 660000000000 started)) (Num 60))"
proof -
  have m: "tier3_min_duration_mins default_scoring = Num 10" by simp
  have d: "fdiv F32 (fof_int F32 (num_seconds chrono_ns 660000000000 0)) (Num 60) = Num 11"
    by (simp add: chrono_ns_def quot_def fp_eval)
  obtain resp ts where a: "handle_infer repo_engine chrono_ns mem_redis null_json (demo_env\<lparr>at_duration := 660000000000\<rparr>)
       (demo_request ''steal'') [(session_key ''session1'', stored_text old_session)] = (Inr (Inr resp), ts)" "rs_tier resp = 3"
    by (simp add: repo_engine_def demo_defs demo_tiers old_session_def floats_finite_def make_response_def d)
  have z: "fle (Num 0) (tier3_min_duration_mins default_scoring)" unfolding m by (simp add: fle_def)
  note t = tier3_takes_tracked_time [OF repo_engine_classifies a(1) z]
  have "flt (Num 10) (rs_duration_mins resp)" using t a(2) unfolding m by blast
  moreover obtain started where "rs_duration_mins resp = fdiv F32 (fof_int F32 (num_seconds chrono_ns 660000000000 started)) (Num 60)"
    using t a(2) by auto
  ultimately show ?thesis using a(1) by metis
qed

text \<open>
  C39. What the unit tests expect of the scores and of the defence, and what the code does. The 22 tests
  of the hybrid score and of the V-, D- and A-Score pass, wherever the clock stands, with every
  lawful library whose \<open>exp\<close> falls as fast as the two tests that compare decays need; the five of the synonym
  step and the pipeline's Tier 1 pass with every lawful one. The two pipeline tests of Tier 2 pass with a numeric step
  that never panics and panic with one that always does, as the crate's own does with the engine it uses. Of the
  five of the E-Score three pass, and the two that expect repeated prompts to score high fail.
\<close>

theorem unit_tests_split:
  assumes "libm_laws M" "exp_decays M" "clock_ok now" "unicode_tables U" "\<And>xs. mset (order xs) = mset xs"
    and "rng_laws R" "crypto_laws C"
  shows "list_all passes
      [tier1_low_score_short_session, tier2_score_threshold_test, tier2_duration_threshold,
       tier3_requires_both_score_and_duration, intent_flag_forces_tier2_minimum,
       hybrid_weights_sum_to_one, hybrid_score_clamped_to_unit_range,
       identical_vectors_return_one, orthogonal_vectors_return_zero, zero_vector_returns_zero,
       empty_inputs_return_zero, result_within_unit_interval, similar_vectors_score_higher_than_dissimilar,
       velocity_empty_returns_zero M now, single_timestamp_returns_zero M now, score_clamped_to_one M now,
       timestamps_outside_window_ignored M now, low_rate_gives_low_score M now,
       recent_burst_scores_higher_than_old_burst M now,
       normal_features_give_low_score M, attacker_features_give_high_score M, anomaly_score_in_unit_interval M] \<and>
    list_all passes
      [substitutes_known_words U R, preserves_text_without_known_words U R, deterministic_with_same_rng_seed U R,
       preserves_capitalisation U R, empty_input U R, tier1_passthrough U R C numeric] \<and>
    ((\<forall>t p g. \<exists>x. numeric t p g = Inr x) \<longrightarrow>
       list_all passes [tier2_applies_steps U R C numeric, deterministic_with_same_seed U R C numeric]) \<and>
    list_all (\<lambda>t. t = Inl pn)
      [tier2_applies_steps U R C (\<lambda>_ _ _. Inl pn), deterministic_with_same_seed U R C (\<lambda>_ _ _. Inl pn)] \<and>
    list_all passes
      [diverse_prompts_give_low_score M U order, fewer_than_two_prompts_returns_zero M U order,
       entropy_score_in_unit_interval M U order] \<and>
    identical_prompts_give_high_score M U order = Inl AssertFailed \<and>
    window_limits_history_used M U order = Inl AssertFailed"
  using scoring_tests_pass [OF assms(1-3)] defence_tests_split [OF assms(4,6,7)] entropy_tests_split [OF assms(1,4,5)]
  by (intro conjI impI) (simp_all only:)

theorem unit_tests_split_witness:
  "passes (low_rate_gives_low_score cr_libm 0) \<and> passes (tier2_applies_steps ascii_tables lcg_rng mix_crypto no_numbers) \<and>
     identical_prompts_give_high_score cr_libm ascii_tables rev = Inl AssertFailed"
proof -
  have c: "clock_ok 0" by (simp add: clock_ok_def max_instant_def)
  have n: "\<forall>t p g. \<exists>x. no_numbers t p (g :: 64 word) = Inr x" unfolding no_numbers_def by blast
  from unit_tests_split [OF cr.libm_laws_axioms cr_exp_decays c ascii_u.unicode_tables_axioms _ lcg.rng_laws_axioms
      mix.crypto_laws_axioms, of rev no_numbers] n
  show ?thesis by (simp only: list.pred_inject simp_thms mset_rev)
qed

end
